(* ===== verification/Prelude.thy ===== *)
theory Prelude
  imports Main "HOL-Library.Word" "HOL-Library.AList" "HOL-Library.Char_ord"
    "HOL-Library.List_Lexorder" "HOL-Library.Sublist" "HOL-Library.Multiset"
begin

text \<open>
  The part of Go and of its standard library that the components share: instants and durations,
  contexts, maps with iteration, \<^verbatim>\<open>sort.Slice\<close>, \<^verbatim>\<open>strings.TrimSpace\<close> and the big-endian
  byte order of \<^verbatim>\<open>encoding/binary\<close>, with the lemmas the component proofs are built from.

  Conventions of the whole development:
  \<^item> A Go string is a \<^typ>\<open>string\<close>: a list of bytes, compared byte by byte, as in Go.
  \<^item> \<^verbatim>\<open>time.Time\<close> is an integer count of nanoseconds since Go's zero time, so that
    \<^verbatim>\<open>IsZero\<close> is being 0; \<^verbatim>\<open>time.Duration\<close> is an integer count of nanoseconds.
    Time zones (\<^verbatim>\<open>UTC()\<close>) do not change an instant.
  \<^item> A Go map that is iterated is an association list with distinct keys, its iteration order
    being the list's order; results that the code makes order-independent by sorting are proved
    to be so.
  \<^item> Every reading of a clock, of a random source or of \<^verbatim>\<open>ctx.Err()\<close> is an argument.
\<close>

unbundle bit_operations_syntax

section \<open>Collections of facts\<close>

named_theorems go_simps \<open>unfolding of the small Go helpers\<close>
named_theorems inv_intros \<open>operations keep their component's invariant\<close>

section \<open>Instants, durations, contexts\<close>

type_synonym time = int
type_synonym duration = int
type_synonym byte = "8 word"
type_synonym bytes = "8 word list"

abbreviation (input) zero_time :: time where "zero_time \<equiv> 0"

definition is_zero :: "time \<Rightarrow> bool" where
  "is_zero t \<longleftrightarrow> t = zero_time"

definition after :: "time \<Rightarrow> time \<Rightarrow> bool" where
  "after t u \<longleftrightarrow> u < t"

definition before :: "time \<Rightarrow> time \<Rightarrow> bool" where
  "before t u \<longleftrightarrow> t < u"

abbreviation (input) nanosecond :: duration where "nanosecond \<equiv> 1"
abbreviation (input) microsecond :: duration where "microsecond \<equiv> 1000"
abbreviation (input) millisecond :: duration where "millisecond \<equiv> 1000000"
abbreviation (input) second :: duration where "second \<equiv> 1000000000"
abbreviation (input) minute :: duration where "minute \<equiv> 60000000000"

text \<open>The range of a Go \<^verbatim>\<open>int64\<close>; \<^verbatim>\<open>Time.Sub\<close> saturates at its ends.\<close>

abbreviation (input) max_int64 :: int where "max_int64 \<equiv> 9223372036854775807"
abbreviation (input) min_int64 :: int where "min_int64 \<equiv> - 9223372036854775808"

definition wrap_int64 :: "int \<Rightarrow> int" where
  "wrap_int64 i = (i + 2 ^ 63) mod 2 ^ 64 - 2 ^ 63"

definition time_sub :: "time \<Rightarrow> time \<Rightarrow> duration" where
  "time_sub t u = max min_int64 (min max_int64 (t - u))"

lemmas [go_simps] = is_zero_def after_def before_def

lemma wrap_int64_id: "min_int64 \<le> i \<Longrightarrow> i \<le> max_int64 \<Longrightarrow> wrap_int64 i = i"
  by (simp add: wrap_int64_def)

lemma time_sub_ge_iff: "0 \<le> d \<Longrightarrow> d \<le> max_int64 \<Longrightarrow> d \<le> time_sub t u \<longleftrightarrow> d \<le> t - u"
  by (auto simp: time_sub_def)

lemma time_sub_le_0_iff: "time_sub t u \<le> 0 \<longleftrightarrow> t \<le> u"
  by (auto simp: time_sub_def min_def max_def)

datatype ctx_err = Canceled | DeadlineExceeded

type_synonym ctx = "ctx_err option"

definition non_empty :: "string \<Rightarrow> string \<Rightarrow> string" where
  "non_empty v fallback = (if v = '''' then fallback else v)"

section \<open>Maps with an iteration order\<close>

type_synonym ('k, 'v) gomap = "('k \<times> 'v) list"

definition wf_map :: "('k, 'v) gomap \<Rightarrow> bool" where
  "wf_map m \<longleftrightarrow> distinct (map fst m)"

abbreviation put :: "'k \<Rightarrow> 'v \<Rightarrow> ('k, 'v) gomap \<Rightarrow> ('k, 'v) gomap" where
  "put \<equiv> AList.update"

abbreviation del :: "'k \<Rightarrow> ('k, 'v) gomap \<Rightarrow> ('k, 'v) gomap" where
  "del \<equiv> AList.delete"

abbreviation vals :: "('k, 'v) gomap \<Rightarrow> 'v list" where
  "vals m \<equiv> map snd m"

lemma wf_map_Nil [simp, inv_intros]: "wf_map []"
  by (simp add: wf_map_def)

lemma wf_map_put [simp, inv_intros]: "wf_map m \<Longrightarrow> wf_map (put k v m)"
  by (simp add: wf_map_def distinct_update)

lemma wf_map_del [simp, inv_intros]: "wf_map m \<Longrightarrow> wf_map (del k m)"
  by (simp add: wf_map_def distinct_delete)

lemma map_of_put [simp]: "map_of (put k v m) = (map_of m)(k \<mapsto> v)"
  by (rule update_conv')

lemma map_of_del [simp]: "map_of (del k m) = (map_of m)(k := None)"
  by (rule delete_conv')

lemma set_vals_iff: "wf_map m \<Longrightarrow> v \<in> set (vals m) \<longleftrightarrow> (\<exists>k. map_of m k = Some v)"
  by (force simp: wf_map_def)

lemma map_of_in_vals: "map_of m k = Some v \<Longrightarrow> v \<in> set (vals m)"
  by (force dest: map_of_SomeD)

lemma distinct_map_vals:
  assumes "wf_map m"
    and "\<And>k v k' v'. map_of m k = Some v \<Longrightarrow> map_of m k' = Some v' \<Longrightarrow> f v = f v' \<Longrightarrow> k = k'"
  shows "distinct (map f (vals m))"
proof -
  have "inj_on (f \<circ> snd) (set m)"
  proof (rule inj_onI)
    fix x y assume xy: "x \<in> set m" "y \<in> set m" "(f \<circ> snd) x = (f \<circ> snd) y"
    have *: "map_of m (fst z) = Some (snd z)" if "z \<in> set m" for z
      by (rule map_of_is_SomeI) (use that assms(1) in \<open>simp_all add: wf_map_def\<close>)
    have "fst x = fst y"
      by (rule assms(2)[OF *[OF xy(1)] *[OF xy(2)]]) (use xy(3) in simp)
    moreover from this have "Some (snd x) = Some (snd y)"
      using *[OF xy(1)] *[OF xy(2)] by simp
    ultimately show "x = y"
      by (simp add: prod_eq_iff)
  qed
  then show ?thesis
    using assms(1) by (simp add: wf_map_def distinct_map)
qed

lemma length_put:
  "length (put k v m) = (if map_of m k = None then Suc (length m) else length m)"
  by (induction m) auto

lemma length_del_le: "length (del k m) \<le> length m"
  by (rule length_delete_le)

lemma put_Nil_iff [simp]: "put k v m \<noteq> []"
  by (cases m) auto

lemma map_of_eq_mset:
  assumes "wf_map m" and "wf_map m'" and "map_of m = map_of m'"
  shows "mset m = mset m'"
proof -
  have d: "distinct m" "distinct m'"
    using assms by (auto simp: wf_map_def distinct_map)
  have "set m = set m'"
    using assms map_of_eq_Some_iff unfolding wf_map_def by fastforce
  with d show ?thesis
    by (simp add: set_eq_iff_mset_eq_distinct)
qed

section \<open>sort.Slice\<close>

text \<open>
  \<^verbatim>\<open>sort.Slice\<close> permutes a slice so that no element is \<open>lt\<close> than an earlier one; it
  promises nothing about the order of elements that are not \<open>lt\<close> either way. The model is an
  insertion sort; the locale shows that where \<open>lt\<close> orders any two elements with different
  keys, every result the library may give is this one.
\<close>

fun insert_by :: "('a \<Rightarrow> 'a \<Rightarrow> bool) \<Rightarrow> 'a \<Rightarrow> 'a list \<Rightarrow> 'a list" where
  "insert_by lt x [] = [x]"
| "insert_by lt x (y # ys) = (if lt y x then y # insert_by lt x ys else x # y # ys)"

definition sort_slice :: "('a \<Rightarrow> 'a \<Rightarrow> bool) \<Rightarrow> 'a list \<Rightarrow> 'a list" where
  "sort_slice lt xs = foldr (insert_by lt) xs []"

lemma sort_slice_simps [simp]:
  "sort_slice lt [] = []"
  "sort_slice lt (x # xs) = insert_by lt x (sort_slice lt xs)"
  by (simp_all add: sort_slice_def)

lemma mset_insert_by [simp]: "mset (insert_by lt x ys) = add_mset x (mset ys)"
  by (induction ys) auto

lemma mset_sort_slice [simp]: "mset (sort_slice lt xs) = mset xs"
  by (induction xs) auto

lemma set_sort_slice [simp]: "set (sort_slice lt xs) = set xs"
  by (metis mset_sort_slice set_mset_mset)

lemma length_sort_slice [simp]: "length (sort_slice lt xs) = length xs"
  by (metis mset_sort_slice size_mset)

lemma distinct_map_mset: "mset xs = mset ys \<Longrightarrow> distinct (map f xs) = distinct (map f ys)"
  by (rule mset_eq_imp_distinct_iff) simp

lemma distinct_map_sort_slice [simp]:
  "distinct (map f (sort_slice lt xs)) = distinct (map f xs)"
  by (rule distinct_map_mset) simp

locale slice_order =
  fixes lt :: "'a \<Rightarrow> 'a \<Rightarrow> bool" and key :: "'a \<Rightarrow> 'k"
  assumes lt_irrefl: "\<not> lt x x"
    and lt_trans: "lt x y \<Longrightarrow> lt y z \<Longrightarrow> lt x z"
    and lt_total: "key x \<noteq> key y \<Longrightarrow> lt x y \<or> lt y x"
begin

lemma lt_asym: "lt x y \<Longrightarrow> \<not> lt y x"
  using lt_irrefl lt_trans by blast

lemma sorted_insert_by:
  "sorted_wrt lt ys \<Longrightarrow> key x \<notin> key ` set ys \<Longrightarrow> sorted_wrt lt (insert_by lt x ys)"
proof (induction ys)
  case (Cons y ys)
  have set: "set (insert_by lt x ys) = insert x (set ys)"
    by (metis mset_insert_by set_mset_mset set_mset_add_mset_insert)
  show ?case
  proof (cases "lt y x")
    case True
    with Cons set show ?thesis by simp
  next
    case False
    with Cons.prems have xy: "lt x y" using lt_total by force
    with Cons.prems have "\<forall>z \<in> set ys. lt x z" using lt_trans by auto
    with False xy Cons.prems show ?thesis by simp
  qed
qed simp

lemma sorted_sort_slice: "distinct (map key xs) \<Longrightarrow> sorted_wrt lt (sort_slice lt xs)"
  by (induction xs) (auto intro!: sorted_insert_by)

lemma sorted_unique:
  "sorted_wrt lt xs \<Longrightarrow> sorted_wrt lt ys \<Longrightarrow> set xs = set ys \<Longrightarrow> xs = ys"
proof (induction xs arbitrary: ys)
  case (Cons x xs)
  then obtain y ys' where ys: "ys = y # ys'" by (cases ys) auto
  from Cons.prems ys have xy: "x = y"
    by (metis lt_asym list.set_intros(1) set_ConsD sorted_wrt.simps(2))
  with Cons.prems ys lt_irrefl have "set xs = set ys'"
    by (metis insert_eq_iff list.simps(15) sorted_wrt.simps(2))
  with Cons ys xy show ?case by simp
qed simp

lemma sorted_any:
  assumes "distinct (map key xs)" and "mset ys = mset xs"
    and "sorted_wrt (\<lambda>x y. \<not> lt y x) ys"
  shows "ys = sort_slice lt xs"
proof -
  from assms(1,2) have d: "distinct (map key ys)"
    by (simp add: distinct_map_mset [of ys xs])
  from assms(3) d have "sorted_wrt lt ys"
  proof (induction ys)
    case (Cons y ys)
    then have "\<forall>z \<in> set ys. lt y z" using lt_total by fastforce
    with Cons show ?case by simp
  qed simp
  moreover have "set ys = set (sort_slice lt xs)"
    using mset_eq_setD [OF assms(2)] by simp
  ultimately show ?thesis
    using sorted_unique [OF _ sorted_sort_slice [OF assms(1)]] by simp
qed

lemma sort_slice_cong:
  assumes "distinct (map key xs)" and "mset xs = mset ys"
  shows "sort_slice lt xs = sort_slice lt ys"
proof -
  from assms have "distinct (map key ys)"
    by (simp add: distinct_map_mset [of xs ys])
  then have "sorted_wrt lt (sort_slice lt ys)" by (rule sorted_sort_slice)
  moreover from assms(2) have "set xs = set ys" by (rule mset_eq_setD)
  ultimately show ?thesis
    using sorted_unique [OF sorted_sort_slice [OF assms(1)]] by simp
qed

end

text \<open>\<^verbatim>\<open>if limit > 0 && len(xs) > limit { xs = xs[:limit] }\<close>\<close>

definition limit_slice :: "int \<Rightarrow> 'a list \<Rightarrow> 'a list" where
  "limit_slice limit xs = (if 0 < limit \<and> limit < int (length xs) then take (nat limit) xs else xs)"

lemma length_limit_slice: "0 < limit \<Longrightarrow> int (length (limit_slice limit xs)) \<le> limit"
  by (auto simp: limit_slice_def)

lemma set_limit_slice: "set (limit_slice limit xs) \<subseteq> set xs"
  by (auto simp: limit_slice_def dest: in_set_takeD)

lemma distinct_limit_slice: "distinct (map f xs) \<Longrightarrow> distinct (map f (limit_slice limit xs))"
  by (auto simp: limit_slice_def take_map [symmetric])

section \<open>strings.TrimSpace\<close>

text \<open>
  The byte sequences that encode one Unicode space: the six ASCII ones and the UTF-8 encodings
  of U+0085, U+00A0, U+1680, U+2000 to U+200A, U+2028, U+2029, U+202F, U+205F and U+3000.
\<close>

definition go_spaces :: "string list" where
  "go_spaces = [[CHR 9], [CHR 10], [CHR 11], [CHR 12], [CHR 13], [CHR 32],
     [CHR 0xC2, CHR 0x85], [CHR 0xC2, CHR 0xA0], [CHR 0xE1, CHR 0x9A, CHR 0x80],
     [CHR 0xE2, CHR 0x80, CHR 0x80], [CHR 0xE2, CHR 0x80, CHR 0x81], [CHR 0xE2, CHR 0x80, CHR 0x82],
     [CHR 0xE2, CHR 0x80, CHR 0x83], [CHR 0xE2, CHR 0x80, CHR 0x84], [CHR 0xE2, CHR 0x80, CHR 0x85],
     [CHR 0xE2, CHR 0x80, CHR 0x86], [CHR 0xE2, CHR 0x80, CHR 0x87], [CHR 0xE2, CHR 0x80, CHR 0x88],
     [CHR 0xE2, CHR 0x80, CHR 0x89], [CHR 0xE2, CHR 0x80, CHR 0x8A], [CHR 0xE2, CHR 0x80, CHR 0xA8],
     [CHR 0xE2, CHR 0x80, CHR 0xA9], [CHR 0xE2, CHR 0x80, CHR 0xAF], [CHR 0xE2, CHR 0x81, CHR 0x9F],
     [CHR 0xE3, CHR 0x80, CHR 0x80]]"

function trim_with :: "string list \<Rightarrow> string \<Rightarrow> string" where
  "trim_with ps s =
     (case find (\<lambda>p. p \<noteq> [] \<and> prefix p s) ps of
        None \<Rightarrow> s
      | Some p \<Rightarrow> trim_with ps (drop (length p) s))"
  by pat_completeness auto
termination
proof (relation "measure (length \<circ> snd)")
  fix ps s p
  assume "find (\<lambda>p. p \<noteq> [] \<and> prefix p s) ps = Some p"
  then have "p \<noteq> []" and "prefix p s"
    by (auto simp: find_Some_iff)
  then show "((ps, drop (length p) s), (ps, s)) \<in> measure (length \<circ> snd)"
    by (cases p; cases s) auto
qed simp

declare trim_with.simps [simp del]

definition trim_space :: "string \<Rightarrow> string" where
  "trim_space s = rev (trim_with (map rev go_spaces) (rev (trim_with go_spaces s)))"

section \<open>Big-endian integers\<close>

definition put_uint16 :: "16 word \<Rightarrow> bytes" where
  "put_uint16 v = [ucast (drop_bit 8 v), ucast v]"

definition put_uint32 :: "32 word \<Rightarrow> bytes" where
  "put_uint32 v = [ucast (drop_bit 24 v), ucast (drop_bit 16 v), ucast (drop_bit 8 v), ucast v]"

definition put_uint64 :: "64 word \<Rightarrow> bytes" where
  "put_uint64 v = [ucast (drop_bit 56 v), ucast (drop_bit 48 v), ucast (drop_bit 40 v),
     ucast (drop_bit 32 v), ucast (drop_bit 24 v), ucast (drop_bit 16 v), ucast (drop_bit 8 v), ucast v]"

text \<open>Reading folds the bytes, most significant first; the callers pass exactly as many bytes
  as the width takes.\<close>

definition be_word :: "bytes \<Rightarrow> 'a::len word" where
  "be_word bs = fold (\<lambda>b acc. push_bit 8 acc OR ucast b) bs 0"

lemma length_put_uint [simp]:
  "length (put_uint16 v) = 2" "length (put_uint32 w) = 4" "length (put_uint64 x) = 8"
  by (simp_all add: put_uint16_def put_uint32_def put_uint64_def)

lemma be_word_bit:
  "bit (be_word bs :: 'a::len word) i \<longleftrightarrow>
     i < LENGTH('a) \<and> i div 8 < length bs \<and> bit (rev bs ! (i div 8)) (i mod 8)"
proof (induction bs arbitrary: i rule: rev_induct)
  case (snoc b bs)
  have *: "be_word (bs @ [b]) = push_bit 8 (be_word bs :: 'a word) OR ucast b"
    by (simp add: be_word_def)
  show ?case
  proof (cases "8 \<le> i")
    case True
    then have "i div 8 = Suc ((i - 8) div 8)" "i mod 8 = (i - 8) mod 8"
      by (simp_all add: le_div_geq le_mod_geq)
    moreover have "\<not> bit b i"
      using True bit_imp_le_length[of b i] by auto
    ultimately show ?thesis
      using True by (auto simp: * snoc.IH bit_simps)
  qed (auto simp: * bit_simps)
qed (simp add: be_word_def)

lemma be_word_slices:
  fixes v :: "'a::len word"
  assumes "LENGTH('a) = 8 * length bs"
    and "\<And>k. k < length bs \<Longrightarrow> rev bs ! k = ucast (drop_bit (8 * k) v)"
  shows "be_word bs = v"
proof (rule bit_word_eqI)
  fix i assume "i < LENGTH('a)"
  then have "i div 8 < length bs"
    using assms(1) by auto
  moreover from this have "bit (rev bs ! (i div 8)) (i mod 8) = bit v i"
    by (simp add: assms(2) bit_simps)
  ultimately show "bit (be_word bs :: 'a word) i = bit v i"
    using \<open>i < LENGTH('a)\<close> by (simp add: be_word_bit)
qed

lemma be_word_put [simp]:
  "be_word (put_uint16 v) = v" "be_word (put_uint32 w) = w" "be_word (put_uint64 x) = x"
  by (rule be_word_slices; auto simp: put_uint16_def put_uint32_def put_uint64_def
        less_Suc_eq numeral_eq_Suc)+

lemma byte_bit_high: "8 \<le> n \<Longrightarrow> \<not> bit (b :: byte) n"
  using bit_imp_le_length[of b n] by auto

lemma put_be_word_lists:
  "put_uint16 (be_word [a, b]) = [a, b]"
  "put_uint32 (be_word [a, b, c, d]) = [a, b, c, d]"
  "put_uint64 (be_word [a, b, c, d, e, f, g, h]) = [a, b, c, d, e, f, g, h]"
  by (auto simp: put_uint16_def put_uint32_def put_uint64_def be_word_def bit_simps byte_bit_high
      intro!: bit_word_eqI)

lemma put_be_word:
  "length bs = 2 \<Longrightarrow> put_uint16 (be_word bs) = bs"
  "length bs = 4 \<Longrightarrow> put_uint32 (be_word bs) = bs"
  "length bs = 8 \<Longrightarrow> put_uint64 (be_word bs) = bs"
  by (auto simp: length_Suc_conv eval_nat_numeral put_be_word_lists)

section \<open>Byte strings, slices and readers\<close>

text \<open>
  \<^verbatim>\<open>[]byte(s)\<close> and \<^verbatim>\<open>string(b)\<close>, the slice expression \<^verbatim>\<open>xs[i:j]\<close> inside its bounds, and
  \<^verbatim>\<open>io.ReadFull\<close> on a reader that delivers the given bytes and then \<^verbatim>\<open>io.EOF\<close>: the bytes read,
  the error, and the reader left behind.
\<close>

definition byte_of_char :: "char \<Rightarrow> byte" where
  "byte_of_char c = word_of_nat (of_char c)"

definition char_of_byte :: "byte \<Rightarrow> char" where
  "char_of_byte b = char_of (unat b)"

abbreviation bytes_of :: "string \<Rightarrow> bytes" where
  "bytes_of \<equiv> map byte_of_char"

abbreviation string_of :: "bytes \<Rightarrow> string" where
  "string_of \<equiv> map char_of_byte"

definition sub_slice :: "nat \<Rightarrow> nat \<Rightarrow> 'a list \<Rightarrow> 'a list" where
  "sub_slice i j xs = take (j - i) (drop i xs)"

datatype io_err = EOF | ErrUnexpectedEOF

definition read_full :: "nat \<Rightarrow> bytes \<Rightarrow> bytes \<times> io_err option \<times> bytes" where
  "read_full n r =
     (take n r,
      (if length r < n then Some (if r = [] then EOF else ErrUnexpectedEOF) else None),
      drop n r)"

lemma char_of_byte_of_char [simp]: "char_of_byte (byte_of_char c) = c"
  using of_char_of[of "of_char c :: nat"]
  by (simp add: char_of_byte_def byte_of_char_def unat_of_nat take_bit_eq_mod)

lemma byte_of_char_of_byte [simp]: "byte_of_char (char_of_byte b) = b"
  using unsigned_less[of b, where ?'a = nat] by (simp add: char_of_byte_def byte_of_char_def)

lemma byte_char_comp [simp]: "char_of_byte \<circ> byte_of_char = id" "byte_of_char \<circ> char_of_byte = id"
  by (simp_all add: fun_eq_iff)

lemma length_sub_slice [simp]: "j \<le> length xs \<Longrightarrow> length (sub_slice i j xs) = j - i"
  by (simp add: sub_slice_def)

lemma sub_slice_append_sub_slice:
  "i \<le> j \<Longrightarrow> j \<le> k \<Longrightarrow> sub_slice i j xs @ sub_slice j k xs = sub_slice i k xs"
  using take_add[of "j - i" "k - j" "drop i xs"] by (simp add: sub_slice_def)

lemma sub_slice_all [simp]: "sub_slice 0 (length xs) xs = xs"
  by (simp add: sub_slice_def)

end
