(* ===== verification/Protocol.thy ===== *)
theory Protocol
  imports Prelude
begin

text \<open>
  The wire protocol of \<^verbatim>\<open>pkg/sdk/protocol\<close>: packets, the binary codec (\<^verbatim>\<open>codec.go\<close>) and the two
  acknowledgement bodies (\<^verbatim>\<open>ack.go\<close>, \<^verbatim>\<open>delivery_ack.go\<close>).  An error is the sentinel that
  \<^verbatim>\<open>errors.Is\<close> finds; the texts wrapped around it are not modelled.  A \<^verbatim>\<open>*Packet\<close> that may be
  \<^verbatim>\<open>nil\<close> is an option, and \<^verbatim>\<open>int64\<close> timestamps are their two's complement words.  The JSON codec
  \<^verbatim>\<open>sonic\<close> is a third-party package: its functions are arguments.
\<close>

section \<open>Packets\<close>

definition Magic :: "16 word" where "Magic = 0x5A43"
definition Version :: byte where "Version = 1"
definition FixedHeaderSize :: nat where "FixedHeaderSize = 41"
definition DefaultMaxBodySize :: "32 word" where "DefaultMaxBodySize = 4194304"

definition MsgIDAck :: "32 word" where "MsgIDAck = 1"
definition MsgIDDownlinkAck :: "32 word" where "MsgIDDownlinkAck = 2"
definition MsgIDBind :: "32 word" where "MsgIDBind = 1000"

definition FlagAckRequired :: "16 word" where "FlagAckRequired = 1"
definition FlagCompressed :: "16 word" where "FlagCompressed = 2"

record packet =
  pkt_Version :: byte
  pkt_Flags :: "16 word"
  pkt_MsgID :: "32 word"
  pkt_Seq :: "64 word"
  pkt_Timestamp :: "64 word"
  pkt_ClientID :: string
  pkt_DeviceID :: string
  pkt_SessionID :: string
  pkt_MessageID :: string
  pkt_TraceID :: string
  pkt_Token :: string
  pkt_Body :: bytes

definition NewPacket :: "32 word \<Rightarrow> bytes \<Rightarrow> packet" where
  "NewPacket msgID body =
     \<lparr>pkt_Version = Version, pkt_Flags = 0, pkt_MsgID = msgID, pkt_Seq = 0, pkt_Timestamp = 0,
      pkt_ClientID = '''', pkt_DeviceID = '''', pkt_SessionID = '''', pkt_MessageID = '''',
      pkt_TraceID = '''', pkt_Token = '''', pkt_Body = body\<rparr>"

definition IsReservedMsgID :: "32 word \<Rightarrow> bool" where
  "IsReservedMsgID msgID \<longleftrightarrow> msgID = MsgIDAck \<or> msgID = MsgIDDownlinkAck \<or> msgID = MsgIDBind"

datatype protocol_err =
    ErrNilPacket | ErrPacketTooShort | ErrInvalidMagic | ErrUnsupportedVersion | ErrLengthMismatch
  | ErrFieldTooLarge | ErrBodyTooLarge | ErrInvalidAck | ErrInvalidDeliveryAck

section \<open>The codec\<close>

abbreviation max_uint16 :: nat where "max_uint16 \<equiv> 65535"
abbreviation max_uint32 :: nat where "max_uint32 \<equiv> 4294967295"

definition packet_fields :: "packet \<Rightarrow> string list" where
  "packet_fields p = [pkt_ClientID p, pkt_DeviceID p, pkt_SessionID p, pkt_MessageID p,
     pkt_TraceID p, pkt_Token p]"

text \<open>
  \<^verbatim>\<open>Encode\<close> stamps the current version into the packet it was given, so the packet afterwards is
  part of the result.
\<close>

definition Encode :: "packet option \<Rightarrow> protocol_err + (bytes \<times> packet)" where
  "Encode packet = (case packet of None \<Rightarrow> Inl ErrNilPacket | Some p \<Rightarrow>
     let fields = packet_fields p in
     if \<exists>f\<in>set fields. max_uint16 < length f then Inl ErrFieldTooLarge
     else if max_uint32 < length (pkt_Body p) then Inl ErrBodyTooLarge
     else let p = p\<lparr>pkt_Version := Version\<rparr> in
       Inr (put_uint16 Magic @ [pkt_Version p] @ put_uint16 (pkt_Flags p) @ put_uint32 (pkt_MsgID p)
            @ put_uint64 (pkt_Seq p) @ put_uint64 (pkt_Timestamp p)
            @ concat (map (\<lambda>f. put_uint16 (of_nat (length f))) fields)
            @ put_uint32 (of_nat (length (pkt_Body p)))
            @ concat (map bytes_of fields) @ pkt_Body p, p))"

fun read_field_lens :: "nat \<Rightarrow> nat \<Rightarrow> bytes \<Rightarrow> 16 word list" where
  "read_field_lens 0 offset fixed = []"
| "read_field_lens (Suc n) offset fixed =
     be_word (sub_slice offset (offset + 2) fixed) # read_field_lens n (offset + 2) fixed"

fun read_strings :: "nat \<Rightarrow> 16 word list \<Rightarrow> bytes \<Rightarrow> string list \<times> nat" where
  "read_strings cursor [] varPart = ([], cursor)"
| "read_strings cursor (n # ns) varPart =
     (let end = cursor + unat n;
          (fs, c) = read_strings end ns varPart
      in (string_of (sub_slice cursor end varPart) # fs, c))"

text \<open>The packet and the length it announces, and the reader behind it.\<close>

definition readPacket :: "bytes \<Rightarrow> 32 word \<Rightarrow> (protocol_err + (packet \<times> nat)) \<times> bytes" where
  "readPacket reader maxBodySize =
    (case read_full FixedHeaderSize reader of
       (_, Some _, rest) \<Rightarrow> (Inl ErrPacketTooShort, rest)
     | (fixed, None, rest) \<Rightarrow>
       if be_word (sub_slice 0 2 fixed) \<noteq> Magic then (Inl ErrInvalidMagic, rest)
       else if fixed ! 2 \<noteq> Version then (Inl ErrUnsupportedVersion, rest)
       else let
         fieldLens = read_field_lens 6 25 fixed;
         bodyLen = be_word (sub_slice 37 41 fixed) :: 32 word
       in if maxBodySize < bodyLen then (Inl ErrBodyTooLarge, rest)
       else let
         varLen = sum_list (map unat fieldLens);
         expectedLen = FixedHeaderSize + varLen + unat bodyLen
       in case read_full (varLen + unat bodyLen) rest of
         (_, Some _, rest) \<Rightarrow> (Inl ErrLengthMismatch, rest)
       | (varPart, None, rest) \<Rightarrow>
         let (fs, cursor) = read_strings 0 fieldLens varPart in
         (Inr (\<lparr>pkt_Version = fixed ! 2,
                pkt_Flags = be_word (sub_slice 3 5 fixed),
                pkt_MsgID = be_word (sub_slice 5 9 fixed),
                pkt_Seq = be_word (sub_slice 9 17 fixed),
                pkt_Timestamp = be_word (sub_slice 17 25 fixed),
                pkt_ClientID = fs ! 0, pkt_DeviceID = fs ! 1, pkt_SessionID = fs ! 2,
                pkt_MessageID = fs ! 3, pkt_TraceID = fs ! 4, pkt_Token = fs ! 5,
                pkt_Body = (if 0 < bodyLen
                            then sub_slice cursor (cursor + unat bodyLen) varPart else [])\<rparr>,
               expectedLen), rest))"

definition DecodeWithMaxBodySize :: "bytes \<Rightarrow> 32 word \<Rightarrow> protocol_err + packet" where
  "DecodeWithMaxBodySize data maxBodySize =
     (if length data < FixedHeaderSize then Inl ErrPacketTooShort
      else case readPacket data maxBodySize of
        (Inl e, _) \<Rightarrow> Inl e
      | (Inr (packet, expectedLen), _) \<Rightarrow>
          if expectedLen \<noteq> length data then Inl ErrLengthMismatch else Inr packet)"

definition Decode :: "bytes \<Rightarrow> protocol_err + packet" where
  "Decode data = DecodeWithMaxBodySize data DefaultMaxBodySize"

definition DecodeReader :: "bytes \<Rightarrow> 32 word \<Rightarrow> (protocol_err + packet) \<times> bytes" where
  "DecodeReader reader maxBodySize =
     (case readPacket reader maxBodySize of
        (Inl e, rest) \<Rightarrow> (Inl e, rest)
      | (Inr (packet, _), rest) \<Rightarrow> (Inr packet, rest))"

section \<open>Acknowledgements\<close>

record ack =
  ack_Code :: string
  ack_MsgID :: "32 word"
  ack_MessageID :: string
  ack_Reason :: string

definition AckAccepted :: string where "AckAccepted = ''accepted''"
definition AckDecodeFailed :: string where "AckDecodeFailed = ''decode_failed''"
definition AckUnauthorized :: string where "AckUnauthorized = ''unauthorized''"
definition AckAuthUnavailable :: string where "AckAuthUnavailable = ''auth_unavailable''"
definition AckRejected :: string where "AckRejected = ''rejected''"

text \<open>\<open>marshal\<close> and \<open>unmarshal\<close> stand for the JSON codec, \<open>now_ms\<close> for the clock reading.\<close>

definition NewAckPacket ::
  "(ack \<Rightarrow> 'e + bytes) \<Rightarrow> 64 word \<Rightarrow> packet option \<Rightarrow> string \<Rightarrow> string \<Rightarrow> 'e + packet" where
  "NewAckPacket marshal now_ms origin code reason =
     (let ack = \<lparr>ack_Code = code, ack_MsgID = 0, ack_MessageID = '''', ack_Reason = reason\<rparr>;
          packet = (NewPacket MsgIDAck [])\<lparr>pkt_Timestamp := now_ms\<rparr>;
          (ack, packet) = (case origin of None \<Rightarrow> (ack, packet) | Some o' \<Rightarrow>
            (ack\<lparr>ack_MsgID := pkt_MsgID o', ack_MessageID := pkt_MessageID o'\<rparr>,
             packet\<lparr>pkt_ClientID := pkt_ClientID o', pkt_DeviceID := pkt_DeviceID o',
               pkt_SessionID := pkt_SessionID o', pkt_MessageID := pkt_MessageID o',
               pkt_TraceID := pkt_TraceID o', pkt_Seq := pkt_Seq o'\<rparr>))
      in case marshal ack of Inl e \<Rightarrow> Inl e | Inr body \<Rightarrow> Inr (packet\<lparr>pkt_Body := body\<rparr>))"

definition DecodeAck :: "(bytes \<Rightarrow> 'e + ack) \<Rightarrow> packet option \<Rightarrow> protocol_err + ack" where
  "DecodeAck unmarshal packet = (case packet of None \<Rightarrow> Inl ErrInvalidAck | Some p \<Rightarrow>
     if pkt_MsgID p \<noteq> MsgIDAck then Inl ErrInvalidAck
     else case unmarshal (pkt_Body p) of
       Inl _ \<Rightarrow> Inl ErrInvalidAck
     | Inr ack \<Rightarrow> if ack_Code ack = '''' then Inl ErrInvalidAck else Inr ack)"

record delivery_ack =
  da_MessageID :: string
  da_Code :: string

definition DeliveryAckDelivered :: string where "DeliveryAckDelivered = ''delivered''"

definition EncodeDeliveryAck ::
  "(delivery_ack \<Rightarrow> 'e + bytes) \<Rightarrow> delivery_ack \<Rightarrow> protocol_err + bytes" where
  "EncodeDeliveryAck marshal ack =
     (if da_MessageID ack = '''' \<or> da_Code ack \<noteq> DeliveryAckDelivered then Inl ErrInvalidDeliveryAck
      else case marshal ack of Inl _ \<Rightarrow> Inl ErrInvalidDeliveryAck | Inr body \<Rightarrow> Inr body)"

definition DecodeDeliveryAck ::
  "(bytes \<Rightarrow> 'e + delivery_ack) \<Rightarrow> packet option \<Rightarrow> protocol_err + delivery_ack" where
  "DecodeDeliveryAck unmarshal packet =
     (case packet of None \<Rightarrow> Inl ErrInvalidDeliveryAck | Some p \<Rightarrow>
        if pkt_MsgID p \<noteq> MsgIDDownlinkAck then Inl ErrInvalidDeliveryAck
        else case unmarshal (pkt_Body p) of
          Inl _ \<Rightarrow> Inl ErrInvalidDeliveryAck
        | Inr ack \<Rightarrow>
            if da_MessageID ack = '''' \<or> da_Code ack \<noteq> DeliveryAckDelivered
            then Inl ErrInvalidDeliveryAck else Inr ack)"

section \<open>Correctness of the codec\<close>

text \<open>What \<^const>\<open>Encode\<close> accepts, and the two halves of what it writes.\<close>

definition encodable :: "packet \<Rightarrow> bool" where
  "encodable p \<longleftrightarrow> (\<forall>f\<in>set (packet_fields p). length f \<le> max_uint16)
     \<and> length (pkt_Body p) \<le> max_uint32"

definition header_bytes :: "packet \<Rightarrow> bytes" where
  "header_bytes p =
     put_uint16 Magic @ [Version] @ put_uint16 (pkt_Flags p) @ put_uint32 (pkt_MsgID p)
       @ put_uint64 (pkt_Seq p) @ put_uint64 (pkt_Timestamp p)
       @ concat (map (\<lambda>f. put_uint16 (of_nat (length f))) (packet_fields p))
       @ put_uint32 (of_nat (length (pkt_Body p)))"

definition variable_bytes :: "packet \<Rightarrow> bytes" where
  "variable_bytes p = concat (map bytes_of (packet_fields p)) @ pkt_Body p"

lemma Encode_eq:
  "Encode (Some p) =
     (if encodable p then Inr (header_bytes p @ variable_bytes p, p\<lparr>pkt_Version := Version\<rparr>)
      else if \<exists>f\<in>set (packet_fields p). max_uint16 < length f then Inl ErrFieldTooLarge
      else Inl ErrBodyTooLarge)"
  by (auto simp: Encode_def encodable_def header_bytes_def variable_bytes_def Let_def not_le)

lemma Encode_Inr_iff:
  "Encode (Some p) = Inr (bs, q) \<longleftrightarrow>
     encodable p \<and> bs = header_bytes p @ variable_bytes p \<and> q = p\<lparr>pkt_Version := Version\<rparr>"
  by (auto simp: Encode_eq)

lemma length_header_bytes [simp]: "length (header_bytes p) = 41"
  by (simp add: header_bytes_def packet_fields_def)

lemma length_variable_bytes:
  "length (variable_bytes p) = sum_list (map length (packet_fields p)) + length (pkt_Body p)"
  by (simp add: variable_bytes_def length_concat comp_def)

lemma unat_len16: "n \<le> max_uint16 \<Longrightarrow> unat (of_nat n :: 16 word) = n"
  by (simp add: unat_of_nat take_bit_eq_mod)

lemma unat_len32: "n \<le> max_uint32 \<Longrightarrow> unat (of_nat n :: 32 word) = n"
  by (simp add: unat_of_nat take_bit_eq_mod)

lemma read_field_lens_6:
  "read_field_lens 6 = read_field_lens (Suc (Suc (Suc (Suc (Suc (Suc 0))))))"
  by (simp add: eval_nat_numeral)

lemma header_bytes_slices:
  "be_word (sub_slice 0 2 (header_bytes p)) = Magic"
  "header_bytes p ! 2 = Version"
  "be_word (sub_slice 3 5 (header_bytes p)) = pkt_Flags p"
  "be_word (sub_slice 5 9 (header_bytes p)) = pkt_MsgID p"
  "be_word (sub_slice 9 17 (header_bytes p)) = pkt_Seq p"
  "be_word (sub_slice 17 25 (header_bytes p)) = pkt_Timestamp p"
  "read_field_lens 6 25 (header_bytes p) = map (\<lambda>f. of_nat (length f)) (packet_fields p)"
  "be_word (sub_slice 37 41 (header_bytes p)) = (of_nat (length (pkt_Body p)) :: 32 word)"
  by (simp_all add: header_bytes_def packet_fields_def sub_slice_def nth_append
      read_field_lens_6)

lemma read_strings_concat:
  "\<forall>f\<in>set fs. length f \<le> max_uint16 \<Longrightarrow> c = length pre \<Longrightarrow>
   read_strings c (map (\<lambda>f. of_nat (length f)) fs) (pre @ concat (map bytes_of fs) @ body)
     = (fs, c + sum_list (map length fs))"
proof (induction fs arbitrary: c pre)
  case (Cons f fs)
  then have "read_strings (c + length f) (map (\<lambda>f. of_nat (length f)) fs)
      ((pre @ bytes_of f) @ concat (map bytes_of fs) @ body) = (fs, c + length f + sum_list (map length fs))"
    by (intro Cons.IH) auto
  with Cons.prems show ?case
    by (simp add: unat_len16 sub_slice_def)
qed simp

lemma read_full_append [simp]: "length xs = n \<Longrightarrow> read_full n (xs @ ys) = (xs, None, ys)"
  by (simp add: read_full_def)

lemma readPacket_header_variable:
  assumes "encodable p" "length (pkt_Body p) \<le> unat limit"
  shows "readPacket (header_bytes p @ variable_bytes p @ rest) limit =
    (Inr (p\<lparr>pkt_Version := Version\<rparr>, length (header_bytes p @ variable_bytes p)), rest)"
proof -
  have fields: "\<forall>f\<in>set (packet_fields p). length f \<le> max_uint16"
    and body: "length (pkt_Body p) \<le> max_uint32"
    using assms(1) by (auto simp: encodable_def)
  have lens: "sum_list (map (unat \<circ> (\<lambda>f. of_nat (length f) :: 16 word)) (packet_fields p))
      = sum_list (map length (packet_fields p))"
    using fields by (intro arg_cong[where f = sum_list] map_cong) (auto simp: unat_len16)
  have strs: "read_strings 0 (map (\<lambda>f. of_nat (length f)) (packet_fields p)) (variable_bytes p)
      = (packet_fields p, sum_list (map length (packet_fields p)))"
    using read_strings_concat[OF fields, of 0 "[]" "pkt_Body p"] by (simp add: variable_bytes_def)
  have lim: "\<not> limit < of_nat (length (pkt_Body p))"
    using assms(2) body by (simp add: word_less_nat_alt unat_len32)
  have tail: "sub_slice (sum_list (map length (packet_fields p)))
      (sum_list (map length (packet_fields p)) + length (pkt_Body p)) (variable_bytes p) = pkt_Body p"
    by (simp add: sub_slice_def variable_bytes_def length_concat comp_def)
  have empty: "pkt_Body p = []" if "\<not> 0 < (of_nat (length (pkt_Body p)) :: 32 word)"
    using that body unat_len32[OF body] by (auto simp: word_gt_0)
  have "p\<lparr>pkt_Version := Version\<rparr> = \<lparr>pkt_Version = Version, pkt_Flags = pkt_Flags p,
      pkt_MsgID = pkt_MsgID p, pkt_Seq = pkt_Seq p, pkt_Timestamp = pkt_Timestamp p,
      pkt_ClientID = packet_fields p ! 0, pkt_DeviceID = packet_fields p ! 1,
      pkt_SessionID = packet_fields p ! 2, pkt_MessageID = packet_fields p ! 3,
      pkt_TraceID = packet_fields p ! 4, pkt_Token = packet_fields p ! 5, pkt_Body = pkt_Body p\<rparr>"
    by (simp add: packet_fields_def)
  with empty show ?thesis
    by (auto simp: readPacket_def FixedHeaderSize_def header_bytes_slices Let_def lim lens strs tail
        length_variable_bytes unat_len32[OF body])
qed

text \<open>Conversely, everything the decoder accepts is an encoding.\<close>

lemma length_read_field_lens [simp]: "length (read_field_lens n offset fixed) = n"
  by (induction n offset fixed rule: read_field_lens.induct) auto

lemma concat_read_field_lens:
  "offset + 2 * n \<le> length fixed \<Longrightarrow>
   concat (map put_uint16 (read_field_lens n offset fixed)) = sub_slice offset (offset + 2 * n) fixed"
proof (induction n offset fixed rule: read_field_lens.induct)
  case (2 n offset fixed)
  then show ?case
    by (simp add: put_be_word sub_slice_append_sub_slice)
qed (simp add: sub_slice_def)

lemma read_strings_fields:
  assumes "c + sum_list (map unat ns) \<le> length var" "read_strings c ns var = (fs, c')"
  shows "map length fs = map unat ns" "c' = c + sum_list (map unat ns)"
    "concat (map bytes_of fs) = sub_slice c c' var"
  using assms
proof (induction ns arbitrary: c fs)
  case (Cons n ns)
  { case 1 then show ?case using Cons.IH(1) by (force simp: Let_def split: prod.splits) }
  { case 2 then show ?case using Cons.IH(2) by (force simp: Let_def split: prod.splits) }
  { case 3
    then obtain gs where gs: "fs = string_of (sub_slice c (c + unat n) var) # gs"
        "read_strings (c + unat n) ns var = (gs, c')"
      by (auto simp: Let_def split: prod.splits)
    with 3 Cons.IH(2,3)[of "c + unat n" gs] show ?case
      by (simp add: sub_slice_append_sub_slice) }
qed (simp_all add: sub_slice_def)

lemma read_full_None: "read_full n r = (xs, None, rest) \<longleftrightarrow> r = xs @ rest \<and> length xs = n"
  by (auto simp: read_full_def split: if_splits)

lemma header_bytes_fixed:
  assumes "length fixed = 41" "be_word (sub_slice 0 2 fixed) = Magic" "fixed ! 2 = Version"
    "pkt_Flags p = be_word (sub_slice 3 5 fixed)" "pkt_MsgID p = be_word (sub_slice 5 9 fixed)"
    "pkt_Seq p = be_word (sub_slice 9 17 fixed)" "pkt_Timestamp p = be_word (sub_slice 17 25 fixed)"
    "map (\<lambda>f. of_nat (length f)) (packet_fields p) = read_field_lens 6 25 fixed"
    "of_nat (length (pkt_Body p)) = (be_word (sub_slice 37 41 fixed) :: 32 word)"
  shows "header_bytes p = fixed"
proof -
  have "put_uint16 Magic = sub_slice 0 2 fixed"
    using put_be_word(1)[of "sub_slice 0 2 fixed"] assms(1,2) by simp
  moreover have "[Version] = sub_slice 2 3 fixed"
    using assms(1,3) by (simp add: sub_slice_def take_Suc hd_drop_conv_nth)
  moreover have "concat (map (\<lambda>f. put_uint16 (of_nat (length f))) (packet_fields p))
      = sub_slice 25 37 fixed"
    using concat_read_field_lens[of 25 6 fixed] assms(1) by (simp add: comp_def flip: assms(8))
  ultimately have "header_bytes p = sub_slice 0 41 fixed"
    using assms(1) by (simp add: header_bytes_def assms(4-7,9) put_be_word sub_slice_append_sub_slice)
  then show ?thesis
    using assms(1) by (simp add: sub_slice_def)
qed

lemma readPacket_Inr:
  assumes "readPacket reader limit = (Inr (p, n), rest)"
  shows "encodable p" "pkt_Version p = Version" "length (pkt_Body p) \<le> unat limit"
    "reader = header_bytes p @ variable_bytes p @ rest" "n = length (header_bytes p @ variable_bytes p)"
proof -
  obtain fixed var fs c where
      r: "reader = fixed @ var @ rest" and fixed: "length fixed = 41"
    and magic: "be_word (sub_slice 0 2 fixed) = Magic" and ver: "fixed ! 2 = Version"
    and lim: "\<not> limit < (be_word (sub_slice 37 41 fixed) :: 32 word)"
    and var: "length var = sum_list (map unat (read_field_lens 6 25 fixed))
        + unat (be_word (sub_slice 37 41 fixed) :: 32 word)"
    and strs: "read_strings 0 (read_field_lens 6 25 fixed) var = (fs, c)"
    and n: "n = 41 + length var"
    and p: "pkt_Version p = Version" "pkt_Flags p = be_word (sub_slice 3 5 fixed)"
        "pkt_MsgID p = be_word (sub_slice 5 9 fixed)" "pkt_Seq p = be_word (sub_slice 9 17 fixed)"
        "pkt_Timestamp p = be_word (sub_slice 17 25 fixed)"
        "packet_fields p = [fs ! 0, fs ! 1, fs ! 2, fs ! 3, fs ! 4, fs ! 5]"
        "pkt_Body p = (if 0 < (be_word (sub_slice 37 41 fixed) :: 32 word)
           then sub_slice c (c + unat (be_word (sub_slice 37 41 fixed) :: 32 word)) var else [])"
    using assms by (auto simp: readPacket_def FixedHeaderSize_def Let_def read_full_None
        packet_fields_def split: prod.splits option.splits if_splits)
  have fs: "map length fs = map unat (read_field_lens 6 25 fixed)"
      "c = sum_list (map unat (read_field_lens 6 25 fixed))"
      "concat (map bytes_of fs) = sub_slice 0 c var"
    using read_strings_fields[OF _ strs] var by (simp_all only: add_0 le_add1)
  have "length fs = 6"
    using arg_cong[OF fs(1), of length] by simp
  then have pf: "packet_fields p = fs"
    using p(6) by (auto simp: length_Suc_conv eval_nat_numeral)
  have body: "pkt_Body p = drop c var" "length (pkt_Body p) = unat (be_word (sub_slice 37 41 fixed) :: 32 word)"
    using p(7) var fs(2) by (auto simp: sub_slice_def word_gt_0 split: if_splits)
  show "pkt_Version p = Version" by (rule p(1))
  show "length (pkt_Body p) \<le> unat limit"
    using lim by (simp add: body(2) not_less word_le_nat_alt)
  have *: "\<forall>f\<in>set fs. length f \<le> max_uint16"
  proof
    fix f assume "f \<in> set fs"
    then have "length f \<in> set (map unat (read_field_lens 6 25 fixed))"
      by (simp flip: fs(1))
    then obtain w :: "16 word" where "length f = unat w" by auto
    then show "length f \<le> max_uint16"
      using unsigned_less[of w, where ?'a = nat] by simp
  qed
  then show "encodable p"
    using unsigned_less[of "be_word (sub_slice 37 41 fixed) :: 32 word", where ?'a = nat]
    by (simp add: encodable_def pf body(2))
  have "map (\<lambda>f. of_nat (length f)) (packet_fields p) = read_field_lens 6 25 fixed"
    using arg_cong[OF fs(1), of "map (of_nat :: nat \<Rightarrow> 16 word)"] by (simp add: pf comp_def)
  then have hdr: "header_bytes p = fixed"
    using fixed magic ver p(2-5) body(2) by (intro header_bytes_fixed) simp_all
  have vb: "variable_bytes p = var"
    using fs(2,3) var by (simp add: variable_bytes_def pf body(1) sub_slice_def)
  show "reader = header_bytes p @ variable_bytes p @ rest" by (simp add: r hdr vb)
  show "n = length (header_bytes p @ variable_bytes p)" by (simp add: n hdr vb fixed)
qed

lemma DecodeReader_header_variable:
  "encodable p \<Longrightarrow> length (pkt_Body p) \<le> unat limit \<Longrightarrow>
   DecodeReader (header_bytes p @ variable_bytes p @ rest) limit = (Inr (p\<lparr>pkt_Version := Version\<rparr>), rest)"
  by (simp add: DecodeReader_def readPacket_header_variable)

lemma DecodeWithMaxBodySize_header_variable:
  "encodable p \<Longrightarrow> length (pkt_Body p) \<le> unat limit \<Longrightarrow>
   DecodeWithMaxBodySize (header_bytes p @ variable_bytes p) limit = Inr (p\<lparr>pkt_Version := Version\<rparr>)"
  using readPacket_header_variable[of p limit "[]"]
  by (simp add: DecodeWithMaxBodySize_def FixedHeaderSize_def)

lemma DecodeWithMaxBodySize_Inr_iff:
  "DecodeWithMaxBodySize data limit = Inr p \<longleftrightarrow>
     encodable p \<and> pkt_Version p = Version \<and> length (pkt_Body p) \<le> unat limit
     \<and> data = header_bytes p @ variable_bytes p"
proof
  assume "DecodeWithMaxBodySize data limit = Inr p"
  then obtain rest where *: "readPacket data limit = (Inr (p, length data), rest)"
    by (auto simp: DecodeWithMaxBodySize_def split: if_splits prod.splits sum.splits)
  then have "rest = []"
    using readPacket_Inr(4,5)[OF *] by simp
  with * show "encodable p \<and> pkt_Version p = Version \<and> length (pkt_Body p) \<le> unat limit
     \<and> data = header_bytes p @ variable_bytes p"
    using readPacket_Inr[OF *] by simp
next
  assume "encodable p \<and> pkt_Version p = Version \<and> length (pkt_Body p) \<le> unat limit
     \<and> data = header_bytes p @ variable_bytes p"
  moreover from this have "p\<lparr>pkt_Version := Version\<rparr> = p"
    by (cases p) simp
  ultimately show "DecodeWithMaxBodySize data limit = Inr p"
    using DecodeWithMaxBodySize_header_variable[of p limit] by simp
qed

text \<open>The encoding is a prefix code: what the decoder reads fixes where it stops.\<close>

lemma header_variable_prefix_free:
  assumes "header_bytes p @ variable_bytes p @ rest = header_bytes q @ variable_bytes q @ rest'"
    and "encodable p" "encodable q" "pkt_Version p = Version" "pkt_Version q = Version"
  shows "p = q \<and> rest = rest'"
proof -
  have lim: "length (pkt_Body x) \<le> unat (0xFFFFFFFF :: 32 word)" if "encodable x" for x
    using that by (simp add: encodable_def)
  have same: "x\<lparr>pkt_Version := Version\<rparr> = x" if "pkt_Version x = Version" for x :: packet
    using that by (cases x) simp
  have "(Inr p, rest) = (Inr q :: protocol_err + packet, rest')"
    using DecodeReader_header_variable[OF assms(2) lim[OF assms(2)], of rest]
      DecodeReader_header_variable[OF assms(3) lim[OF assms(3)], of rest']
    unfolding assms(1) same[OF assms(4)] same[OF assms(5)] by (metis (no_types))
  then show ?thesis
    by simp
qed

lemma Decode_prefix_fails:
  assumes "encodable p" "strict_prefix data (header_bytes p @ variable_bytes p)"
  shows "\<exists>e. DecodeWithMaxBodySize data limit = Inl e"
proof (cases "DecodeWithMaxBodySize data limit")
  case (Inr q)
  define p' where "p' = p\<lparr>pkt_Version := Version\<rparr>"
  have p': "header_bytes p' = header_bytes p" "variable_bytes p' = variable_bytes p" "encodable p'"
      "pkt_Version p' = Version"
    using assms(1) by (simp_all add: p'_def header_bytes_def variable_bytes_def packet_fields_def encodable_def)
  from Inr have q: "encodable q" "pkt_Version q = Version" "data = header_bytes q @ variable_bytes q"
    by (simp_all add: DecodeWithMaxBodySize_Inr_iff)
  obtain rest where "rest \<noteq> []" "header_bytes p @ variable_bytes p @ [] = header_bytes q @ variable_bytes q @ rest"
    using assms(2) q(3) by (auto simp: strict_prefix_def prefix_def)
  then show ?thesis
    using header_variable_prefix_free[of p' "[]" q rest] p' q by simp
qed simp

section \<open>Correctness of the acknowledgements\<close>

lemma DecodeAck_NewAckPacket:
  assumes "\<And>a b. marshal a = Inr b \<Longrightarrow> unmarshal b = Inr a"
    and "NewAckPacket marshal now_ms (Some origin) code reason = Inr p" "code \<noteq> ''''"
  shows "DecodeAck unmarshal (Some p) = Inr \<lparr>ack_Code = code, ack_MsgID = pkt_MsgID origin,
      ack_MessageID = pkt_MessageID origin, ack_Reason = reason\<rparr>"
  using assms by (auto simp: NewAckPacket_def DecodeAck_def NewPacket_def split: sum.splits)

lemma DecodeDeliveryAck_Inr:
  "DecodeDeliveryAck unmarshal (Some p) = Inr a \<longleftrightarrow>
     pkt_MsgID p = MsgIDDownlinkAck \<and> unmarshal (pkt_Body p) = Inr a
     \<and> da_MessageID a \<noteq> '''' \<and> da_Code a = DeliveryAckDelivered"
  by (auto simp: DecodeDeliveryAck_def split: sum.splits)

lemma EncodeDeliveryAck_Inr:
  "EncodeDeliveryAck marshal a = Inr b \<longleftrightarrow>
     marshal a = Inr b \<and> da_MessageID a \<noteq> '''' \<and> da_Code a = DeliveryAckDelivered"
  by (auto simp: EncodeDeliveryAck_def split: sum.splits)

section \<open>Properties\<close>

text \<open>
  C11. Decoding inverts encoding, on a whole buffer and in a stream.  Every packet that \<^const>\<open>Encode\<close>
  accepts and whose body fits the decoder's limit is returned unchanged (with the version that
  \<^const>\<open>Encode\<close> stamped into it), and the streaming decoder stops exactly at its end.
\<close>

theorem Encode_Decode_roundtrip:
  assumes "Encode (Some p) = Inr (bs, q)" and "length (pkt_Body p) \<le> unat limit"
  shows "DecodeWithMaxBodySize bs limit = Inr q
    \<and> DecodeReader (bs @ rest) limit = (Inr q, rest)"
  using assms by (auto simp: Encode_Inr_iff DecodeWithMaxBodySize_header_variable
      DecodeReader_header_variable)

definition sample_packet :: packet where
  "sample_packet = (NewPacket 7 [1, 2, 3])\<lparr>pkt_ClientID := ''c1'', pkt_DeviceID := ''d'',
     pkt_MessageID := ''m-9'', pkt_Seq := 5, pkt_Flags := FlagAckRequired\<rparr>"

lemma encodable_sample_packet [simp]: "encodable sample_packet"
  by (simp add: sample_packet_def encodable_def packet_fields_def NewPacket_def)

theorem Encode_Decode_roundtrip_witness:
  "DecodeReader (fst (projr (Encode (Some sample_packet))) @ [9]) 16 = (Inr sample_packet, [9])"
proof -
  have "Encode (Some sample_packet) =
      Inr (header_bytes sample_packet @ variable_bytes sample_packet, sample_packet)"
    by (simp add: Encode_eq) (simp add: sample_packet_def NewPacket_def)
  from Encode_Decode_roundtrip[OF this, of 16 "[9]"] this show ?thesis
    by (simp add: sample_packet_def NewPacket_def)
qed

text \<open>
  C25. The wire format is canonical: a buffer that the decoder accepts is the one encoding of the
  packet it returns, and that packet respects the body limit.
\<close>

theorem Decode_canonical:
  assumes "DecodeWithMaxBodySize data limit = Inr p"
  shows "Encode (Some p) = Inr (data, p) \<and> length (pkt_Body p) \<le> unat limit"
  using assms by (cases p) (auto simp: DecodeWithMaxBodySize_Inr_iff Encode_Inr_iff)

theorem Decode_canonical_witness:
  "Encode (Some sample_packet) = Inr (header_bytes sample_packet @ variable_bytes sample_packet, sample_packet)"
proof -
  have "DecodeWithMaxBodySize (header_bytes sample_packet @ variable_bytes sample_packet) 16 = Inr sample_packet"
    by (simp add: DecodeWithMaxBodySize_Inr_iff) (simp add: sample_packet_def NewPacket_def)
  from Decode_canonical[OF this] show ?thesis
    by simp
qed

text \<open>
  C26. A truncated packet is never taken for a packet: every strict prefix of an encoding is rejected
  with an error, whatever the limit.
\<close>

theorem Decode_truncated:
  assumes "Encode (Some p) = Inr (bs, q)" and "strict_prefix data bs"
  shows "\<exists>e. DecodeWithMaxBodySize data limit = Inl e"
  using assms Decode_prefix_fails by (auto simp: Encode_Inr_iff)

theorem Decode_truncated_witness:
  "\<exists>e. DecodeWithMaxBodySize (take 44 (fst (projr (Encode (Some sample_packet))))) 16 = Inl e"
proof -
  have enc: "Encode (Some sample_packet) =
      Inr (header_bytes sample_packet @ variable_bytes sample_packet, sample_packet)"
    by (simp add: Encode_eq) (simp add: sample_packet_def NewPacket_def)
  have len: "length (header_bytes sample_packet @ variable_bytes sample_packet) = 50"
    by (simp add: length_variable_bytes) (simp add: sample_packet_def NewPacket_def packet_fields_def)
  have "strict_prefix (take 44 bs) bs" if "length bs = 50" for bs :: bytes
    using that by (auto simp: strict_prefix_def take_is_prefix dest: arg_cong[of _ _ length])
  from Decode_truncated[OF enc this[OF len], of 16] enc show ?thesis
    by simp
qed

end
