(* ===== verification/Frame.thy ===== *)
theory Frame
  imports Protocol
begin

text \<open>
  The outer transport frame of \<^verbatim>\<open>pkg/sdk/client/frame.go\<close> (message id, payload length, payload) that
  carries one encoded packet, and the duplicate filter of \<^verbatim>\<open>pkg/sdk/client/dedup.go\<close>.  A writer is
  a function from its state and the data offered to the new state, the number of bytes it reports
  and its error.
\<close>

section \<open>Frames\<close>

definition outerFrameHeaderSize :: nat where "outerFrameHeaderSize = 8"
definition DefaultMaxFramePayloadSize :: "32 word" where "DefaultMaxFramePayloadSize = 8388608"

record wireFrame =
  wf_msgID :: "32 word"
  wf_payload :: bytes

datatype frame_err =
    ErrFrameTooLarge | ErrFrameTooShort | ErrFrameLengthMismatch | ErrFrameMsgIDMismatch
  | ErrReaderEOF | ErrProtocol protocol_err

definition normalizeFrameLimit :: "32 word \<Rightarrow> 32 word" where
  "normalizeFrameLimit limit = (if limit = 0 then DefaultMaxFramePayloadSize else limit)"

definition encodeFrame :: "32 word \<Rightarrow> bytes \<Rightarrow> frame_err + bytes" where
  "encodeFrame msgID payload =
     (if max_uint32 < length payload then Inl ErrFrameTooLarge
      else Inr (put_uint32 msgID @ put_uint32 (of_nat (length payload)) @ payload))"

definition encodePacketFrame :: "packet option \<Rightarrow> 32 word \<Rightarrow> frame_err + bytes" where
  "encodePacketFrame packet maxPayloadSize =
     (case Encode packet of
        Inl e \<Rightarrow> Inl (ErrProtocol e)
      | Inr (payload, p) \<Rightarrow>
          if unat (normalizeFrameLimit maxPayloadSize) < length payload then Inl ErrFrameTooLarge
          else encodeFrame (pkt_MsgID p) payload)"

definition readFrame :: "bytes \<Rightarrow> 32 word \<Rightarrow> (frame_err + wireFrame) \<times> bytes" where
  "readFrame reader maxPayloadSize =
     (case read_full outerFrameHeaderSize reader of
        (read, Some err, rest) \<Rightarrow>
          (Inl (if err = EOF \<and> length read = 0 then ErrReaderEOF else ErrFrameTooShort), rest)
      | (header, None, rest) \<Rightarrow>
          let msgID = be_word (sub_slice 0 4 header) :: 32 word;
              payloadSize = be_word (sub_slice 4 8 header) :: 32 word;
              limit = normalizeFrameLimit maxPayloadSize
          in if limit < payloadSize then (Inl ErrFrameTooLarge, rest)
          else case read_full (unat payloadSize) rest of
            (_, Some _, rest) \<Rightarrow> (Inl ErrFrameLengthMismatch, rest)
          | (payload, None, rest) \<Rightarrow> (Inr \<lparr>wf_msgID = msgID, wf_payload = payload\<rparr>, rest))"

definition decodePacketFrame :: "wireFrame \<Rightarrow> 32 word \<Rightarrow> frame_err + packet" where
  "decodePacketFrame frame maxBodySize =
     (let maxBodySize = (if maxBodySize = 0 then DefaultMaxBodySize else maxBodySize)
      in case DecodeWithMaxBodySize (wf_payload frame) maxBodySize of
        Inl e \<Rightarrow> Inl (ErrProtocol e)
      | Inr packet \<Rightarrow>
          if wf_msgID frame \<noteq> pkt_MsgID packet then Inl ErrFrameMsgIDMismatch else Inr packet)"

definition readPacketFrame :: "bytes \<Rightarrow> 32 word \<Rightarrow> 32 word \<Rightarrow> (frame_err + packet) \<times> bytes" where
  "readPacketFrame reader maxPayloadSize maxBodySize =
     (case readFrame reader maxPayloadSize of
        (Inl e, rest) \<Rightarrow> (Inl e, rest)
      | (Inr frame, rest) \<Rightarrow> (decodePacketFrame frame maxBodySize, rest))"

definition decodeExactFrame :: "bytes \<Rightarrow> 32 word \<Rightarrow> frame_err + wireFrame" where
  "decodeExactFrame data maxPayloadSize =
     (case readFrame data maxPayloadSize of
        (Inl e, _) \<Rightarrow> Inl e
      | (Inr frame, rest) \<Rightarrow> if length rest \<noteq> 0 then Inl ErrFrameLengthMismatch else Inr frame)"

datatype 'e write_err = WriteError 'e | ErrShortWrite

function writeAll ::
  "('w \<Rightarrow> bytes \<Rightarrow> 'w \<times> int \<times> 'e option) \<Rightarrow> 'w \<Rightarrow> bytes \<Rightarrow> 'w \<times> 'e write_err option" where
  "writeAll wr w data =
     (if data = [] then (w, None)
      else case wr w data of (w, written, err) \<Rightarrow>
        (case err of
           Some e \<Rightarrow> (w, Some (WriteError e))
         | None \<Rightarrow>
             if written \<le> 0 \<or> int (length data) < written then (w, Some ErrShortWrite)
             else writeAll wr w (drop (nat written) data)))"
  by pat_completeness auto
termination
  by (relation "measure (\<lambda>(wr, w, data). length data)") auto

declare writeAll.simps [simp del]

definition writePacketFrame ::
  "('w \<Rightarrow> bytes \<Rightarrow> 'w \<times> int \<times> 'e option) \<Rightarrow> 'w \<Rightarrow> packet option \<Rightarrow> 32 word
     \<Rightarrow> 'w \<times> (frame_err + 'e write_err) option" where
  "writePacketFrame wr w packet maxPayloadSize =
     (case encodePacketFrame packet maxPayloadSize of
        Inl e \<Rightarrow> (w, Some (Inl e))
      | Inr data \<Rightarrow> (case writeAll wr w data of (w, err) \<Rightarrow> (w, map_option Inr err)))"

section \<open>The duplicate filter\<close>

text \<open>
  The map of \<^verbatim>\<open>messageDeduper\<close> points into its linked list, one element for each id; the list of
  ids, oldest first, is the whole state.
\<close>

record messageDeduper =
  dd_capacity :: int
  dd_order :: "string list"

definition newMessageDeduper :: "int \<Rightarrow> messageDeduper" where
  "newMessageDeduper capacity = \<lparr>dd_capacity = capacity, dd_order = []\<rparr>"

definition move_to_back :: "'a \<Rightarrow> 'a list \<Rightarrow> 'a list" where
  "move_to_back x xs = remove1 x xs @ [x]"

definition contains :: "messageDeduper \<Rightarrow> string \<Rightarrow> bool \<times> messageDeduper" where
  "contains d messageID =
     (if messageID = '''' then (False, d)
      else if messageID \<notin> set (dd_order d) then (False, d)
      else (True, d\<lparr>dd_order := move_to_back messageID (dd_order d)\<rparr>))"

definition mark :: "messageDeduper \<Rightarrow> string \<Rightarrow> messageDeduper" where
  "mark d messageID =
     (if messageID = '''' then d
      else if messageID \<in> set (dd_order d) then d\<lparr>dd_order := move_to_back messageID (dd_order d)\<rparr>
      else let order = dd_order d @ [messageID] in
        if int (length order) \<le> dd_capacity d then d\<lparr>dd_order := order\<rparr>
        else d\<lparr>dd_order := tl order\<rparr>)"

section \<open>Correctness of frames\<close>

lemma encodeFrame_readFrame:
  assumes "encodeFrame msgID payload = Inr data" "length payload \<le> unat (normalizeFrameLimit limit)"
  shows "readFrame (data @ rest) limit = (Inr \<lparr>wf_msgID = msgID, wf_payload = payload\<rparr>, rest)"
proof -
  have len: "length payload \<le> max_uint32" and
      data: "data @ rest = (put_uint32 msgID @ put_uint32 (of_nat (length payload))) @ payload @ rest"
    using assms(1) by (auto simp: encodeFrame_def split: if_splits)
  have "\<not> normalizeFrameLimit limit < of_nat (length payload)"
    using assms(2) len by (simp add: word_less_nat_alt unat_len32)
  then show ?thesis
    unfolding data readFrame_def outerFrameHeaderSize_def
    by (simp add: sub_slice_def unat_len32[OF len] Let_def del: append_assoc)
qed

lemma encodePacketFrame_Inr:
  "encodePacketFrame (Some p) limit = Inr data \<longleftrightarrow>
     encodable p \<and> length (header_bytes p @ variable_bytes p) \<le> unat (normalizeFrameLimit limit)
     \<and> encodeFrame (pkt_MsgID p) (header_bytes p @ variable_bytes p) = Inr data"
  by (auto simp: encodePacketFrame_def Encode_eq)

lemma readPacketFrame_append:
  assumes "encodePacketFrame (Some p) limit = Inr data"
    and "length (pkt_Body p) \<le> unat (if maxBody = 0 then DefaultMaxBodySize else maxBody)"
  shows "readPacketFrame (data @ rest) limit maxBody = (Inr (p\<lparr>pkt_Version := Version\<rparr>), rest)"
  using assms
  by (auto simp: encodePacketFrame_Inr readPacketFrame_def decodePacketFrame_def encodeFrame_readFrame
      DecodeWithMaxBodySize_header_variable)

lemma writeAll_writes:
  assumes "\<And>w d w' n. wr w d = (w', n, None) \<Longrightarrow> 0 \<le> n \<Longrightarrow> n \<le> int (length d) \<Longrightarrow>
      out w' = out w @ take (nat n) d"
    and "writeAll wr w data = (w', None)"
  shows "out w' = out w @ data"
  using assms
proof (induction wr w data rule: writeAll.induct)
  case (1 wr w data)
  show ?case
  proof (cases "data = []")
    case False
    with "1.prems"(2) obtain w1 n where w1: "wr w data = (w1, n, None)" "0 < n" "n \<le> int (length data)"
        "writeAll wr w1 (drop (nat n) data) = (w', None)"
      by (subst (asm) writeAll.simps) (auto split: prod.splits option.splits if_splits)
    then have "out w' = out w1 @ drop (nat n) data"
      using False "1.IH" "1.prems"(1) by fastforce
    with w1 show ?thesis
      using "1.prems"(1)[OF w1(1)] by simp
  qed (use "1.prems" in \<open>simp add: writeAll.simps\<close>)
qed

section \<open>Correctness of the duplicate filter\<close>

definition dedup_inv :: "messageDeduper \<Rightarrow> bool" where
  "dedup_inv d \<longleftrightarrow> distinct (dd_order d) \<and> '''' \<notin> set (dd_order d)
     \<and> int (length (dd_order d)) \<le> max 0 (dd_capacity d)"

lemma set_move_to_back [simp]: "x \<in> set xs \<Longrightarrow> set (move_to_back x xs) = set xs"
  by (induction xs) (auto simp: move_to_back_def)

lemma length_move_to_back [simp]: "x \<in> set xs \<Longrightarrow> length (move_to_back x xs) = length xs"
  by (induction xs) (auto simp: move_to_back_def)

lemma distinct_move_to_back [simp]: "distinct xs \<Longrightarrow> distinct (move_to_back x xs)"
  by (simp add: move_to_back_def)

lemma dedup_inv_new [inv_intros]: "dedup_inv (newMessageDeduper capacity)"
  by (simp add: dedup_inv_def newMessageDeduper_def)

lemma dedup_inv_contains [inv_intros]: "dedup_inv d \<Longrightarrow> dedup_inv (snd (contains d m))"
  by (auto simp: dedup_inv_def contains_def)

lemma dedup_inv_mark [inv_intros]: "dedup_inv d \<Longrightarrow> dedup_inv (mark d m)"
  by (cases "dd_order d") (auto simp: dedup_inv_def mark_def Let_def)

lemma mark_contains:
  "0 < dd_capacity d \<Longrightarrow> m \<noteq> '''' \<Longrightarrow> dedup_inv d \<Longrightarrow> fst (contains (mark d m) m)"
  by (cases "dd_order d") (auto simp: contains_def mark_def dedup_inv_def Let_def)

text \<open>
  The elements behind an id are the ids used since: they are what bounds how long it is remembered.
\<close>

datatype dedup_op = Contains string | Mark string

fun dedup_step :: "dedup_op \<Rightarrow> messageDeduper \<Rightarrow> messageDeduper" where
  "dedup_step (Contains m) d = snd (contains d m)"
| "dedup_step (Mark m) d = mark d m"

fun op_id :: "dedup_op \<Rightarrow> string" where
  "op_id (Contains m) = m"
| "op_id (Mark m) = m"

definition behind :: "'a \<Rightarrow> 'a list \<Rightarrow> 'a set" where
  "behind m xs = set (tl (dropWhile (\<lambda>x. x \<noteq> m) xs))"

definition remembers :: "string \<Rightarrow> string set \<Rightarrow> messageDeduper \<Rightarrow> bool" where
  "remembers m used d \<longleftrightarrow> dedup_inv d \<and> m \<in> set (dd_order d) \<and> behind m (dd_order d) \<subseteq> used"

lemma dropWhile_append_in: "m \<in> set xs \<Longrightarrow>
  dropWhile (\<lambda>x. x \<noteq> m) (xs @ ys) = dropWhile (\<lambda>x. x \<noteq> m) xs @ ys"
  by (rule dropWhile_append1) auto

lemma dropWhile_in: "m \<in> set xs \<Longrightarrow> dropWhile (\<lambda>x. x \<noteq> m) xs \<noteq> []"
  by (auto simp: dropWhile_eq_Nil_conv)

lemma behind_append: "m \<in> set xs \<Longrightarrow> behind m (xs @ ys) = behind m xs \<union> set ys"
  using dropWhile_in[of m xs] by (auto simp: behind_def dropWhile_append_in)

lemma behind_remove1: "x \<noteq> m \<Longrightarrow> behind m (remove1 x xs) \<subseteq> behind m xs"
  by (induction xs) (auto simp: behind_def dest: subsetD[OF set_remove1_subset])

lemma behind_last: "m \<notin> set xs \<Longrightarrow> behind m (xs @ [m]) = {}"
  by (induction xs) (auto simp: behind_def)

lemma behind_move_to_back:
  "m \<in> set xs \<Longrightarrow> distinct xs \<Longrightarrow> behind m (move_to_back x xs) \<subseteq> insert x (behind m xs)"
proof (cases "x = m")
  case True
  assume "m \<in> set xs" "distinct xs"
  with True show ?thesis
    by (simp add: move_to_back_def behind_last)
next
  case False
  assume "m \<in> set xs"
  with False behind_remove1[OF False, of xs] show ?thesis
    by (auto simp: move_to_back_def behind_append in_set_remove1)
qed

lemma behind_tl: "m \<in> set (tl xs) \<Longrightarrow> distinct xs \<Longrightarrow> behind m (tl xs) = behind m xs"
  by (cases xs) (auto simp: behind_def)

lemma behind_hd: "distinct (m # xs) \<Longrightarrow> behind m (m # xs) = set xs"
  by (simp add: behind_def)

lemma remembers_step:
  assumes "remembers m used d" "card (insert (op_id oper) used) < nat (dd_capacity d)" "finite used"
  shows "remembers m (insert (op_id oper) used) (dedup_step oper d)"
proof (cases oper)
  case (Contains x)
  then show ?thesis
    using assms(1) dedup_inv_contains[of d x] behind_move_to_back[of m "dd_order d" x]
    by (auto simp: remembers_def contains_def dedup_inv_def)
next
  case (Mark x)
  have inv: "dedup_inv (mark d x)" and m: "m \<in> set (dd_order d)" "behind m (dd_order d) \<subseteq> used"
      and dist: "distinct (dd_order d)"
    using assms(1) dedup_inv_mark by (auto simp: remembers_def dedup_inv_def)
  consider (old) "x = '''' \<or> x \<in> set (dd_order d)"
    | (room) "x \<noteq> ''''" "x \<notin> set (dd_order d)" "int (length (dd_order d @ [x])) \<le> dd_capacity d"
    | (evict) "x \<noteq> ''''" "x \<notin> set (dd_order d)" "dd_capacity d < int (length (dd_order d @ [x]))"
    by linarith
  then show ?thesis
  proof cases
    case old
    then show ?thesis
      using Mark inv m dist behind_move_to_back[of m "dd_order d" x] by (auto simp: remembers_def mark_def)
  next
    case room
    then show ?thesis
      using Mark inv m by (auto simp: remembers_def mark_def behind_append)
  next
    case evict
    have "hd (dd_order d) \<noteq> m"
    proof
      assume "hd (dd_order d) = m"
      with m(1) obtain ys where ys: "dd_order d = m # ys"
        by (cases "dd_order d") auto
      then have "card (insert x (set ys)) \<le> card (insert x used)"
        using m(2) dist assms(3) by (intro card_mono) (auto simp: behind_hd)
      moreover have "card (insert x (set ys)) = Suc (length ys)"
        using ys evict(2) dist by (simp add: distinct_card)
      ultimately show False
        using assms(2) Mark evict(3) ys by simp
    qed
    with m(1) obtain h ys where ys: "dd_order d = h # ys" "m \<in> set ys"
      by (cases "dd_order d") auto
    then show ?thesis
      using Mark inv m evict dist behind_tl[of m "h # ys"]
      by (auto simp: remembers_def mark_def behind_append)
  qed
qed

lemma dd_capacity_step [simp]: "dd_capacity (dedup_step oper d) = dd_capacity d"
  by (cases oper) (auto simp: contains_def mark_def Let_def)

lemma remembers_run:
  assumes "remembers m used d" "finite used" "card (used \<union> op_id ` set opers) < nat (dd_capacity d)"
  shows "remembers m (used \<union> op_id ` set opers) (fold dedup_step opers d)"
  using assms
proof (induction opers arbitrary: used d)
  case (Cons oper opers)
  have "card (insert (op_id oper) used) < nat (dd_capacity d)"
    by (rule le_less_trans[OF card_mono Cons.prems(3)]) (use Cons.prems(2) in auto)
  then have "remembers m (insert (op_id oper) used) (dedup_step oper d)"
    using Cons.prems(1,2) by (intro remembers_step)
  from Cons.IH[OF this] Cons.prems(2,3) show ?case
    by simp
qed simp

lemma remembers_mark:
  assumes "dedup_inv d" "m \<noteq> ''''" "0 < dd_capacity d"
  shows "remembers m {} (mark d m)"
proof (cases "m \<in> set (dd_order d)")
  case True
  then show ?thesis
    using assms dedup_inv_mark[OF assms(1), of m]
    by (auto simp: remembers_def mark_def behind_last move_to_back_def dedup_inv_def)
next
  case False
  then show ?thesis
    using assms dedup_inv_mark[OF assms(1), of m]
    by (cases "dd_order d")
      (auto simp: remembers_def mark_def behind_last[of m "_ # _", simplified] behind_last[of m "[]", simplified]
        behind_last dedup_inv_def Let_def)
qed

section \<open>Properties\<close>

text \<open>A reader that takes a fixed number of frames, as the receive loop does one at a time.\<close>

fun read_stream :: "nat \<Rightarrow> bytes \<Rightarrow> 32 word \<Rightarrow> 32 word \<Rightarrow> (frame_err + packet) list \<times> bytes" where
  "read_stream 0 r limit maxBody = ([], r)"
| "read_stream (Suc n) r limit maxBody =
     (case readPacketFrame r limit maxBody of (x, r) \<Rightarrow>
        (case read_stream n r limit maxBody of (xs, r) \<Rightarrow> (x # xs, r)))"

text \<open>
  C27. A stream of frames is read back as the packets that were written: reading frame after frame
  returns every packet in order and leaves the reader at the first byte that follows.
\<close>

theorem frame_stream_roundtrip:
  assumes "list_all2 (\<lambda>p data. encodePacketFrame (Some p) limit = Inr data
      \<and> length (pkt_Body p) \<le> unat (if maxBody = 0 then DefaultMaxBodySize else maxBody)) ps frames"
  shows "read_stream (length ps) (concat frames @ rest) limit maxBody
    = (map (\<lambda>p. Inr (p\<lparr>pkt_Version := Version\<rparr>)) ps, rest)"
  using assms by (induction rule: list_all2_induct) (auto simp: readPacketFrame_append)

theorem frame_stream_roundtrip_witness:
  "read_stream (Suc (Suc 0)) (concat [projr (encodePacketFrame (Some sample_packet) 0),
       projr (encodePacketFrame (Some sample_packet) 0)] @ [1]) 0 0
     = ([Inr sample_packet, Inr sample_packet], [1])"
proof -
  have len: "length (variable_bytes sample_packet) = 9"
    by (simp add: length_variable_bytes) (simp add: sample_packet_def NewPacket_def packet_fields_def)
  obtain data where data: "encodePacketFrame (Some sample_packet) 0 = Inr data"
    using encodable_sample_packet
    by (auto simp: encodePacketFrame_Inr encodeFrame_def normalizeFrameLimit_def
        DefaultMaxFramePayloadSize_def len)
  have "sample_packet\<lparr>pkt_Version := Version\<rparr> = sample_packet" "length (pkt_Body sample_packet) = 3"
    by (simp_all add: sample_packet_def NewPacket_def)
  then show ?thesis
    using frame_stream_roundtrip[of 0 0 "[sample_packet, sample_packet]" "[data, data]" "[1]"] data
    by (simp add: DefaultMaxBodySize_def)
qed



end
