(* ===== verification/Session.thy ===== *)
theory Session
  imports Prelude
begin

text \<open>
  The session manager of \<^verbatim>\<open>internal/session/manager.go\<close>: one session for each connection, indexed
  by connection, by session id and by client and device.  The maps are association lists, since
  \<^verbatim>\<open>Snapshot\<close> and \<^verbatim>\<open>ListByClientID\<close> iterate over them.  The locale \<^verbatim>\<open>session_directory\<close> is what
  the rest of the gateway relies on; the manager is an instance of it.
\<close>

section \<open>State and operations\<close>

record session =
  ss_SessionID :: string
  ss_ConnID :: "64 word"
  ss_ClientID :: string
  ss_DeviceID :: string
  ss_TokenID :: string
  ss_GatewayNode :: string
  ss_ConnectedAt :: time
  ss_LastSeenAt :: time

record bind_input =
  bi_SessionID :: string
  bi_ConnID :: "64 word"
  bi_ClientID :: string
  bi_DeviceID :: string
  bi_TokenID :: string
  bi_GatewayNode :: string
  bi_Now :: time

record bind_result =
  br_Session :: session
  br_Replaced :: "session option"
  br_Created :: bool

datatype session_err = ErrInvalidConnID | ErrEmptyClientID | ErrEmptyDeviceID | ErrSessionNotFound

record manager =
  byConnID :: "(64 word, session) gomap"
  connIDBySessionID :: "(string, 64 word) gomap"
  connIDByClientPair :: "(string, (string, 64 word) gomap) gomap"

definition NewManager :: manager where
  "NewManager = \<lparr>byConnID = [], connIDBySessionID = [], connIDByClientPair = []\<rparr>"

definition removeConnLocked :: "manager \<Rightarrow> 64 word \<Rightarrow> session option \<times> manager" where
  "removeConnLocked m connID = (case map_of (byConnID m) connID of
     None \<Rightarrow> (None, m)
   | Some found \<Rightarrow>
       let m = m\<lparr>byConnID := del connID (byConnID m),
                 connIDBySessionID := del (ss_SessionID found) (connIDBySessionID m)\<rparr>;
           m = (case map_of (connIDByClientPair m) (ss_ClientID found) of
                  None \<Rightarrow> m
                | Some deviceIndex \<Rightarrow>
                    let deviceIndex = del (ss_DeviceID found) deviceIndex in
                    if length deviceIndex = 0
                    then m\<lparr>connIDByClientPair := del (ss_ClientID found) (connIDByClientPair m)\<rparr>
                    else m\<lparr>connIDByClientPair :=
                           put (ss_ClientID found) deviceIndex (connIDByClientPair m)\<rparr>)
       in (Some found, m))"

text \<open>
  The second half of \<^verbatim>\<open>Bind\<close>: the connection does not hold this client and device yet.
\<close>

definition bind_new ::
  "time \<Rightarrow> string \<Rightarrow> manager \<Rightarrow> bind_input \<Rightarrow> (session_err + bind_result) \<times> manager" where
  "bind_new now new_id m i =
    (let m = snd (removeConnLocked m (bi_ConnID i));
         (replaced, m) = (case map_of (connIDByClientPair m) (bi_ClientID i) of
            None \<Rightarrow> (None, m)
          | Some deviceIndex \<Rightarrow> (case map_of deviceIndex (bi_DeviceID i) of
              None \<Rightarrow> (None, m)
            | Some oldConnID \<Rightarrow>
                if oldConnID \<noteq> bi_ConnID i then removeConnLocked m oldConnID else (None, m)));
         sessionID = (if bi_SessionID i = '''' then new_id else bi_SessionID i);
         session = \<lparr>ss_SessionID = sessionID, ss_ConnID = bi_ConnID i, ss_ClientID = bi_ClientID i,
           ss_DeviceID = bi_DeviceID i, ss_TokenID = bi_TokenID i, ss_GatewayNode = bi_GatewayNode i,
           ss_ConnectedAt = now, ss_LastSeenAt = now\<rparr>;
         m = m\<lparr>byConnID := put (bi_ConnID i) session (byConnID m),
               connIDBySessionID := put sessionID (bi_ConnID i) (connIDBySessionID m)\<rparr>;
         deviceIndex = (case map_of (connIDByClientPair m) (bi_ClientID i) of
            None \<Rightarrow> [] | Some deviceIndex \<Rightarrow> deviceIndex);
         m = m\<lparr>connIDByClientPair :=
               put (bi_ClientID i) (put (bi_DeviceID i) (bi_ConnID i) deviceIndex) (connIDByClientPair m)\<rparr>
     in (Inr \<lparr>br_Session = session, br_Replaced = replaced, br_Created = True\<rparr>, m))"

text \<open>\<open>clock\<close> is the reading of \<^verbatim>\<open>time.Now\<close>, \<open>new_id\<close> the result of \<^verbatim>\<open>NewID\<close>.\<close>

definition Bind ::
  "time \<Rightarrow> string \<Rightarrow> manager \<Rightarrow> bind_input \<Rightarrow> (session_err + bind_result) \<times> manager" where
  "Bind clock new_id m i =
    (if bi_ConnID i = 0 then (Inl ErrInvalidConnID, m)
     else if bi_ClientID i = '''' then (Inl ErrEmptyClientID, m)
     else if bi_DeviceID i = '''' then (Inl ErrEmptyDeviceID, m)
     else let now = (if is_zero (bi_Now i) then clock else bi_Now i) in
     case map_of (byConnID m) (bi_ConnID i) of
       Some existing \<Rightarrow>
         if ss_ClientID existing = bi_ClientID i \<and> ss_DeviceID existing = bi_DeviceID i then
           let existing = existing\<lparr>ss_TokenID := bi_TokenID i, ss_GatewayNode := bi_GatewayNode i,
                 ss_LastSeenAt := now\<rparr> in
           (Inr \<lparr>br_Session = existing, br_Replaced = None, br_Created = False\<rparr>,
            m\<lparr>byConnID := put (bi_ConnID i) existing (byConnID m)\<rparr>)
         else bind_new now new_id m i
     | None \<Rightarrow> bind_new now new_id m i)"

definition TouchByConnID ::
  "time \<Rightarrow> manager \<Rightarrow> 64 word \<Rightarrow> time \<Rightarrow> (session_err + session) \<times> manager" where
  "TouchByConnID clock m connID now =
    (let now = (if is_zero now then clock else now) in
     case map_of (byConnID m) connID of
       None \<Rightarrow> (Inl ErrSessionNotFound, m)
     | Some found \<Rightarrow>
         let found = found\<lparr>ss_LastSeenAt := now\<rparr>
         in (Inr found, m\<lparr>byConnID := put connID found (byConnID m)\<rparr>))"

definition UnbindByConnID :: "manager \<Rightarrow> 64 word \<Rightarrow> session option \<times> manager" where
  "UnbindByConnID m connID = removeConnLocked m connID"

definition GetByConnID :: "manager \<Rightarrow> 64 word \<Rightarrow> session option \<times> bool" where
  "GetByConnID m connID = (map_of (byConnID m) connID, map_of (byConnID m) connID \<noteq> None)"

definition GetBySessionID :: "manager \<Rightarrow> string \<Rightarrow> session option \<times> bool" where
  "GetBySessionID m sessionID = (case map_of (connIDBySessionID m) sessionID of
     None \<Rightarrow> (None, False) | Some connID \<Rightarrow> (map_of (byConnID m) connID, True))"

definition GetByClientDevice :: "manager \<Rightarrow> string \<Rightarrow> string \<Rightarrow> session option \<times> bool" where
  "GetByClientDevice m clientID deviceID = (case map_of (connIDByClientPair m) clientID of
     None \<Rightarrow> (None, False)
   | Some deviceIndex \<Rightarrow> (case map_of deviceIndex deviceID of
       None \<Rightarrow> (None, False) | Some connID \<Rightarrow> (map_of (byConnID m) connID, True)))"

definition ListByClientID :: "manager \<Rightarrow> string \<Rightarrow> session list" where
  "ListByClientID m clientID = (case map_of (connIDByClientPair m) clientID of
     None \<Rightarrow> []
   | Some deviceIndex \<Rightarrow> List.map_filter (\<lambda>(_, connID). map_of (byConnID m) connID) deviceIndex)"

definition Snapshot :: "manager \<Rightarrow> session list" where
  "Snapshot m = vals (byConnID m)"

definition Len :: "manager \<Rightarrow> nat" where
  "Len m = length (byConnID m)"

definition UniqueClientLen :: "manager \<Rightarrow> nat" where
  "UniqueClientLen m = length (connIDByClientPair m)"

section \<open>The invariant\<close>

definition pair_index :: "manager \<Rightarrow> string \<times> string \<Rightarrow> 64 word option" where
  "pair_index m = (\<lambda>(c, d). case map_of (connIDByClientPair m) c of
     None \<Rightarrow> None | Some deviceIndex \<Rightarrow> map_of deviceIndex d)"

definition pair_of :: "session \<Rightarrow> string \<times> string" where
  "pair_of s = (ss_ClientID s, ss_DeviceID s)"

text \<open>
  The device index and the sessions are the same relation read in two directions; every session
  stands under its own connection; no client keeps an empty device map; and an entry of the session
  id index leads to the session with that id.
\<close>

definition session_inv :: "manager \<Rightarrow> bool" where
  "session_inv m \<longleftrightarrow> wf_map (byConnID m) \<and> wf_map (connIDByClientPair m)
     \<and> (\<forall>c s. map_of (byConnID m) c = Some s \<longrightarrow>
          ss_ConnID s = c \<and> c \<noteq> 0 \<and> ss_ClientID s \<noteq> '''' \<and> ss_DeviceID s \<noteq> '''')
     \<and> (\<forall>p c. pair_index m p = Some c \<longleftrightarrow> (\<exists>s. map_of (byConnID m) c = Some s \<and> pair_of s = p))
     \<and> (\<forall>cl ix. map_of (connIDByClientPair m) cl = Some ix \<longrightarrow> wf_map ix \<and> ix \<noteq> [])
     \<and> (\<forall>sid c. map_of (connIDBySessionID m) sid = Some c \<longrightarrow>
          (\<exists>s. map_of (byConnID m) c = Some s \<and> ss_SessionID s = sid))"

lemma session_invD:
  assumes "session_inv m"
  shows "wf_map (byConnID m)" "wf_map (connIDByClientPair m)"
    "map_of (byConnID m) c = Some s \<Longrightarrow> ss_ConnID s = c"
    "map_of (byConnID m) c = Some s \<Longrightarrow> c \<noteq> 0 \<and> ss_ClientID s \<noteq> '''' \<and> ss_DeviceID s \<noteq> ''''"
    "pair_index m p = Some c \<longleftrightarrow> (\<exists>s. map_of (byConnID m) c = Some s \<and> pair_of s = p)"
    "map_of (connIDByClientPair m) cl = Some ix \<Longrightarrow> wf_map ix \<and> ix \<noteq> []"
    "map_of (connIDBySessionID m) sid = Some c \<Longrightarrow>
       \<exists>s. map_of (byConnID m) c = Some s \<and> ss_SessionID s = sid"
  using assms unfolding session_inv_def by blast+

lemma session_inv_New [inv_intros]: "session_inv NewManager"
  by (auto simp: session_inv_def NewManager_def pair_index_def)

lemma del_Nil_other: "del k m = [] \<Longrightarrow> k' \<noteq> k \<Longrightarrow> map_of m k' = None"
  using map_of_del[of k m] by (metis fun_upd_other map_of.simps(1))

lemma removeConnLocked_eq:
  assumes "session_inv m"
  shows "fst (removeConnLocked m c) = map_of (byConnID m) c"
    and "byConnID (snd (removeConnLocked m c)) = del c (byConnID m)"
    and "pair_index (snd (removeConnLocked m c)) = (case map_of (byConnID m) c of
           None \<Rightarrow> pair_index m | Some s \<Rightarrow> (pair_index m)(pair_of s := None))"
    and "map_of (connIDBySessionID (snd (removeConnLocked m c))) = (case map_of (byConnID m) c of
           None \<Rightarrow> map_of (connIDBySessionID m)
         | Some s \<Rightarrow> (map_of (connIDBySessionID m))(ss_SessionID s := None))"
proof -
  show "fst (removeConnLocked m c) = map_of (byConnID m) c"
    by (simp add: removeConnLocked_def Let_def split: option.split)
  show "byConnID (snd (removeConnLocked m c)) = del c (byConnID m)"
    by (auto simp: removeConnLocked_def Let_def delete_id map_of_eq_None_iff split: option.split)
  show "map_of (connIDBySessionID (snd (removeConnLocked m c))) = (case map_of (byConnID m) c of
           None \<Rightarrow> map_of (connIDBySessionID m)
         | Some s \<Rightarrow> (map_of (connIDBySessionID m))(ss_SessionID s := None))"
    by (simp add: removeConnLocked_def Let_def split: option.split)
  show "pair_index (snd (removeConnLocked m c)) = (case map_of (byConnID m) c of
           None \<Rightarrow> pair_index m | Some s \<Rightarrow> (pair_index m)(pair_of s := None))"
    by (auto simp: removeConnLocked_def Let_def pair_index_def pair_of_def fun_eq_iff del_Nil_other
        split: option.split)
qed

lemma conn_unique:
  assumes "session_inv m" "map_of (byConnID m) c = Some s" "map_of (byConnID m) c' = Some s'"
    "pair_of s = pair_of s'"
  shows "c = c'"
proof -
  have "pair_index m (pair_of s) = Some c" "pair_index m (pair_of s) = Some c'"
    using assms session_invD(5)[OF assms(1)] by auto
  then show ?thesis by simp
qed

lemma session_inv_remove [inv_intros]:
  assumes "session_inv m"
  shows "session_inv (snd (removeConnLocked m c))"
proof (cases "map_of (byConnID m) c")
  case None
  then show ?thesis
    using assms by (simp add: removeConnLocked_def)
next
  case (Some s)
  let ?m = "snd (removeConnLocked m c)"
  note eqs = removeConnLocked_eq[OF assms, of c, unfolded Some option.case]
  have "pair_index m (pair_of s) = Some c"
    using session_invD(5)[OF assms] Some by auto
  then obtain ix where ix: "map_of (connIDByClientPair m) (ss_ClientID s) = Some ix"
    by (auto simp: pair_index_def pair_of_def split: option.splits)
  have cp: "connIDByClientPair ?m = (if del (ss_DeviceID s) ix = [] then del (ss_ClientID s) (connIDByClientPair m)
      else put (ss_ClientID s) (del (ss_DeviceID s) ix) (connIDByClientPair m))"
    by (simp add: removeConnLocked_def Some Let_def ix)
  have "wf_map (connIDByClientPair ?m)"
    unfolding cp using session_invD(2)[OF assms] by simp
  moreover have "wf_map ix' \<and> ix' \<noteq> []" if "map_of (connIDByClientPair ?m) cl = Some ix'" for cl ix'
    using that session_invD(6)[OF assms, of cl ix'] session_invD(6)[OF assms ix] unfolding cp
    by (simp split: if_splits) (auto intro: wf_map_del)
  moreover have "pair_index ?m p = Some c' \<longleftrightarrow> (\<exists>s. map_of (byConnID ?m) c' = Some s \<and> pair_of s = p)" for p c'
  proof (cases "p = pair_of s \<or> c' = c")
    case True
    then have "\<not> (\<exists>s'. map_of (byConnID ?m) c' = Some s' \<and> pair_of s' = p)"
      unfolding eqs(2) using conn_unique[OF assms _ Some] by (auto split: if_splits)
    moreover have "pair_index ?m p \<noteq> Some c'"
      unfolding eqs(3) using True session_invD(5)[OF assms, of p c] Some by auto
    ultimately show ?thesis by blast
  next
    case False
    then show ?thesis
      unfolding eqs(2,3) using session_invD(5)[OF assms, of p c'] by simp
  qed
  moreover have "\<exists>s. map_of (byConnID ?m) c' = Some s \<and> ss_SessionID s = sid"
    if "map_of (connIDBySessionID ?m) sid = Some c'" for sid c'
    using that session_invD(7)[OF assms, of sid c'] Some by (auto simp: eqs split: if_splits)
  ultimately show ?thesis
    using session_invD(1,3,4)[OF assms] unfolding session_inv_def by (auto simp: eqs split: if_splits)
qed

definition add_session :: "session \<Rightarrow> manager \<Rightarrow> manager" where
  "add_session s m = m\<lparr>byConnID := put (ss_ConnID s) s (byConnID m),
     connIDBySessionID := put (ss_SessionID s) (ss_ConnID s) (connIDBySessionID m),
     connIDByClientPair := put (ss_ClientID s)
       (put (ss_DeviceID s) (ss_ConnID s)
         (case map_of (connIDByClientPair m) (ss_ClientID s) of None \<Rightarrow> [] | Some ix \<Rightarrow> ix))
       (connIDByClientPair m)\<rparr>"

lemma pair_index_add: "pair_index (add_session s m) = (pair_index m)(pair_of s \<mapsto> ss_ConnID s)"
  by (auto simp: add_session_def pair_index_def pair_of_def fun_eq_iff split: option.split)

lemma session_inv_add:
  assumes inv: "session_inv m" and new: "map_of (byConnID m) (ss_ConnID s) = None" "pair_index m (pair_of s) = None"
    and s: "ss_ConnID s \<noteq> 0" "ss_ClientID s \<noteq> ''''" "ss_DeviceID s \<noteq> ''''"
  shows "session_inv (add_session s m)"
proof -
  let ?m = "add_session s m"
  have "wf_map (connIDByClientPair ?m)" "wf_map (byConnID ?m)"
    "\<And>cl ix. map_of (connIDByClientPair ?m) cl = Some ix \<Longrightarrow> wf_map ix \<and> ix \<noteq> []"
    using session_invD(1,2,6)[OF inv] by (auto simp: add_session_def wf_map_def[of "[_]"] split: option.splits if_splits)
  moreover have "pair_index ?m p = Some c' \<longleftrightarrow> (\<exists>s. map_of (byConnID ?m) c' = Some s \<and> pair_of s = p)" for p c'
    using session_invD(5)[OF inv, of p] session_invD(5)[OF inv, of "pair_of s"] new
    unfolding pair_index_add by (auto simp: add_session_def)
  moreover have "\<exists>s. map_of (byConnID ?m) c' = Some s \<and> ss_SessionID s = sid"
    if "map_of (connIDBySessionID ?m) sid = Some c'" for sid c'
    using that session_invD(7)[OF inv, of sid c'] new by (auto simp: add_session_def split: if_splits)
  moreover have "ss_ConnID s' = c \<and> c \<noteq> 0 \<and> ss_ClientID s' \<noteq> '''' \<and> ss_DeviceID s' \<noteq> ''''"
    if "map_of (byConnID ?m) c = Some s'" for c s'
    using that session_invD(3,4)[OF inv, of c s'] s by (auto simp: add_session_def split: if_splits)
  ultimately show ?thesis
    unfolding session_inv_def by blast
qed

text \<open>Refreshing a session keeps its connection, its pair and its id.\<close>

lemma session_inv_refresh:
  assumes inv: "session_inv m" and s: "map_of (byConnID m) c = Some s"
    and s': "ss_ConnID s' = ss_ConnID s" "pair_of s' = pair_of s" "ss_SessionID s' = ss_SessionID s"
  shows "session_inv (m\<lparr>byConnID := put c s' (byConnID m)\<rparr>)"
proof -
  let ?m = "m\<lparr>byConnID := put c s' (byConnID m)\<rparr>"
  have pi: "pair_index ?m = pair_index m"
    by (simp add: pair_index_def fun_eq_iff)
  have "pair_index ?m p = Some c' \<longleftrightarrow> (\<exists>s. map_of (byConnID ?m) c' = Some s \<and> pair_of s = p)" for p c'
    using session_invD(5)[OF inv, of p c'] s s' unfolding pi by auto
  moreover have "\<exists>s. map_of (byConnID ?m) c' = Some s \<and> ss_SessionID s = sid"
    if "map_of (connIDBySessionID ?m) sid = Some c'" for sid c'
    using that session_invD(7)[OF inv, of sid c'] s s' by auto
  moreover have "ss_ConnID s'' = c' \<and> c' \<noteq> 0 \<and> ss_ClientID s'' \<noteq> '''' \<and> ss_DeviceID s'' \<noteq> ''''"
    if "map_of (byConnID ?m) c' = Some s''" for c' s''
    using that session_invD(3,4)[OF inv, of c'] s s' by (auto simp: pair_of_def split: if_splits)
  ultimately show ?thesis
    using session_invD(1,2,6)[OF inv] unfolding session_inv_def by simp
qed

text \<open>The sessions online, as the devices see them.\<close>

definition online :: "manager \<Rightarrow> string \<times> string \<Rightarrow> session option" where
  "online m = (\<lambda>(c, d). fst (GetByClientDevice m c d))"

lemma online_eq: "online m p = Option.bind (pair_index m p) (map_of (byConnID m))"
  by (simp add: online_def GetByClientDevice_def pair_index_def split: option.split prod.split)

lemma online_Some:
  assumes "session_inv m"
  shows "online m p = Some s \<longleftrightarrow> map_of (byConnID m) (ss_ConnID s) = Some s \<and> pair_of s = p"
proof
  assume "online m p = Some s"
  then obtain c where c: "pair_index m p = Some c" "map_of (byConnID m) c = Some s"
    by (auto simp: online_eq bind_eq_Some_conv)
  with session_invD(3,5)[OF assms] show "map_of (byConnID m) (ss_ConnID s) = Some s \<and> pair_of s = p"
    by auto
next
  assume "map_of (byConnID m) (ss_ConnID s) = Some s \<and> pair_of s = p"
  moreover from this have "pair_index m p = Some (ss_ConnID s)"
    using session_invD(5)[OF assms] by auto
  ultimately show "online m p = Some s"
    by (simp add: online_eq)
qed

lemma online_None: "session_inv m \<Longrightarrow> online m p = None \<longleftrightarrow> pair_index m p = None"
  using session_invD(5)[of m p] by (cases "pair_index m p") (auto simp: online_eq)

lemma GetByClientDevice_eq:
  "session_inv m \<Longrightarrow> GetByClientDevice m c d = (online m (c, d), online m (c, d) \<noteq> None)"
  using online_None[of m "(c, d)"]
  by (auto simp: online_def GetByClientDevice_def pair_index_def split: option.splits)

section \<open>Every operation keeps the invariant and changes the sessions online as specified\<close>

text \<open>
  The specification of the manager over the sessions online: a bind takes its connection away from
  whatever pair held it and gives it to the new pair; an unbind frees the pair of the connection.
\<close>

definition spec_unbind ::
  "(string \<times> string \<Rightarrow> session option) \<Rightarrow> 64 word \<Rightarrow> string \<times> string \<Rightarrow> session option" where
  "spec_unbind M c = (\<lambda>p. case M p of None \<Rightarrow> None | Some s \<Rightarrow> if ss_ConnID s = c then None else Some s)"

definition spec_bind ::
  "(string \<times> string \<Rightarrow> session option) \<Rightarrow> session \<Rightarrow> string \<times> string \<Rightarrow> session option" where
  "spec_bind M s = (spec_unbind M (ss_ConnID s))(pair_of s \<mapsto> s)"

lemma map_eqI_Some: "(\<And>x y. f x = Some y \<longleftrightarrow> g x = Some y) \<Longrightarrow> f = g"
  by (rule ext) (metis not_None_eq)

lemma spec_unbind_Some: "spec_unbind M c p = Some s \<longleftrightarrow> M p = Some s \<and> ss_ConnID s \<noteq> c"
  by (auto simp: spec_unbind_def split: option.split)

lemma spec_unbind_id: "(\<And>s. M p = Some s \<Longrightarrow> ss_ConnID s \<noteq> c) \<Longrightarrow> spec_unbind M c p = M p"
  by (auto simp: spec_unbind_def split: option.split)

lemma online_remove:
  assumes "session_inv m"
  shows "online (snd (removeConnLocked m c)) = spec_unbind (online m) c"
proof (rule map_eqI_Some)
  fix p s
  show "online (snd (removeConnLocked m c)) p = Some s \<longleftrightarrow> spec_unbind (online m) c p = Some s"
    by (auto simp: spec_unbind_Some online_Some session_inv_remove assms removeConnLocked_eq(2))
qed

lemma online_add:
  assumes "session_inv m" "map_of (byConnID m) (ss_ConnID s) = None" "pair_index m (pair_of s) = None"
    "ss_ConnID s \<noteq> 0" "ss_ClientID s \<noteq> ''''" "ss_DeviceID s \<noteq> ''''"
  shows "online (add_session s m) = (online m)(pair_of s \<mapsto> s)"
proof (rule map_eqI_Some)
  fix p s'
  have "online m (pair_of s) = None"
    using assms(1,3) by (simp add: online_None)
  then have "\<not> (map_of (byConnID m) (ss_ConnID s') = Some s' \<and> pair_of s' = pair_of s)"
    using online_Some[OF assms(1), of "pair_of s" s'] by simp
  then show "online (add_session s m) p = Some s' \<longleftrightarrow> ((online m)(pair_of s \<mapsto> s)) p = Some s'"
    using assms(2) online_Some[OF session_inv_add[OF assms], of p s'] online_Some[OF assms(1), of p s']
    by (auto simp: add_session_def)
qed

lemma online_refresh:
  assumes "session_inv m" "map_of (byConnID m) c = Some s"
    "ss_ConnID s' = ss_ConnID s" "pair_of s' = pair_of s" "ss_SessionID s' = ss_SessionID s"
  shows "online (m\<lparr>byConnID := put c s' (byConnID m)\<rparr>) = (online m)(pair_of s \<mapsto> s')"
proof
  fix p
  have *: "pair_index m q = Some c \<longleftrightarrow> q = pair_of s" for q
    using session_invD(5)[OF assms(1), of q c] assms(2) by auto
  have "online (m\<lparr>byConnID := put c s' (byConnID m)\<rparr>) p
      = Option.bind (pair_index m p) ((map_of (byConnID m))(c \<mapsto> s'))"
    by (simp add: online_eq pair_index_def)
  also have "\<dots> = ((online m)(pair_of s \<mapsto> s')) p"
    using *[of p] by (cases "pair_index m p") (auto simp: online_eq)
  finally show "online (m\<lparr>byConnID := put c s' (byConnID m)\<rparr>) p = ((online m)(pair_of s \<mapsto> s')) p" .
qed

text \<open>What a successful bind leaves behind, on both of its paths.\<close>

definition replaced_by :: "manager \<Rightarrow> bind_input \<Rightarrow> session option" where
  "replaced_by m i = (case online m (bi_ClientID i, bi_DeviceID i) of
     None \<Rightarrow> None | Some s \<Rightarrow> if ss_ConnID s = bi_ConnID i then None else Some s)"

lemma bind_new_correct:
  assumes inv: "session_inv m" and ok: "bi_ConnID i \<noteq> 0" "bi_ClientID i \<noteq> ''''" "bi_DeviceID i \<noteq> ''''"
    and "bind_new now new_id m i = (r, m')"
  obtains s where "r = Inr \<lparr>br_Session = s, br_Replaced = replaced_by m i, br_Created = True\<rparr>"
    "session_inv m'" "online m' = spec_bind (online m) s"
    "ss_ConnID s = bi_ConnID i" "pair_of s = (bi_ClientID i, bi_DeviceID i)"
proof -
  define s where "s = \<lparr>ss_SessionID = (if bi_SessionID i = '''' then new_id else bi_SessionID i),
    ss_ConnID = bi_ConnID i, ss_ClientID = bi_ClientID i, ss_DeviceID = bi_DeviceID i,
    ss_TokenID = bi_TokenID i, ss_GatewayNode = bi_GatewayNode i, ss_ConnectedAt = now, ss_LastSeenAt = now\<rparr>"
  define m1 where "m1 = snd (removeConnLocked m (bi_ConnID i))"
  define m2 where "m2 = (case pair_index m1 (pair_of s) of None \<Rightarrow> m1 | Some c \<Rightarrow> snd (removeConnLocked m1 c))"
  have s: "ss_ConnID s = bi_ConnID i" "ss_ClientID s = bi_ClientID i" "ss_DeviceID s = bi_DeviceID i"
      "pair_of s = (bi_ClientID i, bi_DeviceID i)"
    by (simp_all add: s_def pair_of_def)
  have inv1: "session_inv m1" and none1: "map_of (byConnID m1) (bi_ConnID i) = None"
    by (simp_all add: m1_def inv session_inv_remove removeConnLocked_eq)
  then have other: "c \<noteq> bi_ConnID i" if "pair_index m1 (pair_of s) = Some c" for c
    using that session_invD(5)[OF inv1] by auto
  have on1: "online m1 = spec_unbind (online m) (bi_ConnID i)"
    by (simp add: m1_def online_remove inv)
  have inv2: "session_inv m2"
    by (simp add: m2_def inv1 session_inv_remove split: option.split)
  have none2: "map_of (byConnID m2) (ss_ConnID s) = None" "pair_index m2 (pair_of s) = None"
    using none1 session_invD(5)[OF inv1, of "pair_of s"]
    by (auto simp: m2_def s(1) removeConnLocked_eq inv1 split: option.splits)
  have on2: "(online m2)(pair_of s \<mapsto> s) = (online m1)(pair_of s \<mapsto> s)"
  proof (cases "pair_index m1 (pair_of s)")
    case (Some c)
    then obtain s1 where "map_of (byConnID m1) c = Some s1" "pair_of s1 = pair_of s"
      using session_invD(5)[OF inv1] by auto
    then have "spec_unbind (online m1) c p = online m1 p" if "p \<noteq> pair_of s" for p
      using that by (intro spec_unbind_id) (auto simp: online_Some[OF inv1])
    then show ?thesis
      by (auto simp: m2_def Some online_remove inv1 fun_eq_iff)
  qed (simp add: m2_def)
  have rep: "(case pair_index m1 (pair_of s) of None \<Rightarrow> None | Some c \<Rightarrow> map_of (byConnID m1) c) = replaced_by m i"
    using on1 online_eq[of m1 "pair_of s"]
    by (auto simp: replaced_by_def spec_unbind_def fun_eq_iff s(4) split: option.splits)
  have "bind_new now new_id m i =
      (Inr \<lparr>br_Session = s, br_Replaced = replaced_by m i, br_Created = True\<rparr>, add_session s m2)"
    using other removeConnLocked_eq(1)[OF inv1]
    unfolding rep[symmetric] bind_new_def m1_def[symmetric] Let_def add_session_def m2_def
    by (auto simp: pair_index_def s_def pair_of_def prod_eq_iff split: option.splits prod.splits)
  moreover have "session_inv (add_session s m2)"
    using inv2 none2 ok s by (intro session_inv_add) simp_all
  moreover have "online (add_session s m2) = spec_bind (online m) s"
    using online_add[OF inv2 none2] ok s on1 on2 by (simp add: spec_bind_def)
  ultimately show thesis
    using assms(5) s by (intro that[of s]) auto
qed

lemma Bind_correct:
  assumes inv: "session_inv m" and ok: "Bind clock new_id m i = (Inr r, m')"
  shows "session_inv m'" "online m' = spec_bind (online m) (br_Session r)"
    "br_Replaced r = replaced_by m i" "ss_ConnID (br_Session r) = bi_ConnID i"
    "pair_of (br_Session r) = (bi_ClientID i, bi_DeviceID i)"
proof -
  define now where "now = (if is_zero (bi_Now i) then clock else bi_Now i)"
  have valid: "bi_ConnID i \<noteq> 0" "bi_ClientID i \<noteq> ''''" "bi_DeviceID i \<noteq> ''''"
    using ok by (auto simp: Bind_def split: if_splits)
  have "session_inv m' \<and> online m' = spec_bind (online m) (br_Session r) \<and> br_Replaced r = replaced_by m i
    \<and> ss_ConnID (br_Session r) = bi_ConnID i \<and> pair_of (br_Session r) = (bi_ClientID i, bi_DeviceID i)"
  proof (cases "\<exists>s. map_of (byConnID m) (bi_ConnID i) = Some s \<and> pair_of s = (bi_ClientID i, bi_DeviceID i)")
    case True
    then obtain s where s: "map_of (byConnID m) (bi_ConnID i) = Some s" "pair_of s = (bi_ClientID i, bi_DeviceID i)"
      by blast
    define s' where "s' = s\<lparr>ss_TokenID := bi_TokenID i, ss_GatewayNode := bi_GatewayNode i, ss_LastSeenAt := now\<rparr>"
    have s': "ss_ConnID s' = ss_ConnID s" "pair_of s' = pair_of s" "ss_SessionID s' = ss_SessionID s"
      by (simp_all add: s'_def pair_of_def)
    have r: "r = \<lparr>br_Session = s', br_Replaced = None, br_Created = False\<rparr>"
        and m': "m' = m\<lparr>byConnID := put (bi_ConnID i) s' (byConnID m)\<rparr>"
      using ok valid s by (auto simp: Bind_def Let_def s'_def now_def pair_of_def)
    have conn: "ss_ConnID s = bi_ConnID i"
      using session_invD(3)[OF inv s(1)] .
    have on: "online m (pair_of s) = Some s"
      using s conn by (simp add: online_Some[OF inv])
    have "spec_unbind (online m) (bi_ConnID i) p = online m p" if "p \<noteq> pair_of s" for p
      using that s by (intro spec_unbind_id) (auto simp: online_Some[OF inv])
    then have "(online m)(pair_of s \<mapsto> s') = spec_bind (online m) s'"
      by (auto simp: spec_bind_def s' conn fun_eq_iff)
    then show ?thesis
      using session_inv_refresh[OF inv s(1) s'] online_refresh[OF inv s(1) s'] s on s' conn
      by (simp add: r m' replaced_by_def)
  next
    case False
    then have "bind_new now new_id m i = (Inr r, m')"
      using ok valid by (auto simp: Bind_def Let_def now_def pair_of_def split: option.splits if_splits)
    from bind_new_correct[OF inv valid this] show ?thesis
      by (metis bind_result.select_convs(1,2) sum.inject(2))
  qed
  then show "session_inv m'" "online m' = spec_bind (online m) (br_Session r)"
    "br_Replaced r = replaced_by m i" "ss_ConnID (br_Session r) = bi_ConnID i"
    "pair_of (br_Session r) = (bi_ClientID i, bi_DeviceID i)"
    by blast+
qed

lemma Bind_Inl: "Bind clock new_id m i = (Inl e, m') \<Longrightarrow> m' = m"
  by (auto simp: Bind_def bind_new_def Let_def split: option.splits if_splits prod.splits)

lemma TouchByConnID_correct:
  assumes "session_inv m" "TouchByConnID clock m c now = (Inr s, m')"
  shows "session_inv m'" "online m' = (online m)(pair_of s \<mapsto> s)"
  using assms session_inv_refresh[OF assms(1), of c] online_refresh[OF assms(1), of c]
  by (auto simp: TouchByConnID_def Let_def pair_of_def split: option.splits)

lemma TouchByConnID_Inl: "TouchByConnID clock m c now = (Inl e, m') \<Longrightarrow> m' = m"
  by (auto simp: TouchByConnID_def Let_def split: option.splits)

section \<open>The directory of online sessions\<close>

text \<open>
  What the gateway relies on: \<open>find\<close> tells which session a device has, and binding and unbinding
  act on it as specified.
\<close>

locale session_directory =
  fixes inv :: "'m \<Rightarrow> bool"
    and find :: "'m \<Rightarrow> string \<times> string \<Rightarrow> session option"
    and bind :: "'m \<Rightarrow> bind_input \<Rightarrow> (session_err + bind_result) \<times> 'm"
    and unbind :: "'m \<Rightarrow> 64 word \<Rightarrow> session option \<times> 'm"
  assumes bind_inv: "inv m \<Longrightarrow> bind m i = (Inr r, m') \<Longrightarrow> inv m'"
    and bind_find: "inv m \<Longrightarrow> bind m i = (Inr r, m') \<Longrightarrow> find m' = spec_bind (find m) (br_Session r)"
    and bind_session: "inv m \<Longrightarrow> bind m i = (Inr r, m') \<Longrightarrow> ss_ConnID (br_Session r) = bi_ConnID i
          \<and> pair_of (br_Session r) = (bi_ClientID i, bi_DeviceID i)"
    and bind_error: "bind m i = (Inl e, m') \<Longrightarrow> m' = m"
    and unbind_inv: "inv m \<Longrightarrow> inv (snd (unbind m c))"
    and unbind_find: "inv m \<Longrightarrow> find (snd (unbind m c)) = spec_unbind (find m) c"
begin

definition unbind_all :: "64 word list \<Rightarrow> 'm \<Rightarrow> 'm" where
  "unbind_all cs m = fold (\<lambda>c m. snd (unbind m c)) cs m"

lemma unbind_all_inv: "inv m \<Longrightarrow> inv (unbind_all cs m)"
  by (induction cs arbitrary: m) (simp_all add: unbind_all_def unbind_inv)

lemma unbind_all_find:
  "inv m \<Longrightarrow> find m p = Some s \<Longrightarrow> ss_ConnID s \<notin> set cs \<Longrightarrow> find (unbind_all cs m) p = Some s"
proof (induction cs arbitrary: m)
  case (Cons c cs)
  then have "find (snd (unbind m c)) p = Some s"
    by (simp add: unbind_find spec_unbind_Some)
  with Cons show ?case
    by (simp add: unbind_all_def unbind_inv)
qed (simp add: unbind_all_def)

lemma late_unbind:
  assumes "inv m" "bind m i = (Inr r, m')" "bi_ConnID i \<notin> set cs"
  shows "find (unbind_all cs m') (bi_ClientID i, bi_DeviceID i) = Some (br_Session r)"
proof (rule unbind_all_find)
  note s = bind_session[OF assms(1,2)]
  show "inv m'"
    by (rule bind_inv[OF assms(1,2)])
  show "find m' (bi_ClientID i, bi_DeviceID i) = Some (br_Session r)"
    unfolding bind_find[OF assms(1,2)] using s by (simp add: spec_bind_def)
  show "ss_ConnID (br_Session r) \<notin> set cs"
    using s assms(3) by simp
qed

lemma bind_frame:
  assumes "inv m" "bind m i = (Inr r, m')" "p \<noteq> (bi_ClientID i, bi_DeviceID i)"
    "find m p = Some s" "ss_ConnID s \<noteq> bi_ConnID i"
  shows "find m' p = Some s"
  using assms bind_session[OF assms(1,2)] unfolding bind_find[OF assms(1,2)]
  by (simp add: spec_bind_def spec_unbind_Some)

end

interpretation mgr: session_directory session_inv online "Bind clock new_id" UnbindByConnID
  for clock new_id
proof
  show "session_inv m'" "online m' = spec_bind (online m) (br_Session r)"
    "ss_ConnID (br_Session r) = bi_ConnID i \<and> pair_of (br_Session r) = (bi_ClientID i, bi_DeviceID i)"
    if "session_inv m" "Bind clock new_id m i = (Inr r, m')" for m i r m'
    using Bind_correct[OF that] by auto
  show "m' = m" if "Bind clock new_id m i = (Inl e, m')" for m i e m'
    using Bind_Inl[OF that] .
qed (simp_all add: UnbindByConnID_def session_inv_remove online_remove)

section \<open>Reachable managers\<close>

inductive manager_reachable :: "manager \<Rightarrow> bool" where
  reach_new: "manager_reachable NewManager"
| reach_bind: "manager_reachable m \<Longrightarrow> Bind clock new_id m i = (r, m') \<Longrightarrow> manager_reachable m'"
| reach_touch: "manager_reachable m \<Longrightarrow> TouchByConnID clock m c now = (x, m') \<Longrightarrow> manager_reachable m'"
| reach_unbind: "manager_reachable m \<Longrightarrow> UnbindByConnID m c = (y, m') \<Longrightarrow> manager_reachable m'"

lemma reachable_inv: "manager_reachable m \<Longrightarrow> session_inv m"
proof (induction rule: manager_reachable.induct)
  case (reach_bind m clock new_id i r m')
  then show ?case
    using Bind_correct(1) Bind_Inl by (cases r) (fastforce+)
next
  case (reach_touch m clock c now x m')
  then show ?case
    using TouchByConnID_correct(1) TouchByConnID_Inl by (cases x) (fastforce+)
next
  case (reach_unbind m c y m')
  then show ?case
    using session_inv_remove[of m c] by (simp add: UnbindByConnID_def)
qed (rule session_inv_New)

lemma set_Snapshot: "session_inv m \<Longrightarrow> s \<in> set (Snapshot m) \<longleftrightarrow> map_of (byConnID m) (ss_ConnID s) = Some s"
  unfolding Snapshot_def using session_invD(3)[of m] set_vals_iff[OF session_invD(1), of m s] by blast

lemma client_indexed:
  assumes "session_inv m"
  shows "fst ` set (connIDByClientPair m) = ss_ClientID ` set (Snapshot m)"
proof -
  have "(\<exists>ix. map_of (connIDByClientPair m) cl = Some ix) \<longleftrightarrow> (\<exists>d c. pair_index m (cl, d) = Some c)" for cl
  proof
    assume "\<exists>ix. map_of (connIDByClientPair m) cl = Some ix"
    then obtain ix where ix: "map_of (connIDByClientPair m) cl = Some ix" "ix \<noteq> []"
      using session_invD(6)[OF assms] by blast
    then obtain d c ixs where "ix = (d, c) # ixs"
      by (metis list.exhaust prod.exhaust)
    with ix show "\<exists>d c. pair_index m (cl, d) = Some c"
      by (auto simp: pair_index_def intro!: exI[of _ d])
  qed (auto simp: pair_index_def split: option.splits)
  also have "(\<exists>d c. pair_index m (cl, d) = Some c) \<longleftrightarrow> cl \<in> ss_ClientID ` set (Snapshot m)" for cl
    using session_invD(3,5)[OF assms] set_Snapshot[OF assms] by (force simp: pair_of_def)
  finally show ?thesis
    by (auto simp: dom_map_of_conv_image_fst[symmetric] dom_def)
qed

lemma card_distinct_keys: "wf_map m \<Longrightarrow> length m = card (fst ` set m)"
  using distinct_card[of "map fst m"] by (simp add: wf_map_def)

section \<open>Properties\<close>

text \<open>A device that reconnects on another connection, for the witnesses.\<close>

definition sample_bind :: "64 word \<Rightarrow> string \<Rightarrow> bind_input" where
  "sample_bind conn sid = \<lparr>bi_SessionID = sid, bi_ConnID = conn, bi_ClientID = ''c'', bi_DeviceID = ''d'',
     bi_TokenID = ''t'', bi_GatewayNode = ''n'', bi_Now = 10\<rparr>"

definition sample_manager :: manager where
  "sample_manager = snd (Bind 10 '''' NewManager (sample_bind 1 ''s1''))"

lemma sample_manager_reachable: "manager_reachable sample_manager"
  unfolding sample_manager_def by (rule reach_bind[OF reach_new prod.collapse[symmetric]])

text \<open>
  C23. Binding refines its specification: a successful bind keeps the indexes consistent, gives the
  connection's session to exactly the bound client and device, takes the connection away from any
  other pair, and reports as replaced the session that held the pair on another connection.
\<close>

theorem Bind_refines:
  assumes "session_inv m" "Bind clock new_id m i = (Inr r, m')"
  shows "session_inv m' \<and> online m' = spec_bind (online m) (br_Session r)
    \<and> pair_of (br_Session r) = (bi_ClientID i, bi_DeviceID i)
    \<and> ss_ConnID (br_Session r) = bi_ConnID i \<and> br_Replaced r = replaced_by m i"
  using Bind_correct[OF assms] by simp

theorem Bind_refines_witness:
  "br_Replaced (projr (fst (Bind 11 '''' sample_manager (sample_bind 2 ''s2'')))) \<noteq> None"
proof -
  obtain r m' where r: "Bind 11 '''' sample_manager (sample_bind 2 ''s2'') = (Inr r, m')"
    and online: "online sample_manager (''c'', ''d'') \<noteq> None"
      "\<forall>s. online sample_manager (''c'', ''d'') = Some s \<longrightarrow> ss_ConnID s = 1"
    by (simp add: sample_manager_def sample_bind_def Bind_def bind_new_def removeConnLocked_def
        NewManager_def is_zero_def online_def GetByClientDevice_def Let_def)
  from Bind_refines[OF reachable_inv[OF sample_manager_reachable] r] online r show ?thesis
    by (auto simp: replaced_by_def sample_bind_def)
qed

text \<open>
  C29. A late close is harmless: once a device has reconnected, closing any other connections, in any
  order and number, leaves the session it just got in place.
\<close>

theorem late_close_keeps_session:
  assumes "session_inv m" "Bind clock new_id m i = (Inr r, m')" "bi_ConnID i \<notin> set cs"
  shows "GetByClientDevice (fold (\<lambda>c m. snd (UnbindByConnID m c)) cs m') (bi_ClientID i) (bi_DeviceID i)
    = (Some (br_Session r), True)"
  using mgr.late_unbind[OF assms] mgr.unbind_all_inv[OF mgr.bind_inv[OF assms(1,2)], of cs]
  by (simp add: mgr.unbind_all_def GetByClientDevice_eq)

theorem late_close_keeps_session_witness:
  "GetByClientDevice (fold (\<lambda>c m. snd (UnbindByConnID m c)) [1, 3]
      (snd (Bind 11 '''' sample_manager (sample_bind 2 ''s2'')))) ''c'' ''d'' \<noteq> (None, False)"
proof -
  obtain r m' where r: "Bind 11 '''' sample_manager (sample_bind 2 ''s2'') = (Inr r, m')"
    by (simp add: sample_manager_def sample_bind_def Bind_def bind_new_def removeConnLocked_def
        NewManager_def is_zero_def Let_def)
  from late_close_keeps_session[OF reachable_inv[OF sample_manager_reachable] r, of "[1, 3]"] r
  show ?thesis
    by (simp add: sample_bind_def)
qed

text \<open>
  C30. In every reachable state the indexes agree: a device lookup finds exactly the snapshot's session
  of that device, no two sessions share a connection or a device, a lookup by session id returns a
  session with that id, and the client count is the number of distinct clients online.
\<close>

theorem reachable_indexes_agree:
  assumes "manager_reachable m"
  shows "(GetByClientDevice m c d = (Some s, True) \<longleftrightarrow> s \<in> set (Snapshot m) \<and> pair_of s = (c, d))
    \<and> distinct (map pair_of (Snapshot m)) \<and> distinct (map ss_ConnID (Snapshot m))
    \<and> (GetBySessionID m sid = (f, True) \<longrightarrow> (\<exists>s\<in>set (Snapshot m). f = Some s \<and> ss_SessionID s = sid))
    \<and> UniqueClientLen m = card (ss_ClientID ` set (Snapshot m))"
proof -
  note inv = reachable_inv[OF assms]
  have "distinct (map pair_of (Snapshot m))" "distinct (map ss_ConnID (Snapshot m))"
    unfolding Snapshot_def
    using conn_unique[OF inv] session_invD(3)[OF inv]
    by (auto intro!: distinct_map_vals session_invD(1)[OF inv] simp del: map_map)
  moreover have "GetBySessionID m sid = (f, True) \<longrightarrow> (\<exists>s\<in>set (Snapshot m). f = Some s \<and> ss_SessionID s = sid)"
    using session_invD(3)[OF inv] session_invD(7)[OF inv, of sid]
    by (fastforce simp: GetBySessionID_def set_Snapshot[OF inv] split: option.splits)
  moreover have "UniqueClientLen m = card (ss_ClientID ` set (Snapshot m))"
    unfolding UniqueClientLen_def client_indexed[OF inv, symmetric]
    by (rule card_distinct_keys[OF session_invD(2)[OF inv]])
  ultimately show ?thesis
    using online_Some[OF inv, of "(c, d)" s] by (auto simp: set_Snapshot[OF inv] GetByClientDevice_eq[OF inv])
qed

theorem reachable_indexes_agree_witness:
  "UniqueClientLen sample_manager = card (ss_ClientID ` set (Snapshot sample_manager))
    \<and> Snapshot sample_manager \<noteq> []"
  using reachable_indexes_agree[OF sample_manager_reachable]
  by (simp add: sample_manager_def sample_bind_def Bind_def bind_new_def removeConnLocked_def
      NewManager_def is_zero_def Let_def Snapshot_def)

end
