(* ===== verification/Cluster.thy ===== *)
theory Cluster
  imports Prelude
begin

text \<open>
  The online registry of the cluster (\<^verbatim>\<open>internal/cluster/registry.go\<close> and \<^verbatim>\<open>memory_registry.go\<close>): which
  gateway node holds the session of a client's device.  An entry may expire; expired entries are
  removed when an operation comes across them.
\<close>

section \<open>Entries\<close>

type_synonym route_key = "string \<times> string"

record route_entry =
  re_ClientID :: string
  re_DeviceID :: string
  re_SessionID :: string
  re_GatewayNode :: string
  re_InternalAddr :: string
  re_TokenID :: string
  re_UpdatedAt :: time
  re_ExpiresAt :: time

record route_list_filter =
  rl_SessionID :: string
  rl_ClientID :: string
  rl_DeviceID :: string
  rl_Limit :: int

record route_list_result =
  rr_Total :: nat
  rr_UniqueClients :: nat
  rr_Routes :: "route_entry list"

datatype registry_err =
    RegistryCtxErr ctx_err | ErrClosed | ErrInvalidRouteKey | ErrInvalidRouteEntry | ErrRouteNotFound
  | ErrSessionMismatch

definition Key :: "route_entry \<Rightarrow> route_key" where
  "Key e = (re_ClientID e, re_DeviceID e)"

definition Expired :: "route_entry \<Rightarrow> time \<Rightarrow> bool" where
  "Expired e now \<longleftrightarrow> \<not> is_zero (re_ExpiresAt e) \<and> \<not> before now (re_ExpiresAt e)"

definition validateRouteKey :: "route_key \<Rightarrow> registry_err option" where
  "validateRouteKey key = (if fst key = '''' \<or> snd key = '''' then Some ErrInvalidRouteKey else None)"

definition validateRouteEntry :: "route_entry \<Rightarrow> registry_err option" where
  "validateRouteEntry e = (case validateRouteKey (Key e) of
     Some err \<Rightarrow> Some err
   | None \<Rightarrow> if re_SessionID e = '''' \<or> re_GatewayNode e = '''' then Some ErrInvalidRouteEntry else None)"

definition routeEntryMatchesFilter :: "route_entry \<Rightarrow> route_list_filter \<Rightarrow> bool" where
  "routeEntryMatchesFilter e f =
    (if rl_SessionID f \<noteq> '''' \<and> re_SessionID e \<noteq> rl_SessionID f then False
     else if rl_ClientID f \<noteq> '''' \<and> re_ClientID e \<noteq> rl_ClientID f then False
     else if rl_DeviceID f \<noteq> '''' \<and> re_DeviceID e \<noteq> rl_DeviceID f then False
     else True)"

definition route_lt :: "route_entry \<Rightarrow> route_entry \<Rightarrow> bool" where
  "route_lt l r =
    (if re_ClientID l \<noteq> re_ClientID r then re_ClientID l < re_ClientID r
     else if re_DeviceID l \<noteq> re_DeviceID r then re_DeviceID l < re_DeviceID r
     else if re_GatewayNode l \<noteq> re_GatewayNode r then re_GatewayNode l < re_GatewayNode r
     else re_SessionID l < re_SessionID r)"

definition sortRouteEntries :: "route_entry list \<Rightarrow> route_entry list" where
  "sortRouteEntries entries = sort_slice route_lt entries"

definition uniqueRouteClientCount :: "route_entry list \<Rightarrow> nat" where
  "uniqueRouteClientCount entries =
     length (fold (\<lambda>e seen. if re_ClientID e = '''' then seen else put (re_ClientID e) () seen) entries [])"

section \<open>The memory registry\<close>

record memory_registry =
  reg_entries :: "(route_key, route_entry) gomap"
  reg_ttl :: duration
  reg_closed :: bool

definition NewMemoryRegistry :: "duration \<Rightarrow> memory_registry" where
  "NewMemoryRegistry ttl = \<lparr>reg_entries = [], reg_ttl = ttl, reg_closed = False\<rparr>"

definition normalizeEntry :: "memory_registry \<Rightarrow> route_entry \<Rightarrow> time \<Rightarrow> route_entry" where
  "normalizeEntry r e now =
    (let e = (if is_zero (re_UpdatedAt e) then e\<lparr>re_UpdatedAt := now\<rparr> else e)
     in if 0 < reg_ttl r then e\<lparr>re_ExpiresAt := now + reg_ttl r\<rparr> else e)"

definition RegistryBind ::
  "time \<Rightarrow> ctx \<Rightarrow> memory_registry \<Rightarrow> route_entry \<Rightarrow> registry_err option \<times> memory_registry" where
  "RegistryBind clock ctx r e = (case ctx of Some err \<Rightarrow> (Some (RegistryCtxErr err), r) | None \<Rightarrow>
     case validateRouteEntry e of Some err \<Rightarrow> (Some err, r) | None \<Rightarrow>
     if reg_closed r then (Some ErrClosed, r)
     else let e = normalizeEntry r e clock
          in (None, r\<lparr>reg_entries := put (Key e) e (reg_entries r)\<rparr>))"

definition RegistryUnbind ::
  "time \<Rightarrow> ctx \<Rightarrow> memory_registry \<Rightarrow> route_key \<Rightarrow> string \<Rightarrow> registry_err option \<times> memory_registry" where
  "RegistryUnbind clock ctx r key sessionID = (case ctx of Some err \<Rightarrow> (Some (RegistryCtxErr err), r) | None \<Rightarrow>
     case validateRouteKey key of Some err \<Rightarrow> (Some err, r) | None \<Rightarrow>
     if sessionID = '''' then (Some ErrInvalidRouteEntry, r)
     else if reg_closed r then (Some ErrClosed, r)
     else case map_of (reg_entries r) key of
       None \<Rightarrow> (None, r)
     | Some e \<Rightarrow>
         if Expired e clock then (None, r\<lparr>reg_entries := del key (reg_entries r)\<rparr>)
         else if re_SessionID e \<noteq> sessionID then (None, r)
         else (None, r\<lparr>reg_entries := del key (reg_entries r)\<rparr>))"

definition RegistryLookup ::
  "time \<Rightarrow> ctx \<Rightarrow> memory_registry \<Rightarrow> route_key \<Rightarrow> (registry_err + route_entry option) \<times> memory_registry" where
  "RegistryLookup clock ctx r key = (case ctx of Some err \<Rightarrow> (Inl (RegistryCtxErr err), r) | None \<Rightarrow>
     case validateRouteKey key of Some err \<Rightarrow> (Inl err, r) | None \<Rightarrow>
     if reg_closed r then (Inl ErrClosed, r)
     else case map_of (reg_entries r) key of
       None \<Rightarrow> (Inr None, r)
     | Some e \<Rightarrow>
         if Expired e clock then (Inr None, r\<lparr>reg_entries := del key (reg_entries r)\<rparr>)
         else (Inr (Some e), r))"

definition RegistryList ::
  "time \<Rightarrow> ctx \<Rightarrow> memory_registry \<Rightarrow> route_list_filter \<Rightarrow> (registry_err + route_list_result) \<times> memory_registry" where
  "RegistryList clock ctx r f = (case ctx of Some err \<Rightarrow> (Inl (RegistryCtxErr err), r) | None \<Rightarrow>
     if reg_closed r then (Inl ErrClosed, r)
     else let kept = filter (\<lambda>(key, e). \<not> Expired e clock) (reg_entries r);
              routes = sortRouteEntries (filter (\<lambda>e. routeEntryMatchesFilter e f) (vals kept));
              total = length routes;
              uniqueClients = uniqueRouteClientCount routes
          in (Inr \<lparr>rr_Total = total, rr_UniqueClients = uniqueClients, rr_Routes = limit_slice (rl_Limit f) routes\<rparr>,
              r\<lparr>reg_entries := kept\<rparr>))"

text \<open>\<open>clock\<close> is read for the expiry test, \<open>clock'\<close> for the refreshed entry.\<close>

definition RegistryTouch ::
  "time \<Rightarrow> time \<Rightarrow> ctx \<Rightarrow> memory_registry \<Rightarrow> route_entry \<Rightarrow> registry_err option \<times> memory_registry" where
  "RegistryTouch clock clock' ctx r e = (case ctx of Some err \<Rightarrow> (Some (RegistryCtxErr err), r) | None \<Rightarrow>
     case validateRouteEntry e of Some err \<Rightarrow> (Some err, r) | None \<Rightarrow>
     if reg_closed r then (Some ErrClosed, r)
     else case map_of (reg_entries r) (Key e) of
       None \<Rightarrow> (Some ErrRouteNotFound, r)
     | Some current \<Rightarrow>
         if Expired current clock
         then (Some ErrRouteNotFound, r\<lparr>reg_entries := del (Key e) (reg_entries r)\<rparr>)
         else if re_SessionID current \<noteq> re_SessionID e then (Some ErrSessionMismatch, r)
         else (None, r\<lparr>reg_entries := put (Key e) (normalizeEntry r e clock') (reg_entries r)\<rparr>))"

definition RegistryPing :: "ctx \<Rightarrow> memory_registry \<Rightarrow> registry_err option" where
  "RegistryPing ctx r = (case ctx of Some err \<Rightarrow> Some (RegistryCtxErr err)
     | None \<Rightarrow> if reg_closed r then Some ErrClosed else None)"

definition RegistryClose :: "memory_registry \<Rightarrow> memory_registry" where
  "RegistryClose r = r\<lparr>reg_closed := True, reg_entries := []\<rparr>"
section \<open>What the registry promises\<close>

text \<open>The routes that are visible at a point in time, and the laws a client of the registry relies on.\<close>

definition live :: "memory_registry \<Rightarrow> time \<Rightarrow> route_key \<Rightarrow> route_entry option" where
  "live r now key = (case map_of (reg_entries r) key of
     None \<Rightarrow> None | Some e \<Rightarrow> if Expired e now then None else Some e)"

locale online_registry =
  fixes live :: "'r \<Rightarrow> time \<Rightarrow> route_key \<Rightarrow> route_entry option"
    and bind :: "time \<Rightarrow> 'r \<Rightarrow> route_entry \<Rightarrow> registry_err option \<times> 'r"
    and unbind :: "time \<Rightarrow> 'r \<Rightarrow> route_key \<Rightarrow> string \<Rightarrow> registry_err option \<times> 'r"
    and lookup :: "time \<Rightarrow> 'r \<Rightarrow> route_key \<Rightarrow> (registry_err + route_entry option) \<times> 'r"
  assumes lookup_live: "lookup t r k = (Inr res, r') \<Longrightarrow> res = live r t k"
    and lookup_keeps: "t \<le> t' \<Longrightarrow> live (snd (lookup t r k)) t' k' = live r t' k'"
    and unbind_live: "unbind t r k sid = (None, r') \<Longrightarrow> t \<le> t' \<Longrightarrow> live r' t' k' =
          (if k' = k \<and> map_option re_SessionID (live r t' k') = Some sid then None else live r t' k')"
    and unbind_error: "unbind t r k sid = (Some err, r') \<Longrightarrow> r' = r"
    and bind_other: "bind t r e = (None, r') \<Longrightarrow> k' \<noteq> Key e \<Longrightarrow> live r' t' k' = live r t' k'"
    and bind_owner: "bind t r e = (None, r') \<Longrightarrow> live r' t' (Key e) = Some e' \<Longrightarrow> re_SessionID e' = re_SessionID e"
begin

text \<open>An unbind by a session that does not own the route changes nothing that is visible.\<close>

lemma foreign_unbind:
  assumes "t \<le> t'" "map_option re_SessionID (live r t' k) \<noteq> Some sid"
  shows "live (snd (unbind t r k sid)) t' k' = live r t' k'"
proof -
  obtain res r' where u: "unbind t r k sid = (res, r')" by fastforce
  show ?thesis
  proof (cases res)
    case None
    then show ?thesis using unbind_live[of t r k sid r' t' k'] u assms by auto
  next
    case (Some err)
    then show ?thesis using unbind_error[of t r k sid err r'] u by simp
  qed
qed

text \<open>The late unbind of a replaced session does not remove the route of the session that replaced it.\<close>

lemma late_unbind:
  assumes "bind t r e = (None, r1)" "sid \<noteq> re_SessionID e" "t2 \<le> t3"
  shows "live (snd (unbind t2 r1 (Key e) sid)) t3 (Key e) = live r1 t3 (Key e)"
proof (rule foreign_unbind[OF assms(3)])
  show "map_option re_SessionID (live r1 t3 (Key e)) \<noteq> Some sid"
    using bind_owner[OF assms(1)] assms(2) by (cases "live r1 t3 (Key e)") auto
qed

end

lemma Expired_mono: "Expired e t \<Longrightarrow> t \<le> t' \<Longrightarrow> Expired e t'"
  by (auto simp: Expired_def before_def)

lemma normalizeEntry_fields [simp]:
  "re_SessionID (normalizeEntry r e t) = re_SessionID e" "Key (normalizeEntry r e t) = Key e"
  by (simp_all add: normalizeEntry_def Key_def)

lemma live_del_expired:
  "map_of (reg_entries r) k = Some e \<Longrightarrow> Expired e t \<Longrightarrow> t \<le> t' \<Longrightarrow>
   live (r\<lparr>reg_entries := del k (reg_entries r)\<rparr>) t' k' = live r t' k'"
  using Expired_mono by (auto simp: live_def)

lemma live_update:
  "live (r\<lparr>reg_entries := put k e (reg_entries r)\<rparr>) t k' = (if k' = k then if Expired e t then None else Some e else live r t k')"
  "live (r\<lparr>reg_entries := del k (reg_entries r)\<rparr>) t k' = (if k' = k then None else live r t k')"
  by (auto simp: live_def)

interpretation mem_reg: online_registry live "\<lambda>t. RegistryBind t None" "\<lambda>t. RegistryUnbind t None" "\<lambda>t. RegistryLookup t None"
proof (unfold_locales, goal_cases)
  case (1 t r k res r')
  then show ?case
    by (auto simp: RegistryLookup_def live_def split: option.splits if_splits)
next
  case (2 t t' r k k')
  then show ?case
    by (auto simp: RegistryLookup_def live_del_expired split: option.split)
next
  case (3 t r k sid r' t' k')
  then show ?case
    using live_del_expired[of r k _ t t' k'] Expired_mono[of _ t t']
    by (auto simp: RegistryUnbind_def live_update split: option.splits if_splits) (auto simp: live_def split: if_splits)
next
  case (4 t r k sid err r')
  then show ?case
    by (auto simp: RegistryUnbind_def split: option.splits if_splits)
next
  case (5 t r e r' k' t')
  then show ?case
    by (auto simp: RegistryBind_def live_update Let_def split: option.splits if_splits)
next
  case (6 t r e r' t' e')
  then show ?case
    by (auto simp: RegistryBind_def live_update Let_def split: option.splits if_splits)
qed

section \<open>The registry over runs\<close>

datatype registry_op =
    RBind time ctx route_entry
  | RUnbind time ctx route_key string
  | RLookup time ctx route_key
  | RList time ctx route_list_filter
  | RTouch time time ctx route_entry
  | RClose

fun registry_step :: "registry_op \<Rightarrow> memory_registry \<Rightarrow> memory_registry" where
  "registry_step (RBind t ctx e) r = snd (RegistryBind t ctx r e)"
| "registry_step (RUnbind t ctx k sid) r = snd (RegistryUnbind t ctx r k sid)"
| "registry_step (RLookup t ctx k) r = snd (RegistryLookup t ctx r k)"
| "registry_step (RList t ctx f) r = snd (RegistryList t ctx r f)"
| "registry_step (RTouch t t' ctx e) r = snd (RegistryTouch t t' ctx r e)"
| "registry_step RClose r = RegistryClose r"

definition registry_run :: "registry_op list \<Rightarrow> memory_registry \<Rightarrow> memory_registry" where
  "registry_run ops r = fold registry_step ops r"

text \<open>
  \<open>foreign now k sid oper\<close>: the operation reads the clock no later than \<open>now\<close> and is not one by which the
  session \<open>sid\<close>, or whoever takes its place, changes the route of \<open>k\<close>.
\<close>

fun foreign :: "time \<Rightarrow> route_key \<Rightarrow> string \<Rightarrow> registry_op \<Rightarrow> bool" where
  "foreign now k sid (RBind t ctx e) \<longleftrightarrow> t \<le> now \<and> Key e \<noteq> k"
| "foreign now k sid (RUnbind t ctx k' sid') \<longleftrightarrow> t \<le> now \<and> (k' = k \<longrightarrow> sid' \<noteq> sid)"
| "foreign now k sid (RLookup t ctx k') \<longleftrightarrow> t \<le> now"
| "foreign now k sid (RList t ctx f) \<longleftrightarrow> t \<le> now"
| "foreign now k sid (RTouch t t' ctx e) \<longleftrightarrow> t \<le> now \<and> (Key e = k \<longrightarrow> re_SessionID e \<noteq> sid)"
| "foreign now k sid RClose \<longleftrightarrow> False"

definition registry_inv :: "memory_registry \<Rightarrow> bool" where
  "registry_inv r \<longleftrightarrow> wf_map (reg_entries r) \<and> (reg_closed r \<longrightarrow> reg_entries r = [])
     \<and> (\<forall>k e. map_of (reg_entries r) k = Some e \<longrightarrow> Key e = k \<and> fst k \<noteq> '''' \<and> snd k \<noteq> ''''
          \<and> re_SessionID e \<noteq> '''' \<and> re_GatewayNode e \<noteq> '''')"

lemma wf_map_filter: "wf_map m \<Longrightarrow> wf_map (filter P m)"
  by (auto simp: wf_map_def distinct_map_filter)

lemma map_of_filter_value:
  "wf_map m \<Longrightarrow> map_of (filter (\<lambda>(k, v). P v) m) k = (case map_of m k of None \<Rightarrow> None | Some v \<Rightarrow> if P v then Some v else None)"
  by (induction m) (auto simp: wf_map_def map_of_eq_None_iff[symmetric] image_iff split: option.splits)

lemma validateRouteEntry_None:
  "validateRouteEntry e = None \<longleftrightarrow> re_ClientID e \<noteq> '''' \<and> re_DeviceID e \<noteq> '''' \<and> re_SessionID e \<noteq> '''' \<and> re_GatewayNode e \<noteq> ''''"
  by (auto simp: validateRouteEntry_def validateRouteKey_def Key_def)

lemma normalizeEntry_gateway [simp]: "re_GatewayNode (normalizeEntry r e t) = re_GatewayNode e"
  by (simp add: normalizeEntry_def)

lemma registry_inv_del: "registry_inv r \<Longrightarrow> registry_inv (r\<lparr>reg_entries := del k (reg_entries r)\<rparr>)"
  by (simp add: registry_inv_def)

lemma registry_inv_put:
  assumes "registry_inv r" "\<not> reg_closed r" "validateRouteEntry e = None" "Key e' = Key e"
    and "re_SessionID e' = re_SessionID e" "re_GatewayNode e' = re_GatewayNode e"
  shows "registry_inv (r\<lparr>reg_entries := put (Key e) e' (reg_entries r)\<rparr>)"
proof -
  have "fst (Key e) \<noteq> ''''" "snd (Key e) \<noteq> ''''" "re_SessionID e \<noteq> ''''" "re_GatewayNode e \<noteq> ''''"
    using assms(3) by (simp_all add: validateRouteEntry_None Key_def)
  then show ?thesis
    using assms unfolding registry_inv_def by (auto simp: Key_def)
qed

lemma registry_inv_step: "registry_inv r \<Longrightarrow> registry_inv (registry_step oper r)"
proof (cases oper)
  case (RBind t ctx e)
  assume "registry_inv r"
  then show ?thesis
    using RBind by (simp add: RegistryBind_def Let_def registry_inv_put split: option.split)
next
  case (RUnbind t ctx k sid)
  assume "registry_inv r"
  then show ?thesis
    using RUnbind by (simp add: RegistryUnbind_def registry_inv_del split: option.split)
next
  case (RLookup t ctx k)
  assume "registry_inv r"
  then show ?thesis
    using RLookup by (simp add: RegistryLookup_def registry_inv_del split: option.split)
next
  case (RList t ctx f)
  assume inv: "registry_inv r"
  then have "registry_inv (r\<lparr>reg_entries := filter (\<lambda>(key, e). \<not> Expired e t) (reg_entries r)\<rparr>)"
    unfolding registry_inv_def by (simp add: wf_map_filter map_of_filter_value split: option.split)
  then show ?thesis
    using RList inv by (simp add: RegistryList_def Let_def split: option.split)
next
  case (RTouch t t' ctx e)
  assume "registry_inv r"
  then show ?thesis
    using RTouch by (simp add: RegistryTouch_def registry_inv_put registry_inv_del split: option.split)
next
  case RClose
  then show ?thesis
    by (simp add: RegistryClose_def registry_inv_def)
qed

lemma live_filter:
  "registry_inv r \<Longrightarrow> t \<le> now \<Longrightarrow>
   live (r\<lparr>reg_entries := filter (\<lambda>(key, e). \<not> Expired e t) (reg_entries r)\<rparr>) now k = live r now k"
  using Expired_mono[of _ t now]
  by (auto simp: live_def registry_inv_def map_of_filter_value split: option.split)

text \<open>A foreign operation changes nothing that can be seen of the route.\<close>

lemma foreign_step:
  assumes inv: "registry_inv r" and "foreign now k sid oper" "live r now k = Some e" "re_SessionID e = sid"
  shows "live (registry_step oper r) now k = Some e"
proof (cases oper)
  case (RBind t ctx e')
  then show ?thesis
    using assms by (auto simp: RegistryBind_def live_update Let_def split: option.split)
next
  case (RUnbind t ctx k' sid')
  then show ?thesis
  proof (cases ctx)
    case None
    show ?thesis
    proof (cases "k' = k")
      case True
      then have "map_option re_SessionID (live r now k) \<noteq> Some sid'"
        using assms RUnbind by auto
      from mem_reg.foreign_unbind[OF _ this, of t k] True RUnbind None assms show ?thesis by simp
    next
      case False
      then show ?thesis
        using assms RUnbind None by (auto simp: RegistryUnbind_def live_update split: option.split)
    qed
  qed (use RUnbind assms in \<open>simp add: RegistryUnbind_def\<close>)
next
  case (RLookup t ctx k')
  then show ?thesis
    using mem_reg.lookup_keeps[of t now r k' k] assms by (cases ctx) (auto simp: RegistryLookup_def)
next
  case (RList t ctx f)
  then show ?thesis
    using assms live_filter[OF inv, of t now k] by (simp add: RegistryList_def Let_def split: option.split)
next
  case (RTouch t t' ctx e')
  have "live (r\<lparr>reg_entries := del (Key e') (reg_entries r)\<rparr>) now k = Some e"
    if "map_of (reg_entries r) (Key e') = Some c" "Expired c t" for c
    using live_del_expired[OF that, of now k] RTouch assms by simp
  moreover have "Key e' \<noteq> k" if "map_of (reg_entries r) (Key e') = Some c" "re_SessionID c = re_SessionID e'" for c
    using that RTouch assms by (auto simp: live_def split: if_splits)
  ultimately show ?thesis
    using RTouch assms(3) by (auto simp: RegistryTouch_def live_update split: option.split)
next
  case RClose
  then show ?thesis using assms by simp
qed

lemma registry_run_inv: "registry_inv r \<Longrightarrow> registry_inv (registry_run ops r)"
  by (induction ops arbitrary: r) (simp_all add: registry_run_def registry_inv_step)

lemma foreign_run:
  "registry_inv r \<Longrightarrow> \<forall>oper\<in>set ops. foreign now k (re_SessionID e) oper \<Longrightarrow> live r now k = Some e \<Longrightarrow>
   live (registry_run ops r) now k = Some e"
proof (induction ops arbitrary: r)
  case (Cons oper ops)
  then have "live (registry_step oper r) now k = Some e"
    by (intro foreign_step[OF Cons.prems(1)]) auto
  with Cons.IH[OF registry_inv_step[OF Cons.prems(1)]] Cons.prems(2) show ?case
    by (simp add: registry_run_def)
qed (simp add: registry_run_def)

section \<open>Properties\<close>

inductive registry_reachable :: "memory_registry \<Rightarrow> bool" where
  registry_new: "registry_reachable (NewMemoryRegistry ttl)"
| registry_op: "registry_reachable r \<Longrightarrow> registry_reachable (registry_step oper r)"

lemma registry_inv_New: "registry_inv (NewMemoryRegistry ttl)"
  by (simp add: NewMemoryRegistry_def registry_inv_def)

lemma registry_reachable_inv: "registry_reachable r \<Longrightarrow> registry_inv r"
  by (induction rule: registry_reachable.induct) (simp_all add: registry_inv_step registry_inv_New)


definition sample_route :: "string \<Rightarrow> string \<Rightarrow> route_entry" where
  "sample_route sid node = \<lparr>re_ClientID = ''c'', re_DeviceID = ''d'', re_SessionID = sid, re_GatewayNode = node,
     re_InternalAddr = ''10.0.0.1'', re_TokenID = '''', re_UpdatedAt = zero_time, re_ExpiresAt = zero_time\<rparr>"


end
