(* ===== verification/Go_Float.thy ===== *)
theory Go_Float
  imports Complex_Main Prelude "HOL-Library.Log_Nat"
begin

text \<open>
  Go's \<^verbatim>\<open>float64\<close>: the finite values are rationals, every operation is the exact operation followed
  by rounding to the nearest representable value, ties to even (IEEE 754 binary64, subnormals
  included).  The sign of zero is not kept: nothing in the modelled code observes it.  The locale
  \<^verbatim>\<open>rounding\<close> is what the component proofs use of it; the concrete rounding is an instance.
\<close>

section \<open>Values and rounding\<close>

datatype float64 = NaN | PosInf | NegInf | Fin rat

definition floor_log2 :: "rat \<Rightarrow> int" where
  "floor_log2 x = (let (p, q) = quotient_of x; k = bitlen p - bitlen q
     in if 2 powi k \<le> x then k else k - 1)"

definition round_even :: "rat \<Rightarrow> int" where
  "round_even x = (let f = \<lfloor>x\<rfloor>; d = x - of_int f
     in if d < 1 / 2 \<or> d = 1 / 2 \<and> even f then f else f + 1)"

definition ulp_exp :: "rat \<Rightarrow> int" where
  "ulp_exp x = max (- 1074) (floor_log2 x - 52)"

definition round_pos :: "rat \<Rightarrow> rat" where
  "round_pos x = (let e = ulp_exp x in of_int (round_even (x / 2 powi e)) * 2 powi e)"

definition round_rat :: "rat \<Rightarrow> rat" where
  "round_rat x = (if x = 0 then 0 else if 0 < x then round_pos x else - round_pos (- x))"

definition fl :: "rat \<Rightarrow> float64" where
  "fl x = (let r = round_rat x in
     if 2 ^ 1024 \<le> r then PosInf else if r \<le> - (2 ^ 1024) then NegInf else Fin r)"

section \<open>Operations\<close>

fun f_le :: "float64 \<Rightarrow> float64 \<Rightarrow> bool" where
  "f_le NaN _ = False"
| "f_le _ NaN = False"
| "f_le NegInf _ = True"
| "f_le _ PosInf = True"
| "f_le (Fin x) (Fin y) = (x \<le> y)"
| "f_le _ _ = False"

fun f_lt :: "float64 \<Rightarrow> float64 \<Rightarrow> bool" where
  "f_lt NaN _ = False"
| "f_lt _ NaN = False"
| "f_lt NegInf y = (y \<noteq> NegInf)"
| "f_lt x PosInf = (x \<noteq> PosInf)"
| "f_lt (Fin x) (Fin y) = (x < y)"
| "f_lt _ _ = False"

definition is_nan :: "float64 \<Rightarrow> bool" where "is_nan x \<longleftrightarrow> x = NaN"
definition is_inf :: "float64 \<Rightarrow> bool" where "is_inf x \<longleftrightarrow> x = PosInf \<or> x = NegInf"

definition f_neg :: "float64 \<Rightarrow> float64" where
  "f_neg x = (case x of NaN \<Rightarrow> NaN | PosInf \<Rightarrow> NegInf | NegInf \<Rightarrow> PosInf | Fin r \<Rightarrow> Fin (- r))"

fun f_add :: "float64 \<Rightarrow> float64 \<Rightarrow> float64" where
  "f_add (Fin x) (Fin y) = fl (x + y)"
| "f_add NaN _ = NaN"
| "f_add _ NaN = NaN"
| "f_add PosInf NegInf = NaN"
| "f_add NegInf PosInf = NaN"
| "f_add PosInf _ = PosInf"
| "f_add _ PosInf = PosInf"
| "f_add _ _ = NegInf"

definition f_sub :: "float64 \<Rightarrow> float64 \<Rightarrow> float64" where
  "f_sub x y = f_add x (f_neg y)"

definition inf_signed :: "bool \<Rightarrow> float64" where
  "inf_signed pos = (if pos then PosInf else NegInf)"

fun f_mul :: "float64 \<Rightarrow> float64 \<Rightarrow> float64" where
  "f_mul (Fin x) (Fin y) = fl (x * y)"
| "f_mul NaN _ = NaN"
| "f_mul _ NaN = NaN"
| "f_mul PosInf (Fin y) = (if y = 0 then NaN else inf_signed (0 < y))"
| "f_mul NegInf (Fin y) = (if y = 0 then NaN else inf_signed (y < 0))"
| "f_mul (Fin x) PosInf = (if x = 0 then NaN else inf_signed (0 < x))"
| "f_mul (Fin x) NegInf = (if x = 0 then NaN else inf_signed (x < 0))"
| "f_mul PosInf y = y"
| "f_mul NegInf y = f_neg y"

text \<open>Division; the divisors in the modelled code are never zero, so \<open>0/0\<close> and \<open>x/0\<close> follow IEEE
  with an unsigned zero.\<close>

fun f_div :: "float64 \<Rightarrow> float64 \<Rightarrow> float64" where
  "f_div (Fin x) (Fin y) =
     (if y = 0 then (if x = 0 then NaN else inf_signed (0 < x)) else fl (x / y))"
| "f_div NaN _ = NaN"
| "f_div _ NaN = NaN"
| "f_div (Fin x) _ = Fin 0"
| "f_div PosInf (Fin y) = inf_signed (0 \<le> y)"
| "f_div NegInf (Fin y) = inf_signed (y < 0)"
| "f_div _ _ = NaN"

text \<open>
  Conversions.  \<^verbatim>\<open>float64(i)\<close> rounds; \<^verbatim>\<open>int64(f)\<close> truncates towards zero, and for a value outside
  the range its result is implementation-specific in Go: \<open>None\<close>.
\<close>

definition of_int64 :: "int \<Rightarrow> float64" where
  "of_int64 i = fl (of_int i)"

definition trunc_rat :: "rat \<Rightarrow> int" where
  "trunc_rat x = (if 0 \<le> x then \<lfloor>x\<rfloor> else \<lceil>x\<rceil>)"

definition to_int64 :: "float64 \<Rightarrow> int option" where
  "to_int64 x = (case x of Fin r \<Rightarrow>
       let i = trunc_rat r in if min_int64 \<le> i \<and> i \<le> max_int64 then Some i else None
     | _ \<Rightarrow> None)"

definition f_ceil :: "float64 \<Rightarrow> float64" where
  "f_ceil x = (case x of Fin r \<Rightarrow> Fin (of_int \<lceil>r\<rceil>) | _ \<Rightarrow> x)"

definition f_min :: "float64 \<Rightarrow> float64 \<Rightarrow> float64" where
  "f_min x y = (if x = NaN \<or> y = NaN then NaN else if f_lt x y then x else y)"

section \<open>The rounding is monotone, idempotent and exact on small integers\<close>

lemma floor_log2_bounds:
  assumes "0 < x"
  shows "2 powi floor_log2 x \<le> x" "x < 2 powi (floor_log2 x + 1)"
proof -
  obtain p q where pq: "quotient_of x = (p, q)" by fastforce
  have q: "0 < q" using pq by (rule quotient_of_denom_pos)
  have x: "x = of_int p / of_int q" using pq by (rule quotient_of_div)
  with assms q have p: "0 < p" by (simp add: zero_less_divide_iff)
  have pow: "(of_int (2 ^ n) :: rat) = 2 powi int n" for n by simp
  have b: "2 powi (bitlen z - 1) \<le> (of_int z :: rat) \<and> (of_int z :: rat) < 2 powi bitlen z" if "0 < z" for z
  proof -
    have "1 \<le> bitlen z" using that bitlen_nonneg[of z] bitlen_eq_zero_iff[of z] by linarith
    then have "2 powi (bitlen z - 1) = (of_int (2 ^ nat (bitlen z - 1)) :: rat)"
        "2 powi bitlen z = (of_int (2 ^ nat (bitlen z)) :: rat)"
      by (simp_all add: power_int_def)
    with bitlen_bounds[OF that] show ?thesis
      by (simp only: of_int_le_iff of_int_less_iff)
  qed
  have lo: "2 powi (bitlen p - bitlen q - 1) \<le> x"
  proof -
    have "2 powi (bitlen p - bitlen q - 1) * (of_int q :: rat) \<le> 2 powi (bitlen p - bitlen q - 1) * 2 powi bitlen q"
      using b[OF q] by (intro mult_left_mono) auto
    also have "\<dots> = 2 powi (bitlen p - 1)" by (simp flip: power_int_add)
    also have "\<dots> \<le> of_int p" using b[OF p] by simp
    finally show ?thesis using q by (simp add: x pos_le_divide_eq)
  qed
  have hi: "x < 2 powi (bitlen p - bitlen q + 1)"
  proof -
    have "(of_int p :: rat) < 2 powi bitlen p" using b[OF p] by simp
    also have "\<dots> = 2 powi (bitlen p - bitlen q + 1) * 2 powi (bitlen q - 1)" by (simp flip: power_int_add)
    also have "\<dots> \<le> 2 powi (bitlen p - bitlen q + 1) * of_int q"
      using b[OF q] by (intro mult_left_mono) auto
    finally show ?thesis using q by (simp add: x pos_divide_less_eq)
  qed
  show "2 powi floor_log2 x \<le> x" "x < 2 powi (floor_log2 x + 1)"
    using lo hi by (auto simp: floor_log2_def pq Let_def)
qed

lemma powi_less_D: "2 powi a < (2 powi b :: rat) \<Longrightarrow> a < b"
  using power_int_increasing[of b a "2 :: rat"] by force

lemma floor_log2_mono: "0 < x \<Longrightarrow> x \<le> y \<Longrightarrow> floor_log2 x \<le> floor_log2 y"
  using powi_less_D[of "floor_log2 x" "floor_log2 y + 1"] floor_log2_bounds[of x] floor_log2_bounds[of y]
  by force

lemma floor_log2_less: "0 < x \<Longrightarrow> x < 2 powi k \<Longrightarrow> floor_log2 x < k"
  using powi_less_D[of "floor_log2 x" k] floor_log2_bounds(1)[of x] by force

lemma round_even_of_int [simp]: "round_even (of_int i) = i"
  by (simp add: round_even_def)

lemma round_even_mono:
  assumes "x \<le> y"
  shows "round_even x \<le> round_even y"
proof (cases "\<lfloor>x\<rfloor> = \<lfloor>y\<rfloor>")
  case True
  then show ?thesis
    using assms by (auto simp: round_even_def Let_def)
next
  case False
  then have "\<lfloor>x\<rfloor> + 1 \<le> \<lfloor>y\<rfloor>"
    using floor_mono[OF assms] by linarith
  then show ?thesis
    by (auto simp: round_even_def Let_def)
qed

lemma ulp_exp_ge: "- 1074 \<le> ulp_exp x" "floor_log2 x - 52 \<le> ulp_exp x"
  by (simp_all add: ulp_exp_def)

lemma round_pos_le:
  assumes "0 < x"
  shows "round_pos x \<le> 2 powi (ulp_exp x + 53)" "0 \<le> round_even (x / 2 powi ulp_exp x)"
    "round_even (x / 2 powi ulp_exp x) \<le> 2 ^ 53"
proof -
  have "x < 2 powi (floor_log2 x + 1)" using floor_log2_bounds(2)[OF assms] .
  also have "\<dots> \<le> 2 powi (ulp_exp x + 53)"
    using ulp_exp_ge(2)[of x] by (intro power_int_increasing) auto
  finally have "x / 2 powi ulp_exp x \<le> 2 powi 53"
    by (simp add: power_int_add divide_le_eq mult.commute)
  then have "x / 2 powi ulp_exp x \<le> of_int (2 ^ 53)" by simp
  from round_even_mono[OF this] show le: "round_even (x / 2 powi ulp_exp x) \<le> 2 ^ 53"
    by (simp only: round_even_of_int)
  have "of_int 0 \<le> x / 2 powi ulp_exp x" using assms by simp
  from round_even_mono[OF this] show "0 \<le> round_even (x / 2 powi ulp_exp x)"
    by (simp only: round_even_of_int)
  have "(of_int (round_even (x / 2 powi ulp_exp x)) :: rat) \<le> of_int (2 ^ 53)"
    using le by (simp only: of_int_le_iff)
  then show "round_pos x \<le> 2 powi (ulp_exp x + 53)"
    by (simp add: round_pos_def Let_def power_int_add mult.commute)
qed

lemma round_pos_ge:
  assumes "0 < x" "ulp_exp x = floor_log2 x - 52"
  shows "2 powi (ulp_exp x + 52) \<le> round_pos x"
proof -
  have "2 powi (ulp_exp x + 52) \<le> x"
    using floor_log2_bounds(1)[OF assms(1)] assms(2) by simp
  then have "of_int (2 ^ 52) \<le> x / 2 powi ulp_exp x"
    by (simp add: power_int_add le_divide_eq mult.commute)
  from round_even_mono[OF this] have "2 ^ 52 \<le> round_even (x / 2 powi ulp_exp x)"
    by (simp only: round_even_of_int)
  then have "(of_int (2 ^ 52) :: rat) \<le> of_int (round_even (x / 2 powi ulp_exp x))"
    by (simp only: of_int_le_iff)
  then show ?thesis
    by (simp add: round_pos_def Let_def power_int_add mult.commute)
qed

lemma round_pos_mono:
  assumes "0 < x" "x \<le> y"
  shows "round_pos x \<le> round_pos y"
proof -
  have e: "ulp_exp x \<le> ulp_exp y"
    using floor_log2_mono[OF assms] by (simp add: ulp_exp_def)
  show ?thesis
  proof (cases "ulp_exp x = ulp_exp y")
    case True
    then have "round_even (x / 2 powi ulp_exp x) \<le> round_even (y / 2 powi ulp_exp y)"
      using assms by (intro round_even_mono) (simp add: divide_right_mono)
    with True show ?thesis
      by (simp add: round_pos_def Let_def)
  next
    case False
    then have "ulp_exp x + 1 \<le> ulp_exp y" "ulp_exp y = floor_log2 y - 52"
      using e ulp_exp_ge(1)[of x] by (auto simp: ulp_exp_def max_def split: if_splits)
    then have "round_pos x \<le> 2 powi (ulp_exp x + 53)" "2 powi (ulp_exp x + 53) \<le> (2 powi (ulp_exp y + 52) :: rat)"
        "2 powi (ulp_exp y + 52) \<le> round_pos y"
      using round_pos_le(1)[of x] round_pos_ge[of y] assms by (auto intro!: power_int_increasing)
    then show ?thesis by linarith
  qed
qed

lemma round_pos_scaled:
  assumes "0 < m" "ulp_exp (of_int m * 2 powi e) \<le> e"
  shows "round_pos (of_int m * 2 powi e) = of_int m * 2 powi e"
proof -
  define u where "u = ulp_exp (of_int m * 2 powi e)"
  have "2 powi e = (of_int (2 ^ nat (e - u)) :: rat) * 2 powi u"
    using assms(2) by (simp add: u_def flip: power_int_add power_int_of_nat)
  then have "of_int m * 2 powi e = of_int (m * 2 ^ nat (e - u)) * (2 powi u :: rat)"
    by simp
  then show ?thesis
    unfolding round_pos_def u_def[symmetric] Let_def
    by (metis nonzero_mult_div_cancel_right power_int_eq_0_iff round_even_of_int zero_neq_numeral)
qed

lemma round_pos_exact:
  assumes "0 < m" "m \<le> 2 ^ 53" "- 1074 \<le> e"
  shows "round_pos (of_int m * 2 powi e) = of_int m * 2 powi e"
proof (cases "m = 2 ^ 53")
  case True
  have "of_int m * 2 powi e = of_int (2 ^ 52) * (2 powi (e + 1) :: rat)"
    by (simp add: True power_int_add)
  moreover have "ulp_exp (of_int (2 ^ 52) * 2 powi (e + 1)) \<le> e + 1"
    using floor_log2_less[of "2 powi (e + 53)" "e + 54"] assms(3)
    by (simp add: ulp_exp_def power_int_add mult.commute)
  ultimately show ?thesis
    using round_pos_scaled[of "2 ^ 52" "e + 1"] by simp
next
  case False
  then have "(of_int m :: rat) < of_int (2 ^ 53)"
    using assms(2) by (simp only: of_int_less_iff)
  then have "of_int m * 2 powi e < (2 powi (e + 53) :: rat)"
    by (simp add: power_int_add mult.commute)
  then have "ulp_exp (of_int m * 2 powi e) \<le> e"
    using floor_log2_less[of "of_int m * 2 powi e" "e + 53"] assms(1,3) by (simp add: ulp_exp_def)
  then show ?thesis
    using assms(1) by (rule round_pos_scaled[rotated])
qed

lemma round_pos_nonneg: "0 < x \<Longrightarrow> 0 \<le> round_pos x"
  using round_pos_le(2)[of x] by (simp add: round_pos_def Let_def)

lemma round_pos_round_pos:
  assumes "0 < x" "0 < round_pos x"
  shows "round_pos (round_pos x) = round_pos x"
proof -
  have "0 < round_even (x / 2 powi ulp_exp x)"
    using zero_less_mult_pos2[of "of_int (round_even (x / 2 powi ulp_exp x))" "2 powi ulp_exp x :: rat"]
      assms(2) unfolding round_pos_def Let_def by simp
  then show ?thesis
    using round_pos_exact[OF _ round_pos_le(3)[OF assms(1)] ulp_exp_ge(1)] by (simp add: round_pos_def Let_def)
qed

lemma round_rat_minus: "round_rat (- x) = - round_rat x"
  by (simp add: round_rat_def)

lemma round_rat_mono:
  assumes "x \<le> y"
  shows "round_rat x \<le> round_rat y"
proof -
  consider "0 < x" | "y < 0" | "x \<le> 0" "0 \<le> y" by linarith
  then show ?thesis
  proof cases
    case 1
    with assms show ?thesis
      using round_pos_mono[of x y] by (simp add: round_rat_def)
  next
    case 2
    with assms show ?thesis
      using round_pos_mono[of "- y" "- x"] by (simp add: round_rat_def)
  next
    case 3
    then have "round_rat x \<le> 0" "0 \<le> round_rat y"
      using round_pos_nonneg[of y] round_pos_nonneg[of "- x"] by (auto simp: round_rat_def)
    then show ?thesis by linarith
  qed
qed

lemma round_rat_idem: "round_rat (round_rat x) = round_rat x"
proof -
  have pos: "round_rat (round_pos z) = round_pos z" if "0 < z" for z
    using round_pos_round_pos[OF that] round_pos_nonneg[OF that] by (auto simp: round_rat_def)
  show ?thesis
    using pos[of x] pos[of "- x"] round_rat_minus[of "round_pos (- x)"] by (auto simp: round_rat_def[of x] round_rat_def[of 0])
qed

lemma round_rat_int: "\<bar>i\<bar> \<le> 2 ^ 53 \<Longrightarrow> round_rat (of_int i) = of_int i"
  using round_pos_exact[of i 0] round_pos_exact[of "- i" 0] by (auto simp: round_rat_def)

section \<open>What the components use of rounding\<close>

locale rounding =
  fixes rnd :: "rat \<Rightarrow> rat"
  assumes rnd_mono: "x \<le> y \<Longrightarrow> rnd x \<le> rnd y"
    and rnd_idem: "rnd (rnd x) = rnd x"
    and rnd_int: "\<bar>i\<bar> \<le> 2 ^ 53 \<Longrightarrow> rnd (of_int i) = of_int i"
begin

lemma rnd_0: "rnd 0 = 0"
  using rnd_int[of 0] by simp

lemma rnd_nonneg: "0 \<le> x \<Longrightarrow> 0 \<le> rnd x"
  using rnd_mono[of 0 x] by (simp add: rnd_0)

lemma rnd_below: "rnd x < rnd y \<Longrightarrow> rnd x < y"
  using rnd_mono[of y "rnd x"] by (auto simp: rnd_idem not_le[symmetric])

lemma rnd_le_int: "x \<le> of_int i \<Longrightarrow> \<bar>i\<bar> \<le> 2 ^ 53 \<Longrightarrow> rnd x \<le> of_int i"
  using rnd_mono[of x "of_int i"] by (simp add: rnd_int)

lemma rnd_ge_int: "of_int i \<le> x \<Longrightarrow> \<bar>i\<bar> \<le> 2 ^ 53 \<Longrightarrow> of_int i \<le> rnd x"
  using rnd_mono[of "of_int i" x] by (simp add: rnd_int)

end

interpretation b64: rounding round_rat
  by unfold_locales (simp_all add: round_rat_mono round_rat_idem round_rat_int)

text \<open>An \<^verbatim>\<open>int64\<close> never overflows when converted.\<close>

lemma of_int64_Fin:
  assumes "min_int64 \<le> i" "i \<le> max_int64"
  shows "of_int64 i = Fin (round_rat (of_int i))"
proof -
  have p: "round_rat (2 ^ 63) = 2 ^ 63"
    using round_pos_exact[of 1 63] by (simp add: round_rat_def power_int_def)
  have "round_rat (of_int i) \<le> 2 ^ 63"
    using b64.rnd_mono[of "of_int i" "2 ^ 63"] assms(2) p by simp
  moreover have "- (2 ^ 63) \<le> round_rat (of_int i)"
    using b64.rnd_mono[of "- (2 ^ 63)" "of_int i"] assms(1) p round_rat_minus[of "2 ^ 63"] by simp
  ultimately show ?thesis
    by (auto simp: of_int64_def fl_def Let_def)
qed

lemma of_int64_small: "\<bar>i\<bar> \<le> 2 ^ 53 \<Longrightarrow> of_int64 i = Fin (of_int i)"
  using of_int64_Fin[of i] by (simp add: b64.rnd_int)

lemma fl_FinD: "fl x = Fin r \<Longrightarrow> r = round_rat x"
  by (auto simp: fl_def Let_def split: if_splits)

end
