(* ===== verification/Delivery_Policy.thy ===== *)
theory Delivery_Policy
  imports Go_Float
begin

text \<open>
  Delivery policies of \<^verbatim>\<open>internal/downlink/policy.go\<close>: the retry contract of one message class, the
  validated table of message id ranges, and the resolution of a message id to one policy.
\<close>

section \<open>Policies and rules\<close>

definition DefaultDeliveryPolicyName :: string where "DefaultDeliveryPolicyName = ''default''"

record delivery_policy =
  dp_Name :: string
  dp_MaxAttempts :: int
  dp_MaxAge :: duration
  dp_AckTimeout :: duration
  dp_InitialRetryDelay :: duration
  dp_BackoffMultiplier :: float64
  dp_MaxRetryDelay :: duration
  dp_RetryJitter :: duration

definition zero_policy :: delivery_policy where
  "zero_policy = \<lparr>dp_Name = '''', dp_MaxAttempts = 0, dp_MaxAge = 0, dp_AckTimeout = 0,
     dp_InitialRetryDelay = 0, dp_BackoffMultiplier = Fin 0, dp_MaxRetryDelay = 0, dp_RetryJitter = 0\<rparr>"

record policy_rule =
  pr_Policy :: delivery_policy
  pr_MsgIDMin :: "32 word"
  pr_MsgIDMax :: "32 word"

record policy_set =
  ps_default :: delivery_policy
  ps_rules :: "policy_rule list"
  ps_byName :: "(string, delivery_policy) gomap"

datatype policy_err =
    ErrPolicyName | ErrMaxAttempts | ErrMaxAge | ErrAckTimeout | ErrRetryDelay | ErrBackoffMultiplier
  | ErrMaxRetryDelay | ErrRetryJitter
  | ErrDefaultPolicyName | ErrReservedPolicyName | ErrDuplicatePolicyName | ErrMsgIDMin | ErrMsgIDMax
  | ErrRangeOverlap

definition policy_name_char :: "char \<Rightarrow> bool" where
  "policy_name_char c \<longleftrightarrow> c = CHR ''_'' \<or> c = CHR ''-'' \<or> CHR ''a'' \<le> c \<and> c \<le> CHR ''z''
     \<or> CHR ''0'' \<le> c \<and> c \<le> CHR ''9''"

definition validDeliveryPolicyName :: "string \<Rightarrow> bool" where
  "validDeliveryPolicyName name = (case name of
     [] \<Rightarrow> False
   | c # cs \<Rightarrow> \<not> (64 < length name \<or> c < CHR ''a'' \<or> CHR ''z'' < c) \<and> list_all policy_name_char cs)"

definition validateDeliveryPolicy :: "delivery_policy \<Rightarrow> policy_err option" where
  "validateDeliveryPolicy p =
    (if \<not> validDeliveryPolicyName (dp_Name p) then Some ErrPolicyName
     else if dp_MaxAttempts p \<le> 0 then Some ErrMaxAttempts
     else if dp_MaxAge p < 0 then Some ErrMaxAge
     else if dp_AckTimeout p \<le> 0 then Some ErrAckTimeout
     else if dp_InitialRetryDelay p \<le> 0 then Some ErrRetryDelay
     else if is_nan (dp_BackoffMultiplier p) \<or> is_inf (dp_BackoffMultiplier p)
          \<or> f_lt (dp_BackoffMultiplier p) (Fin 1) then Some ErrBackoffMultiplier
     else if dp_MaxRetryDelay p < dp_InitialRetryDelay p then Some ErrMaxRetryDelay
     else if dp_RetryJitter p < 0 then Some ErrRetryJitter
     else None)"

section \<open>Building the table\<close>

text \<open>One rule of the loop in \<^verbatim>\<open>NewDeliveryPolicySet\<close>: its name trimmed, its empty maximum filled in.\<close>

definition trim_rule_name :: "policy_rule \<Rightarrow> policy_rule" where
  "trim_rule_name r = r\<lparr>pr_Policy := (pr_Policy r)\<lparr>dp_Name := trim_space (dp_Name (pr_Policy r))\<rparr>\<rparr>"

definition fill_rule_max :: "policy_rule \<Rightarrow> policy_rule" where
  "fill_rule_max r = (if pr_MsgIDMax r = 0 then r\<lparr>pr_MsgIDMax := pr_MsgIDMin r\<rparr> else r)"

fun normalize_rules ::
  "(string, delivery_policy) gomap \<Rightarrow> policy_rule list
     \<Rightarrow> policy_err + (policy_rule list \<times> (string, delivery_policy) gomap)" where
  "normalize_rules byName [] = Inr ([], byName)"
| "normalize_rules byName (rule # rules) =
    (let rule = trim_rule_name rule; name = dp_Name (pr_Policy rule) in
     if name = DefaultDeliveryPolicyName then Inl ErrReservedPolicyName
     else case validateDeliveryPolicy (pr_Policy rule) of
       Some e \<Rightarrow> Inl e
     | None \<Rightarrow>
       if map_of byName name \<noteq> None then Inl ErrDuplicatePolicyName
       else if pr_MsgIDMin rule = 0 then Inl ErrMsgIDMin
       else let rule = fill_rule_max rule in
       if pr_MsgIDMax rule < pr_MsgIDMin rule then Inl ErrMsgIDMax
       else case normalize_rules (put name (pr_Policy rule) byName) rules of
         Inl e \<Rightarrow> Inl e
       | Inr (normalized, byName) \<Rightarrow> Inr (rule # normalized, byName))"

definition rule_lt :: "policy_rule \<Rightarrow> policy_rule \<Rightarrow> bool" where
  "rule_lt l r =
    (if pr_MsgIDMin l = pr_MsgIDMin r then
       if pr_MsgIDMax l = pr_MsgIDMax r then dp_Name (pr_Policy l) < dp_Name (pr_Policy r)
       else pr_MsgIDMax l < pr_MsgIDMax r
     else pr_MsgIDMin l < pr_MsgIDMin r)"

fun ranges_overlap :: "policy_rule list \<Rightarrow> bool" where
  "ranges_overlap (previous # current # rules) =
     (pr_MsgIDMin current \<le> pr_MsgIDMax previous \<or> ranges_overlap (current # rules))"
| "ranges_overlap _ = False"

definition NewDeliveryPolicySet ::
  "delivery_policy \<Rightarrow> policy_rule list \<Rightarrow> policy_err + policy_set" where
  "NewDeliveryPolicySet defaultPolicy rules =
    (let name = trim_space (dp_Name defaultPolicy);
         name = (if name = '''' then DefaultDeliveryPolicyName else name);
         defaultPolicy = defaultPolicy\<lparr>dp_Name := name\<rparr> in
     if name \<noteq> DefaultDeliveryPolicyName then Inl ErrDefaultPolicyName
     else case validateDeliveryPolicy defaultPolicy of
       Some e \<Rightarrow> Inl e
     | None \<Rightarrow> (case normalize_rules [(name, defaultPolicy)] rules of
         Inl e \<Rightarrow> Inl e
       | Inr (normalized, byName) \<Rightarrow>
           let normalized = sort_slice rule_lt normalized in
           if ranges_overlap normalized then Inl ErrRangeOverlap
           else Inr \<lparr>ps_default = defaultPolicy, ps_rules = normalized, ps_byName = byName\<rparr>))"

section \<open>Resolving\<close>

fun resolve_rules :: "delivery_policy \<Rightarrow> policy_rule list \<Rightarrow> 32 word \<Rightarrow> delivery_policy" where
  "resolve_rules dflt [] msgID = dflt"
| "resolve_rules dflt (rule # rules) msgID =
     (if msgID < pr_MsgIDMin rule then dflt
      else if msgID \<le> pr_MsgIDMax rule then pr_Policy rule
      else resolve_rules dflt rules msgID)"

definition Resolve :: "policy_set option \<Rightarrow> 32 word \<Rightarrow> delivery_policy" where
  "Resolve s msgID = (case s of None \<Rightarrow> zero_policy
     | Some s \<Rightarrow> resolve_rules (ps_default s) (ps_rules s) msgID)"

definition Policy :: "policy_set option \<Rightarrow> string \<Rightarrow> delivery_policy \<times> bool" where
  "Policy s name = (case s of None \<Rightarrow> (zero_policy, False)
     | Some s \<Rightarrow> (case map_of (ps_byName s) (trim_space name) of
         None \<Rightarrow> (zero_policy, False) | Some p \<Rightarrow> (p, True)))"

definition Default :: "policy_set option \<Rightarrow> delivery_policy" where
  "Default s = (case s of None \<Rightarrow> zero_policy | Some s \<Rightarrow> ps_default s)"

definition Rules :: "policy_set option \<Rightarrow> policy_rule list" where
  "Rules s = (case s of None \<Rightarrow> [] | Some s \<Rightarrow> ps_rules s)"

section \<open>The table is unambiguous\<close>

definition covers :: "32 word \<Rightarrow> policy_rule \<Rightarrow> bool" where
  "covers msgID r \<longleftrightarrow> pr_MsgIDMin r \<le> msgID \<and> msgID \<le> pr_MsgIDMax r"

definition normal_rule :: "policy_rule \<Rightarrow> policy_rule" where
  "normal_rule r = fill_rule_max (trim_rule_name r)"

text \<open>\<^verbatim>\<open>sort.Slice\<close> with this comparison has one result: names are unique.\<close>

interpretation rules: slice_order rule_lt "\<lambda>r. (pr_MsgIDMin r, pr_MsgIDMax r, dp_Name (pr_Policy r))"
  by unfold_locales (auto simp: rule_lt_def split: if_splits)

lemma normalize_rules_Inr:
  "normalize_rules byName rules = Inr (normalized, byName') \<Longrightarrow>
     normalized = map normal_rule rules
     \<and> (\<forall>r\<in>set normalized. pr_MsgIDMin r \<le> pr_MsgIDMax r \<and> 0 < pr_MsgIDMin r
          \<and> validateDeliveryPolicy (pr_Policy r) = None)
     \<and> (\<forall>r\<in>set normalized. map_of byName' (dp_Name (pr_Policy r)) = Some (pr_Policy r))
     \<and> (\<forall>k p. map_of byName k = Some p \<longrightarrow> map_of byName' k = Some p)"
proof (induction byName rules arbitrary: normalized byName' rule: normalize_rules.induct)
  case (2 byName rule rules)
  define r where "r = trim_rule_name rule"
  have n: "normal_rule rule = fill_rule_max r" "pr_Policy (fill_rule_max r) = pr_Policy r"
    by (simp_all add: normal_rule_def r_def fill_rule_max_def)
  obtain ns where r: "dp_Name (pr_Policy r) \<noteq> DefaultDeliveryPolicyName"
      "validateDeliveryPolicy (pr_Policy r) = None" "map_of byName (dp_Name (pr_Policy r)) = None"
      "pr_MsgIDMin r \<noteq> 0" "\<not> pr_MsgIDMax (fill_rule_max r) < pr_MsgIDMin (fill_rule_max r)"
    and ns: "normalize_rules (put (dp_Name (pr_Policy r)) (pr_Policy r) byName) rules = Inr (ns, byName')"
      "normalized = normal_rule rule # ns"
    using "2.prems"
    by (auto simp: Let_def r_def[symmetric] n split: if_splits option.splits sum.splits)
  have IH: "ns = map normal_rule rules
     \<and> (\<forall>r\<in>set ns. pr_MsgIDMin r \<le> pr_MsgIDMax r \<and> 0 < pr_MsgIDMin r
          \<and> validateDeliveryPolicy (pr_Policy r) = None)
     \<and> (\<forall>r\<in>set ns. map_of byName' (dp_Name (pr_Policy r)) = Some (pr_Policy r))
     \<and> (\<forall>k p. map_of (put (dp_Name (pr_Policy r)) (pr_Policy r) byName) k = Some p \<longrightarrow> map_of byName' k = Some p)"
    using "2.IH"[OF r_def refl r(1) r(2) _ r(4) refl r(5)] r(3) ns(1) n(2) by simp
  have "map_of byName k = Some p \<longrightarrow> map_of byName' k = Some p" for k p
    using IH r(3) by (cases "k = dp_Name (pr_Policy r)") auto
  moreover have "map_of byName' (dp_Name (pr_Policy r)) = Some (pr_Policy r)"
    using IH by simp
  moreover have "0 < pr_MsgIDMin (fill_rule_max r)"
    using r(4) by (simp add: fill_rule_max_def word_gt_0)
  ultimately show ?case
    using IH r ns(2) n by (simp add: not_less)
qed simp

lemma not_overlap_sorted:
  "\<not> ranges_overlap rs \<Longrightarrow> \<forall>r\<in>set rs. pr_MsgIDMin r \<le> pr_MsgIDMax r \<Longrightarrow>
   sorted_wrt (\<lambda>a b. pr_MsgIDMax a < pr_MsgIDMin b) rs"
proof (induction rs rule: ranges_overlap.induct)
  case (1 previous current rules)
  then have "sorted_wrt (\<lambda>a b. pr_MsgIDMax a < pr_MsgIDMin b) (current # rules)"
      "pr_MsgIDMax previous < pr_MsgIDMin current" "pr_MsgIDMin current \<le> pr_MsgIDMax current"
    by (auto simp: not_le)
  then show ?case
    by auto
qed simp_all

lemma filter_covers_Nil:
  "sorted_wrt (\<lambda>a b. pr_MsgIDMax a < pr_MsgIDMin b) (r # rs) \<Longrightarrow> msgID \<le> pr_MsgIDMax r \<Longrightarrow>
   filter (covers msgID) rs = []"
  by (auto simp: filter_empty_conv covers_def)

lemma resolve_rules_filter:
  "sorted_wrt (\<lambda>a b. pr_MsgIDMax a < pr_MsgIDMin b) rs \<Longrightarrow> \<forall>r\<in>set rs. pr_MsgIDMin r \<le> pr_MsgIDMax r \<Longrightarrow>
   resolve_rules dflt rs msgID = (case filter (covers msgID) rs of [] \<Rightarrow> dflt | r # _ \<Rightarrow> pr_Policy r)"
proof (induction rs)
  case (Cons r rs)
  show ?case
  proof (cases "msgID \<le> pr_MsgIDMax r")
    case True
    with filter_covers_Nil[OF Cons.prems(1) True] show ?thesis
      by (simp add: covers_def[of msgID r] not_less)
  next
    case False
    then have "\<not> msgID < pr_MsgIDMin r"
      using Cons.prems(2) by auto
    with False Cons show ?thesis
      by (auto simp: covers_def[of msgID r])
  qed
qed simp

lemma filter_covers_length:
  "sorted_wrt (\<lambda>a b. pr_MsgIDMax a < pr_MsgIDMin b) rs \<Longrightarrow> length (filter (covers msgID) rs) \<le> 1"
proof (induction rs)
  case (Cons r rs)
  with filter_covers_Nil[OF Cons.prems] show ?case
    by (auto simp: covers_def[of msgID r])
qed simp

lemma filter_mset_singleton:
  "mset xs = mset ys \<Longrightarrow> length (filter P xs) \<le> 1 \<Longrightarrow> filter P xs = filter P ys"
proof -
  assume "mset xs = mset ys" "length (filter P xs) \<le> 1"
  then have "mset (filter P xs) = mset (filter P ys)" "length (filter P ys) = length (filter P xs)"
    by (simp_all add: mset_filter flip: size_mset)
  then show ?thesis
    using \<open>length (filter P xs) \<le> 1\<close>
    by (cases "filter P xs"; cases "filter P ys") auto
qed

lemma NewDeliveryPolicySet_Inr:
  assumes "NewDeliveryPolicySet d rules = Inr s"
  shows "mset (ps_rules s) = mset (map normal_rule rules)"
    "sorted_wrt (\<lambda>a b. pr_MsgIDMax a < pr_MsgIDMin b) (ps_rules s)"
    "\<forall>r\<in>set (ps_rules s). pr_MsgIDMin r \<le> pr_MsgIDMax r \<and> 0 < pr_MsgIDMin r
       \<and> validateDeliveryPolicy (pr_Policy r) = None"
    "validateDeliveryPolicy (ps_default s) = None"
    "dp_Name (ps_default s) = DefaultDeliveryPolicyName"
    "\<forall>r\<in>set (ps_rules s). map_of (ps_byName s) (dp_Name (pr_Policy r)) = Some (pr_Policy r)"
    "map_of (ps_byName s) DefaultDeliveryPolicyName = Some (ps_default s)"
proof -
  obtain normalized byName where
    norm: "normalize_rules [(DefaultDeliveryPolicyName, ps_default s)] rules = Inr (normalized, byName)"
    and s: "ps_rules s = sort_slice rule_lt normalized" "\<not> ranges_overlap (ps_rules s)" "ps_byName s = byName"
    and d: "validateDeliveryPolicy (ps_default s) = None" "dp_Name (ps_default s) = DefaultDeliveryPolicyName"
    using assms by (auto simp: NewDeliveryPolicySet_def Let_def split: if_splits option.splits sum.splits)
  note n = normalize_rules_Inr[OF norm]
  show "mset (ps_rules s) = mset (map normal_rule rules)"
    using n by (simp add: s mset_sort_slice)
  show *: "\<forall>r\<in>set (ps_rules s). pr_MsgIDMin r \<le> pr_MsgIDMax r \<and> 0 < pr_MsgIDMin r
       \<and> validateDeliveryPolicy (pr_Policy r) = None"
    using n by (simp add: s set_sort_slice)
  show "sorted_wrt (\<lambda>a b. pr_MsgIDMax a < pr_MsgIDMin b) (ps_rules s)"
    using s(2) * by (intro not_overlap_sorted) auto
  show "\<forall>r\<in>set (ps_rules s). map_of (ps_byName s) (dp_Name (pr_Policy r)) = Some (pr_Policy r)"
    using n by (simp add: s set_sort_slice)
  show "map_of (ps_byName s) DefaultDeliveryPolicyName = Some (ps_default s)"
    using n by (simp add: s)
  show "validateDeliveryPolicy (ps_default s) = None"
    "dp_Name (ps_default s) = DefaultDeliveryPolicyName" by (fact d)+
qed

lemma validateDeliveryPolicy_None:
  "validateDeliveryPolicy p = None \<longleftrightarrow>
     validDeliveryPolicyName (dp_Name p) \<and> 0 < dp_MaxAttempts p \<and> 0 \<le> dp_MaxAge p \<and> 0 < dp_AckTimeout p
     \<and> 0 < dp_InitialRetryDelay p \<and> (\<exists>m\<ge>1. dp_BackoffMultiplier p = Fin m)
     \<and> dp_InitialRetryDelay p \<le> dp_MaxRetryDelay p \<and> 0 \<le> dp_RetryJitter p"
  by (cases "dp_BackoffMultiplier p")
    (auto simp: validateDeliveryPolicy_def is_nan_def is_inf_def split: if_splits)

section \<open>Properties\<close>

definition sample_policy :: "string \<Rightarrow> delivery_policy" where
  "sample_policy name = \<lparr>dp_Name = name, dp_MaxAttempts = 3, dp_MaxAge = 0, dp_AckTimeout = 5,
     dp_InitialRetryDelay = 1, dp_BackoffMultiplier = Fin 2, dp_MaxRetryDelay = 8, dp_RetryJitter = 0\<rparr>"

definition sample_rules :: "policy_rule list" where
  "sample_rules = [\<lparr>pr_Policy = sample_policy ''b'', pr_MsgIDMin = 20, pr_MsgIDMax = 30\<rparr>,
     \<lparr>pr_Policy = sample_policy ''a'', pr_MsgIDMin = 10, pr_MsgIDMax = 0\<rparr>]"

text \<open>
  C31. A policy set resolves every message id to one policy.  When \<^const>\<open>NewDeliveryPolicySet\<close> accepts
  a table, at most one of the rules it was given covers any message id, \<^const>\<open>Resolve\<close> (which stops at
  the first range beyond the id) returns that rule's policy, or the default when there is none, and
  the policy it returns satisfies every validated bound.
\<close>

theorem Resolve_unique_rule:
  assumes "NewDeliveryPolicySet d rules = Inr s"
  shows "length (filter (covers msgID) (map normal_rule rules)) \<le> 1
    \<and> Resolve (Some s) msgID = (case filter (covers msgID) (map normal_rule rules) of
          [] \<Rightarrow> ps_default s | r # _ \<Rightarrow> pr_Policy r)
    \<and> validateDeliveryPolicy (Resolve (Some s) msgID) = None"
proof -
  note s = NewDeliveryPolicySet_Inr[OF assms]
  have eq: "filter (covers msgID) (ps_rules s) = filter (covers msgID) (map normal_rule rules)"
    by (rule filter_mset_singleton[OF s(1) filter_covers_length[OF s(2)]])
  have res: "Resolve (Some s) msgID = (case filter (covers msgID) (ps_rules s) of
      [] \<Rightarrow> ps_default s | r # _ \<Rightarrow> pr_Policy r)"
    by (simp add: Resolve_def resolve_rules_filter[OF s(2)] s(3))
  have "validateDeliveryPolicy (Resolve (Some s) msgID) = None"
    using s(3,4) filter_eq_ConsD[of "covers msgID" "ps_rules s"]
    by (fastforce simp: res split: list.split)
  then show ?thesis
    using filter_covers_length[OF s(2), of msgID] res unfolding eq by blast
qed

theorem Resolve_unique_rule_witness:
  "Resolve (Some (projr (NewDeliveryPolicySet (sample_policy '''') sample_rules))) 25 = sample_policy ''b''
   \<and> Resolve (Some (projr (NewDeliveryPolicySet (sample_policy '''') sample_rules))) 15 = sample_policy ''default''"
proof -
  obtain s where s: "NewDeliveryPolicySet (sample_policy '''') sample_rules = Inr s"
      "ps_default s = sample_policy ''default''"
    by (simp add: NewDeliveryPolicySet_def sample_rules_def sample_policy_def trim_rule_name_def
        fill_rule_max_def validateDeliveryPolicy_def validDeliveryPolicyName_def is_nan_def is_inf_def
        policy_name_char_def DefaultDeliveryPolicyName_def rule_lt_def Let_def trim_space_def trim_with.simps
        go_spaces_def)
  show ?thesis
    using Resolve_unique_rule[OF s(1), of 25] Resolve_unique_rule[OF s(1), of 15] s
    by (simp add: sample_rules_def sample_policy_def covers_def normal_rule_def trim_rule_name_def
        fill_rule_max_def trim_space_def trim_with.simps go_spaces_def)
qed

end
