(* ===== verification/Message.thy ===== *)
theory Message
  imports Delivery_Policy
begin

text \<open>
  Downlink messages of \<^verbatim>\<open>internal/downlink\<close> (\<^verbatim>\<open>store.go\<close>), terminal events (\<^verbatim>\<open>terminal.go\<close>), the
  queue limits (\<^verbatim>\<open>capacity.go\<close>) and the list cursor (\<^verbatim>\<open>message_cursor.go\<close>).  The status strings are
  a datatype; \<^verbatim>\<open>StatusEmpty\<close> is the empty string.
\<close>

section \<open>Data\<close>

datatype message_status =
    StatusEmpty | MessageStatusPending | MessageStatusSent | MessageStatusDelivered
  | MessageStatusFailed | MessageStatusDiscarded

fun status_string :: "message_status \<Rightarrow> string" where
  "status_string StatusEmpty = ''''"
| "status_string MessageStatusPending = ''pending''"
| "status_string MessageStatusSent = ''sent''"
| "status_string MessageStatusDelivered = ''delivered''"
| "status_string MessageStatusFailed = ''failed''"
| "status_string MessageStatusDiscarded = ''discarded''"

datatype terminal_publication_status =
    TerminalPublicationEmpty | TerminalPublicationDisabled | TerminalPublicationPending
  | TerminalPublicationFailed | TerminalPublicationPublished

record message =
  ms_MessageID :: string
  ms_ClientID :: string
  ms_DeviceID :: string
  ms_MsgID :: "32 word"
  ms_Body :: bytes
  ms_IdentityFingerprint :: bytes
  ms_AckRequired :: bool
  ms_TraceID :: string
  ms_SessionID :: string
  ms_Policy :: delivery_policy
  ms_Status :: message_status
  ms_Attempts :: int
  ms_NextRetryAt :: time
  ms_LastError :: string
  ms_TerminalReason :: string
  ms_TerminalAt :: time
  ms_TerminalPublishStatus :: terminal_publication_status
  ms_TerminalPublishAttempts :: int
  ms_TerminalNextPublishAt :: time
  ms_TerminalPublishError :: string
  ms_TerminalPublishedAt :: time
  ms_ClaimOwner :: string
  ms_ClaimUntil :: time
  ms_CreatedAt :: time
  ms_UpdatedAt :: time
  ms_SentAt :: time
  ms_DeliveredAt :: time

datatype save_outcome = SaveOutcomeCreated | SaveOutcomeExisting | SaveOutcomeConflict

record save_result =
  sr_Message :: message
  sr_Outcome :: save_outcome

record push_request =
  rq_ClientID :: string
  rq_DeviceID :: string
  rq_MsgID :: "32 word"
  rq_MessageID :: string
  rq_TraceID :: string
  rq_AckRequired :: bool
  rq_Body :: bytes

definition messageFromPushRequest :: "string \<Rightarrow> push_request \<Rightarrow> time \<Rightarrow> message" where
  "messageFromPushRequest new_id req now =
    \<lparr>ms_MessageID = (if rq_MessageID req = '''' then new_id else rq_MessageID req),
     ms_ClientID = rq_ClientID req, ms_DeviceID = rq_DeviceID req, ms_MsgID = rq_MsgID req,
     ms_Body = rq_Body req, ms_IdentityFingerprint = [], ms_AckRequired = rq_AckRequired req,
     ms_TraceID = rq_TraceID req, ms_SessionID = '''', ms_Policy = zero_policy,
     ms_Status = MessageStatusPending, ms_Attempts = 0, ms_NextRetryAt = zero_time, ms_LastError = '''',
     ms_TerminalReason = '''', ms_TerminalAt = zero_time,
     ms_TerminalPublishStatus = TerminalPublicationEmpty, ms_TerminalPublishAttempts = 0,
     ms_TerminalNextPublishAt = zero_time, ms_TerminalPublishError = '''',
     ms_TerminalPublishedAt = zero_time, ms_ClaimOwner = '''', ms_ClaimUntil = zero_time,
     ms_CreatedAt = now, ms_UpdatedAt = now, ms_SentAt = zero_time, ms_DeliveredAt = zero_time\<rparr>"

definition zero_message :: message where
  "zero_message = (messageFromPushRequest '''' \<lparr>rq_ClientID = '''', rq_DeviceID = '''', rq_MsgID = 0,
     rq_MessageID = '''', rq_TraceID = '''', rq_AckRequired = False, rq_Body = []\<rparr> zero_time)\<lparr>ms_Status := StatusEmpty\<rparr>"

definition pushRequestFromMessage :: "message \<Rightarrow> push_request" where
  "pushRequestFromMessage m =
    \<lparr>rq_ClientID = ms_ClientID m, rq_DeviceID = ms_DeviceID m, rq_MsgID = ms_MsgID m,
     rq_MessageID = ms_MessageID m, rq_TraceID = ms_TraceID m, rq_AckRequired = ms_AckRequired m,
     rq_Body = ms_Body m\<rparr>"

section \<open>Terminal events\<close>

definition TerminalEventVersion :: int where "TerminalEventVersion = 1"
definition TerminalEventType :: string where "TerminalEventType = ''z_courier.downlink.terminal''"
definition TerminalReasonMaxAttempts :: string where "TerminalReasonMaxAttempts = ''max_attempts_exceeded''"
definition TerminalReasonMaxAge :: string where "TerminalReasonMaxAge = ''max_age_exceeded''"
definition TerminalReasonOperatorDiscard :: string where "TerminalReasonOperatorDiscard = ''operator_discarded''"
definition TerminalReasonDeliveryFailed :: string where "TerminalReasonDeliveryFailed = ''delivery_failed''"

record terminal_event =
  te_Version :: int
  te_Type :: string
  te_EventID :: string
  te_MessageID :: string
  te_ClientID :: string
  te_DeviceID :: string
  te_MsgID :: "32 word"
  te_TraceID :: string
  te_TerminalStatus :: message_status
  te_TerminalReason :: string
  te_PolicyName :: string
  te_Attempts :: int
  te_MessageCreated :: time
  te_TerminalAt :: time
  te_GatewayNode :: string

record terminal_record =
  tr_Event :: terminal_event
  tr_Status :: terminal_publication_status
  tr_PublishAttempts :: int
  tr_NextAttemptAt :: time
  tr_LastError :: string
  tr_PublishedAt :: time
  tr_ClaimOwner :: string
  tr_ClaimUntil :: time

record terminal_transition =
  tt_Reason :: string
  tt_GatewayNode :: string
  tt_At :: time
  tt_Attempted :: bool
  tt_Publish :: bool

definition terminalEventID :: "string \<Rightarrow> message_status \<Rightarrow> string" where
  "terminalEventID messageID status = messageID @ '':'' @ status_string status"

definition newTerminalEvent :: "message \<Rightarrow> message_status \<Rightarrow> terminal_transition \<Rightarrow> terminal_event" where
  "newTerminalEvent m status t =
    \<lparr>te_Version = TerminalEventVersion, te_Type = TerminalEventType,
     te_EventID = terminalEventID (ms_MessageID m) status, te_MessageID = ms_MessageID m,
     te_ClientID = ms_ClientID m, te_DeviceID = ms_DeviceID m, te_MsgID = ms_MsgID m,
     te_TraceID = ms_TraceID m, te_TerminalStatus = status, te_TerminalReason = tt_Reason t,
     te_PolicyName = (if dp_Name (ms_Policy m) = '''' then DefaultDeliveryPolicyName
                      else dp_Name (ms_Policy m)),
     te_Attempts = ms_Attempts m, te_MessageCreated = ms_CreatedAt m, te_TerminalAt = tt_At t,
     te_GatewayNode = tt_GatewayNode t\<rparr>"

definition terminalPublicationStatus :: "bool \<Rightarrow> terminal_publication_status" where
  "terminalPublicationStatus publish =
     (if publish then TerminalPublicationPending else TerminalPublicationDisabled)"

definition applyTerminalRecord :: "message \<Rightarrow> terminal_record \<Rightarrow> message" where
  "applyTerminalRecord m r = m\<lparr>ms_TerminalPublishStatus := tr_Status r,
     ms_TerminalPublishAttempts := tr_PublishAttempts r, ms_TerminalNextPublishAt := tr_NextAttemptAt r,
     ms_TerminalPublishError := tr_LastError r, ms_TerminalPublishedAt := tr_PublishedAt r\<rparr>"

section \<open>Queue limits\<close>

record queue_capacity =
  qc_MaxPendingGlobal :: int
  qc_MaxPendingPerDevice :: int

definition no_capacity :: queue_capacity where
  "no_capacity = \<lparr>qc_MaxPendingGlobal = 0, qc_MaxPendingPerDevice = 0\<rparr>"

definition Enabled :: "queue_capacity \<Rightarrow> bool" where
  "Enabled c \<longleftrightarrow> 0 < qc_MaxPendingGlobal c \<or> 0 < qc_MaxPendingPerDevice c"

datatype capacity_scope = QueueCapacityScopeGlobal | QueueCapacityScopeDevice

section \<open>List queries and cursors\<close>

record list_cursor =
  lc_UpdatedAt :: time
  lc_MessageID :: string

definition zero_cursor :: list_cursor where
  "zero_cursor = \<lparr>lc_UpdatedAt = zero_time, lc_MessageID = ''''\<rparr>"

record list_query =
  lq_Status :: message_status
  lq_Limit :: int
  lq_Cursor :: list_cursor

record list_result =
  lr_Status :: message_status
  lr_Limit :: int
  lr_Cursor :: list_cursor
  lr_NextCursor :: list_cursor
  lr_HasMore :: bool
  lr_Total :: nat
  lr_Messages :: "message list"

definition defaultMessageListLimit :: int where "defaultMessageListLimit = 100"
definition maxMessageListLimit :: int where "maxMessageListLimit = 1000"

definition retentionTime :: "message \<Rightarrow> time" where
  "retentionTime m = (if \<not> is_zero (ms_UpdatedAt m) then ms_UpdatedAt m else ms_CreatedAt m)"

definition normalizeMessageListCursor :: "list_cursor \<Rightarrow> list_cursor" where
  "normalizeMessageListCursor c =
    (let c = c\<lparr>lc_MessageID := trim_space (lc_MessageID c)\<rparr>
     in if lc_MessageID c = '''' \<or> is_zero (lc_UpdatedAt c) then zero_cursor else c)"

definition normalizeMessageListQuery :: "list_query \<Rightarrow> list_query" where
  "normalizeMessageListQuery q =
    (let q = (if lq_Limit q \<le> 0 then q\<lparr>lq_Limit := defaultMessageListLimit\<rparr> else q);
         q = (if maxMessageListLimit < lq_Limit q then q\<lparr>lq_Limit := maxMessageListLimit\<rparr> else q)
     in q\<lparr>lq_Cursor := normalizeMessageListCursor (lq_Cursor q)\<rparr>)"

definition messageListCursorFromMessage :: "message \<Rightarrow> list_cursor" where
  "messageListCursorFromMessage m =
     normalizeMessageListCursor \<lparr>lc_UpdatedAt = retentionTime m, lc_MessageID = ms_MessageID m\<rparr>"

definition messageListCursorIsZero :: "list_cursor \<Rightarrow> bool" where
  "messageListCursorIsZero c \<longleftrightarrow> lc_MessageID c = '''' \<or> is_zero (lc_UpdatedAt c)"

definition messageAfterListCursor :: "message \<Rightarrow> list_cursor \<Rightarrow> bool" where
  "messageAfterListCursor m c =
    (let c = normalizeMessageListCursor c in
     if messageListCursorIsZero c then True
     else if before (retentionTime m) (lc_UpdatedAt c) then True
     else if after (retentionTime m) (lc_UpdatedAt c) then False
     else lc_MessageID c < ms_MessageID m)"

end
