(* ===== verification/Identity.thy ===== *)
theory Identity
  imports Message
begin

text \<open>
  The immutable identity of a message (\<^verbatim>\<open>internal/downlink/identity.go\<close>): a SHA-256 fingerprint over
  length-prefixed fields.  SHA-256 is an argument.
\<close>

section \<open>Identity\<close>

definition messageIdentityDomain :: string where
  "messageIdentityDomain = ''z-courier-downlink-identity-v1''"

definition writeIdentityBytes :: "bytes \<Rightarrow> bytes" where
  "writeIdentityBytes v = put_uint32 (of_nat (length v)) @ v"

definition identity_preimage :: "(bytes \<Rightarrow> bytes) \<Rightarrow> message \<Rightarrow> bytes" where
  "identity_preimage sha256 m =
     writeIdentityBytes (bytes_of messageIdentityDomain) @ writeIdentityBytes (bytes_of (ms_ClientID m))
       @ writeIdentityBytes (bytes_of (ms_DeviceID m)) @ put_uint32 (ms_MsgID m)
       @ [if ms_AckRequired m then 1 else 0] @ sha256 (ms_Body m)"

definition messageIdentityFingerprint :: "(bytes \<Rightarrow> bytes) \<Rightarrow> message \<Rightarrow> bytes" where
  "messageIdentityFingerprint sha256 m = sha256 (identity_preimage sha256 m)"

definition identityFingerprint :: "(bytes \<Rightarrow> bytes) \<Rightarrow> message \<Rightarrow> bytes" where
  "identityFingerprint sha256 m =
     (if length (ms_IdentityFingerprint m) = 32 then ms_IdentityFingerprint m
      else messageIdentityFingerprint sha256 m)"

definition messagesHaveSameIdentity :: "(bytes \<Rightarrow> bytes) \<Rightarrow> message \<Rightarrow> message \<Rightarrow> bool" where
  "messagesHaveSameIdentity sha256 l r \<longleftrightarrow> identityFingerprint sha256 l = identityFingerprint sha256 r"

section \<open>The identity fingerprint separates messages\<close>

definition message_identity :: "message \<Rightarrow> string \<times> string \<times> 32 word \<times> bool \<times> bytes" where
  "message_identity m = (ms_ClientID m, ms_DeviceID m, ms_MsgID m, ms_AckRequired m, ms_Body m)"

lemma writeIdentityBytes_inj:
  assumes "writeIdentityBytes v @ r = writeIdentityBytes v' @ r'"
    and "length v < 2 ^ 32" "length v' < 2 ^ 32"
  shows "v = v' \<and> r = r'"
proof -
  have eq: "put_uint32 (of_nat (length v)) = put_uint32 (of_nat (length v'))" "v @ r = v' @ r'"
    using assms(1) append_eq_append_conv[of "put_uint32 (of_nat (length v))" "put_uint32 (of_nat (length v'))"]
    by (auto simp: writeIdentityBytes_def)
  have "(of_nat (length v) :: 32 word) = of_nat (length v')"
    using arg_cong[OF eq(1), of "be_word :: bytes \<Rightarrow> 32 word"] by (simp only: be_word_put)
  then have "unat (of_nat (length v) :: 32 word) = unat (of_nat (length v') :: 32 word)"
    by (rule arg_cong)
  then have "length v = length v'"
    using assms(2,3) by (simp add: unat_of_nat take_bit_eq_mod)
  with eq(2) show ?thesis by simp
qed

lemma identity_preimage_inj:
  assumes "identity_preimage sha256 l = identity_preimage sha256 r"
    and "length (ms_ClientID l) < 2 ^ 32" "length (ms_DeviceID l) < 2 ^ 32"
    and "length (ms_ClientID r) < 2 ^ 32" "length (ms_DeviceID r) < 2 ^ 32"
  shows "ms_ClientID l = ms_ClientID r \<and> ms_DeviceID l = ms_DeviceID r \<and> ms_MsgID l = ms_MsgID r
    \<and> ms_AckRequired l = ms_AckRequired r \<and> sha256 (ms_Body l) = sha256 (ms_Body r)"
proof -
  have inj: "bytes_of x = bytes_of y \<longleftrightarrow> x = y" for x y
    by (rule inj_map_eq_map) (metis char_of_byte_of_char injI)
  let ?t = "\<lambda>m. put_uint32 (ms_MsgID m) @ [if ms_AckRequired m then 1 else 0] @ sha256 (ms_Body m)"
  have "writeIdentityBytes (bytes_of (ms_ClientID l)) @ writeIdentityBytes (bytes_of (ms_DeviceID l)) @ ?t l
      = writeIdentityBytes (bytes_of (ms_ClientID r)) @ writeIdentityBytes (bytes_of (ms_DeviceID r)) @ ?t r"
    using assms(1) by (simp add: identity_preimage_def)
  from writeIdentityBytes_inj[OF this] assms(2,4)
  have c: "ms_ClientID l = ms_ClientID r"
    and "writeIdentityBytes (bytes_of (ms_DeviceID l)) @ ?t l = writeIdentityBytes (bytes_of (ms_DeviceID r)) @ ?t r"
    unfolding inj by simp_all
  from writeIdentityBytes_inj[OF this(2)] assms(3,5)
  have d: "ms_DeviceID l = ms_DeviceID r" and t: "?t l = ?t r"
    unfolding inj by simp_all
  have "put_uint32 (ms_MsgID l) = put_uint32 (ms_MsgID r)"
    using t append_eq_append_conv[of "put_uint32 (ms_MsgID l)" "put_uint32 (ms_MsgID r)"] by auto
  from arg_cong[OF this, of "be_word :: bytes \<Rightarrow> 32 word"] have "ms_MsgID l = ms_MsgID r"
    by (simp only: be_word_put)
  with c d t show ?thesis
    by (auto split: if_splits)
qed

lemma same_identity_iff:
  assumes "inj_on sha256 {identity_preimage sha256 l, identity_preimage sha256 r, ms_Body l, ms_Body r}"
    and "length (ms_ClientID l) < 2 ^ 32" "length (ms_DeviceID l) < 2 ^ 32"
    and "length (ms_ClientID r) < 2 ^ 32" "length (ms_DeviceID r) < 2 ^ 32"
  shows "messageIdentityFingerprint sha256 l = messageIdentityFingerprint sha256 r
    \<longleftrightarrow> message_identity l = message_identity r"
proof
  assume "messageIdentityFingerprint sha256 l = messageIdentityFingerprint sha256 r"
  then have "identity_preimage sha256 l = identity_preimage sha256 r"
    using inj_onD[OF assms(1), of "identity_preimage sha256 l" "identity_preimage sha256 r"]
    by (simp add: messageIdentityFingerprint_def)
  from identity_preimage_inj[OF this assms(2-5)] show "message_identity l = message_identity r"
    using inj_onD[OF assms(1), of "ms_Body l" "ms_Body r"] by (simp add: message_identity_def)
next
  assume "message_identity l = message_identity r"
  then show "messageIdentityFingerprint sha256 l = messageIdentityFingerprint sha256 r"
    by (simp add: message_identity_def messageIdentityFingerprint_def identity_preimage_def)
qed

section \<open>Properties\<close>

definition identity_sample :: "string \<Rightarrow> bytes \<Rightarrow> message" where
  "identity_sample dev body = messageFromPushRequest ''x'' \<lparr>rq_ClientID = ''c'', rq_DeviceID = dev,
     rq_MsgID = 7, rq_MessageID = ''m'', rq_TraceID = '''', rq_AckRequired = True, rq_Body = body\<rparr> 5"

text \<open>
  C33. Two messages have the same fingerprint exactly when client, device, message id, acknowledgement
  flag and body agree, for a hash that does not collide on the four inputs it is applied to: the
  encoding under the hash is unambiguous.
\<close>

theorem fingerprint_separates:
  assumes "inj_on sha256 {identity_preimage sha256 l, identity_preimage sha256 r, ms_Body l, ms_Body r}"
    and "length (ms_ClientID l) < 2 ^ 32" "length (ms_DeviceID l) < 2 ^ 32"
    and "length (ms_ClientID r) < 2 ^ 32" "length (ms_DeviceID r) < 2 ^ 32"
  shows "messageIdentityFingerprint sha256 l = messageIdentityFingerprint sha256 r
    \<longleftrightarrow> message_identity l = message_identity r"
  by (rule same_identity_iff[OF assms])

theorem fingerprint_separates_witness:
  "messageIdentityFingerprint id (identity_sample ''d'' [1])
    \<noteq> messageIdentityFingerprint id (identity_sample ''d'' [2])"
  using fingerprint_separates[of id "identity_sample ''d'' [1]" "identity_sample ''d'' [2]"]
  by (simp add: identity_sample_def message_identity_def messageFromPushRequest_def)

end
