(* ===== verification/Fairness.thy ===== *)
theory Fairness
  imports Message
begin

text \<open>
  The bounded, fair selection of due messages (\<^verbatim>\<open>internal/downlink/fairness.go\<close>): candidates are dealt
  into rounds, the n-th message of every device into the n-th round, and the rounds are taken in
  order until the limit is reached.
\<close>

section \<open>Fair selection\<close>

record retry_fairness =
  rf_Enabled :: bool
  rf_CandidateMultiplier :: int

definition CandidateLimit :: "retry_fairness \<Rightarrow> int \<Rightarrow> int \<Rightarrow> int" where
  "CandidateLimit fairness scanLimit maxPendingPerDevice =
    (let scanLimit = (if scanLimit \<le> 0 then 100 else scanLimit);
         multiplier = rf_CandidateMultiplier fairness;
         multiplier = (if multiplier \<le> 0 then 4 else multiplier);
         candidateLimit = (if scanLimit \<le> max_int64 div multiplier then scanLimit * multiplier else max_int64);
         candidateLimit =
           (if 0 < maxPendingPerDevice then
              let capacityWindow = (if maxPendingPerDevice \<le> max_int64 - scanLimit
                    then maxPendingPerDevice + scanLimit else max_int64)
              in if candidateLimit < capacityWindow then capacityWindow else candidateLimit
            else candidateLimit)
     in if candidateLimit < scanLimit then scanLimit else candidateLimit)"

datatype selection_mode = RetrySelectionModeFIFO | RetrySelectionModeFair

record retry_selection =
  rs_Messages :: "message list"
  rs_Mode :: selection_mode
  rs_DeviceCount :: nat
  rs_MaxPerDevice :: nat

type_synonym device_key = "string \<times> string"

definition device_key :: "message \<Rightarrow> device_key" where
  "device_key m = (ms_ClientID m, ms_DeviceID m)"

definition lookup0 :: "('k, nat) gomap \<Rightarrow> 'k \<Rightarrow> nat" where
  "lookup0 m k = (case map_of m k of None \<Rightarrow> 0 | Some n \<Rightarrow> n)"

definition retrySelectionFromMessages :: "message list \<Rightarrow> selection_mode \<Rightarrow> retry_selection" where
  "retrySelectionFromMessages messages mode =
    (let (counts, maxPerDevice) =
       fold (\<lambda>m (counts, maxPerDevice).
               let key = device_key m;
                   counts = put key (lookup0 counts key + 1) counts;
                   n = lookup0 counts key
               in (counts, if maxPerDevice < n then n else maxPerDevice))
            messages ([], 0)
     in \<lparr>rs_Messages = messages, rs_Mode = mode, rs_DeviceCount = length counts,
         rs_MaxPerDevice = maxPerDevice\<rparr>)"

text \<open>One turn of the loop that deals the candidates into rounds.\<close>

definition deal :: "nat \<Rightarrow> message list \<Rightarrow> nat \<Rightarrow> (device_key, nat) gomap \<times> nat list list
    \<Rightarrow> (device_key, nat) gomap \<times> nat list list" where
  "deal limit candidates index = (\<lambda>(positions, rounds).
     let key = device_key (candidates ! index);
         position = lookup0 positions key;
         positions = put key (position + 1) positions
     in if limit \<le> position then (positions, rounds)
        else let rounds = rounds @ replicate (position + 1 - length rounds) []
             in (positions, rounds[position := rounds ! position @ [index]]))"

fun take_round :: "nat \<Rightarrow> message list \<Rightarrow> message list \<Rightarrow> nat list \<Rightarrow> message list" where
  "take_round limit candidates selected [] = selected"
| "take_round limit candidates selected (index # rd) =
    (let selected = selected @ [candidates ! index]
     in if length selected = limit then selected else take_round limit candidates selected rd)"

fun take_rounds :: "nat \<Rightarrow> message list \<Rightarrow> message list \<Rightarrow> nat list list \<Rightarrow> message list" where
  "take_rounds limit candidates selected [] = selected"
| "take_rounds limit candidates selected (rd # rounds) =
    (let selected = take_round limit candidates selected rd
     in if length selected = limit then selected else take_rounds limit candidates selected rounds)"

definition fairRetrySelection :: "message list \<Rightarrow> int \<Rightarrow> retry_selection" where
  "fairRetrySelection candidates limit =
    (let limit = nat (if limit \<le> 0 then 100 else limit);
         (positions, rounds) = fold (deal limit candidates) [0..<length candidates] ([], [])
     in retrySelectionFromMessages (take_rounds limit candidates [] rounds) RetrySelectionModeFair)"

definition normalizeRetrySelectionLimits :: "int \<Rightarrow> int \<Rightarrow> int \<times> int" where
  "normalizeRetrySelectionLimits limit candidateLimit =
    (let limit = (if limit \<le> 0 then 100 else limit)
     in (limit, if candidateLimit < limit then limit else candidateLimit))"

section \<open>The candidate window\<close>

lemma CandidateLimit_bounds:
  assumes "scanLimit \<le> max_int64" "maxPending \<le> max_int64"
  shows "(if scanLimit \<le> 0 then 100 else scanLimit) \<le> CandidateLimit f scanLimit maxPending"
    and "CandidateLimit f scanLimit maxPending \<le> max_int64"
    and "0 < scanLimit \<Longrightarrow> 0 < maxPending \<Longrightarrow> scanLimit + maxPending \<le> max_int64 \<Longrightarrow>
         scanLimit + maxPending \<le> CandidateLimit f scanLimit maxPending"
proof -
  have mult: "s * m \<le> max_int64" if "s \<le> max_int64 div m" "0 < m" for s m :: int
    using that mult_right_mono[of s "max_int64 div m" m] div_mult_mod_eq[of max_int64 m] pos_mod_sign[of m max_int64]
    by linarith
  show "(if scanLimit \<le> 0 then 100 else scanLimit) \<le> CandidateLimit f scanLimit maxPending"
    by (simp add: CandidateLimit_def Let_def)
  show "CandidateLimit f scanLimit maxPending \<le> max_int64"
    using assms mult by (auto simp: CandidateLimit_def Let_def)
  show "scanLimit + maxPending \<le> CandidateLimit f scanLimit maxPending"
    if "0 < scanLimit" "0 < maxPending" "scanLimit + maxPending \<le> max_int64"
    using that by (auto simp: CandidateLimit_def Let_def)
qed

section \<open>The rounds\<close>

text \<open>
  \<open>occ cs i\<close> is the number of earlier candidates of the same device: the round of candidate \<open>i\<close>.
\<close>

definition occ :: "message list \<Rightarrow> nat \<Rightarrow> nat" where
  "occ cs i = length (filter (\<lambda>j. device_key (cs ! j) = device_key (cs ! i)) [0..<i])"

definition round_of :: "message list \<Rightarrow> nat \<Rightarrow> nat \<Rightarrow> nat list" where
  "round_of cs n p = filter (\<lambda>i. occ cs i = p) [0..<n]"

text \<open>What the dealing loop has built after \<open>n\<close> candidates.\<close>

definition dealt :: "nat \<Rightarrow> message list \<Rightarrow> nat \<Rightarrow> (device_key, nat) gomap \<times> nat list list \<Rightarrow> bool" where
  "dealt limit cs n = (\<lambda>(positions, rounds).
     (\<forall>k. lookup0 positions k = length (filter (\<lambda>j. device_key (cs ! j) = k) [0..<n]))
     \<and> length rounds \<le> limit
     \<and> (\<forall>p < length rounds. rounds ! p = round_of cs n p)
     \<and> (\<forall>i < n. occ cs i < limit \<longrightarrow> occ cs i < length rounds))"

lemma lookup0_put [simp]: "lookup0 (put k v m) k' = (if k' = k then v else lookup0 m k')"
  by (simp add: lookup0_def)

lemma dealt_step:
  assumes "dealt limit cs n st"
  shows "dealt limit cs (Suc n) (deal limit cs n st)"
proof -
  obtain positions rounds where st: "st = (positions, rounds)" by fastforce
  define key where "key = device_key (cs ! n)"
  have pos: "\<And>k. lookup0 positions k = length (filter (\<lambda>j. device_key (cs ! j) = k) [0..<n])"
    and len: "length rounds \<le> limit" and rd: "\<And>p. p < length rounds \<Longrightarrow> rounds ! p = round_of cs n p"
    and all: "\<And>i. i < n \<Longrightarrow> occ cs i < limit \<Longrightarrow> occ cs i < length rounds"
    using assms by (auto simp: dealt_def st)
  have o: "lookup0 positions key = occ cs n"
    by (simp add: pos occ_def key_def)
  have pos': "lookup0 (put key (occ cs n + 1) positions) k
      = length (filter (\<lambda>j. device_key (cs ! j) = k) [0..<Suc n])" for k
    using pos[of key] o by (simp add: pos key_def)
  show ?thesis
  proof (cases "limit \<le> occ cs n")
    case True
    then have "round_of cs (Suc n) p = round_of cs n p" if "p < length rounds" for p
      using that len by (simp add: round_of_def)
    then show ?thesis
      using True pos' len rd all
      by (auto simp: dealt_def deal_def st Let_def o key_def[symmetric] less_Suc_eq)
  next
    case False
    define rounds' where "rounds' = rounds @ replicate (occ cs n + 1 - length rounds) []"
    have len': "length rounds' \<le> limit" "occ cs n < length rounds'" "length rounds \<le> length rounds'"
      using False len by (auto simp: rounds'_def)
    have rd': "rounds' ! p = round_of cs n p" if "p < length rounds'" for p
    proof (cases "p < length rounds")
      case True
      then show ?thesis
        by (simp add: rounds'_def nth_append rd)
    next
      case ge: False
      then have "p < limit" using that len' by simp
      then have "round_of cs n p = []"
        using ge all by (force simp: round_of_def filter_empty_conv)
      then show ?thesis
        using ge that by (simp add: rounds'_def nth_append)
    qed
    have "rounds'[occ cs n := rounds' ! occ cs n @ [n]] ! p = round_of cs (Suc n) p" if "p < length rounds'" for p
      using that rd'[of p] len'(2) by (auto simp: nth_list_update round_of_def)
    moreover have "occ cs i < length rounds'" if "i < Suc n" "occ cs i < limit" for i
      using that all[of i] len' by (cases "i = n") auto
    moreover have "deal limit cs n st
        = (put key (occ cs n + 1) positions, rounds'[occ cs n := rounds' ! occ cs n @ [n]])"
      using False by (simp add: deal_def st Let_def o rounds'_def flip: key_def)
    ultimately show ?thesis
      using pos' len'(1) by (simp add: dealt_def)
  qed
qed

lemma dealt_all: "dealt limit cs n (fold (deal limit cs) [0..<n] ([], []))"
proof (induction n)
  case 0
  then show ?case by (simp add: dealt_def lookup0_def)
next
  case (Suc n)
  then show ?case by (simp add: dealt_step)
qed

lemma take_round_eq:
  "length sel < limit \<Longrightarrow> take_round limit cs sel rd = take limit (sel @ map ((!) cs) rd)"
proof (induction rd arbitrary: sel)
  case (Cons i rd)
  show ?case
  proof (cases "length (sel @ [cs ! i]) = limit")
    case False
    with Cons.prems Cons.IH[of "sel @ [cs ! i]"] show ?thesis
      by (simp add: Let_def)
  qed (auto simp: Let_def)
qed simp

lemma take_rounds_eq:
  "length sel < limit \<Longrightarrow> take_rounds limit cs sel rds = take limit (sel @ map ((!) cs) (concat rds))"
proof (induction rds arbitrary: sel)
  case (Cons rd rds)
  let ?sel = "take_round limit cs sel rd"
  have sel: "?sel = take limit (sel @ map ((!) cs) rd)"
    by (rule take_round_eq[OF Cons.prems])
  show ?case
  proof (cases "length ?sel = limit")
    case True
    then show ?thesis
      unfolding sel by (auto simp: Let_def sel)
  next
    case False
    then have "?sel = sel @ map ((!) cs) rd" "length ?sel < limit"
      unfolding sel by auto
    with Cons.IH[of ?sel] False show ?thesis
      by (simp add: Let_def)
  qed
qed simp

text \<open>The order in which candidates are taken: by round, then by position.\<close>

definition deal_order :: "nat \<Rightarrow> message list \<Rightarrow> nat list" where
  "deal_order limit cs =
     concat (snd (fold (deal limit cs) [0..<length cs] ([], [])))"

lemma fairRetrySelection_eq:
  assumes "lmt = nat (if limit \<le> 0 then 100 else limit)"
  shows "rs_Messages (fairRetrySelection cs limit) = map ((!) cs) (take lmt (deal_order lmt cs))"
proof -
  have "0 < lmt" using assms by auto
  then show ?thesis
    by (simp add: fairRetrySelection_def deal_order_def assms[symmetric] take_rounds_eq take_map
        retrySelectionFromMessages_def Let_def split: prod.split)
qed

lemma deal_order_rounds:
  obtains R where "R \<le> lmt" "deal_order lmt cs = concat (map (round_of cs (length cs)) [0..<R])"
    "\<And>i. i < length cs \<Longrightarrow> occ cs i < lmt \<Longrightarrow> occ cs i < R"
proof -
  obtain positions rounds where st: "fold (deal lmt cs) [0..<length cs] ([], []) = (positions, rounds)"
    by fastforce
  have d: "length rounds \<le> lmt" "\<forall>p < length rounds. rounds ! p = round_of cs (length cs) p"
      "\<forall>i < length cs. occ cs i < lmt \<longrightarrow> occ cs i < length rounds"
    using dealt_all[of lmt cs "length cs"] by (simp_all add: st dealt_def)
  have "rounds = map (round_of cs (length cs)) [0..<length rounds]"
    using d(2) by (intro nth_equalityI) simp_all
  then show thesis
    using that[of "length rounds"] d by (simp add: deal_order_def st)
qed

lemma set_deal_order: "set (deal_order lmt cs) = {i. i < length cs \<and> occ cs i < lmt}"
  by (rule deal_order_rounds[of lmt cs]) (auto simp: round_of_def)

lemma deal_order_sorted: "sorted_wrt (\<lambda>i j. occ cs i \<le> occ cs j) (deal_order lmt cs)"
proof -
  have "sorted_wrt (\<lambda>i j. occ cs i \<le> occ cs j) (concat (map (round_of cs n) [0..<R]))" for n R
  proof (induction R)
    case (Suc R)
    have "sorted_wrt (\<lambda>i j. occ cs i \<le> occ cs j) (round_of cs n R)"
      by (rule sorted_wrt_mono_rel[of _ "\<lambda>i j. i < j"]) (auto simp: round_of_def sorted_wrt_filter)
    with Suc show ?case
      by (auto simp: sorted_wrt_append round_of_def)
  qed simp
  then show ?thesis
    by (metis deal_order_rounds)
qed

lemma distinct_deal_order: "distinct (deal_order lmt cs)"
proof -
  have "distinct (concat (map (round_of cs n) [0..<R]))" for n R
    by (induction R) (auto simp: round_of_def)
  then show ?thesis
    by (metis deal_order_rounds)
qed

text \<open>The candidates of one device have the rounds 0, 1, 2, ...\<close>

lemma occ_card: "occ cs i = card {j. j < i \<and> device_key (cs ! j) = device_key (cs ! i)}"
  unfolding occ_def by (subst distinct_length_filter) (auto intro!: arg_cong[of _ _ card])

lemma occ_less:
  assumes "i < j" "device_key (cs ! i) = device_key (cs ! j)"
  shows "occ cs i < occ cs j"
  unfolding occ_card by (rule psubset_card_mono) (use assms in auto)

lemma occ_earlier:
  "p < occ cs i \<Longrightarrow> \<exists>j<i. device_key (cs ! j) = device_key (cs ! i) \<and> occ cs j = p"
proof (induction i rule: less_induct)
  case (less i)
  let ?S = "{j. j < i \<and> device_key (cs ! j) = device_key (cs ! i)}"
  have fin: "finite ?S" by simp
  have ne: "?S \<noteq> {}"
    using less.prems unfolding occ_card by (metis card.empty not_less_zero)
  define m where "m = Max ?S"
  have m: "m < i" "device_key (cs ! m) = device_key (cs ! i)"
    using Max_in[OF fin ne] by (auto simp: m_def)
  have "{j. j < m \<and> device_key (cs ! j) = device_key (cs ! m)} = ?S - {m}"
    using m Max_ge[OF fin] by (force simp: m_def[symmetric])
  then have "occ cs m = occ cs i - 1"
    using m by (simp add: occ_card)
  then consider "occ cs m = p" | "p < occ cs m"
    using less.prems by linarith
  then show ?case
    using m less.IH[OF m(1)] by cases (blast, metis less_trans)
qed

lemma inj_on_occ: "inj_on (occ cs) {i. device_key (cs ! i) = k}"
proof (rule inj_onI)
  fix i j assume "i \<in> {i. device_key (cs ! i) = k}" "j \<in> {i. device_key (cs ! i) = k}" "occ cs i = occ cs j"
  then show "i = j"
    using occ_less[of i j cs] occ_less[of j i cs] by (cases i j rule: linorder_cases) auto
qed

lemma count_indices:
  "distinct ixs \<Longrightarrow> length (filter (\<lambda>m. device_key m = k) (map ((!) cs) ixs)) = card {i\<in>set ixs. device_key (cs ! i) = k}"
  by (simp add: filter_map comp_def flip: distinct_card[of "filter _ _"] set_filter)

lemma length_deal_order: "min lmt (length cs) \<le> length (deal_order lmt cs)"
proof (cases "\<forall>i<length cs. occ cs i < lmt")
  case True
  then have "set (deal_order lmt cs) = {..<length cs}"
    by (auto simp: set_deal_order)
  then show ?thesis
    using distinct_card[OF distinct_deal_order, of lmt cs] by simp
next
  case False
  then obtain i where i: "i < length cs" "lmt \<le> occ cs i" by (auto simp: not_less)
  have "{..<lmt} \<subseteq> occ cs ` set (deal_order lmt cs)"
  proof
    fix p assume "p \<in> {..<lmt}"
    then obtain j where "j < i" "occ cs j = p"
      using occ_earlier[of p cs i] i(2) by auto
    with i(1) \<open>p \<in> {..<lmt}\<close> show "p \<in> occ cs ` set (deal_order lmt cs)"
      by (auto simp: set_deal_order intro!: image_eqI[of _ _ j])
  qed
  from card_mono[OF _ this] have "lmt \<le> card (occ cs ` set (deal_order lmt cs))"
    by simp
  also have "\<dots> \<le> card (set (deal_order lmt cs))"
    by (rule card_image_le) simp
  finally have "lmt \<le> card (set (deal_order lmt cs))" .
  then show ?thesis
    by (simp add: distinct_card[OF distinct_deal_order])
qed

lemma selected_before:
  assumes "i \<in> set (take lmt (deal_order lmt cs))" "j < length cs" "j \<notin> set (take lmt (deal_order lmt cs))"
  shows "occ cs i \<le> occ cs j"
proof (cases "occ cs j < lmt")
  case True
  let ?D = "deal_order lmt cs"
  have "set ?D = set (take lmt ?D) \<union> set (drop lmt ?D)"
    by (simp flip: set_append)
  moreover have "j \<in> set ?D"
    using True assms(2) by (simp add: set_deal_order)
  ultimately have "j \<in> set (drop lmt ?D)"
    using assms(3) by blast
  moreover have "sorted_wrt (\<lambda>i j. occ cs i \<le> occ cs j) (take lmt ?D @ drop lmt ?D)"
    by (simp add: deal_order_sorted)
  ultimately show ?thesis
    using assms(1) unfolding sorted_wrt_append by blast
next
  case False
  have "i \<in> set (deal_order lmt cs)" using assms(1) by (rule in_set_takeD)
  with False show ?thesis
    by (simp add: set_deal_order)
qed

lemma fair_counts:
  assumes "j < length cs" "j \<notin> set (take lmt (deal_order lmt cs))" "device_key (cs ! j) = k"
  shows "card {i\<in>set (take lmt (deal_order lmt cs)). device_key (cs ! i) = k'}
    \<le> card {i\<in>set (take lmt (deal_order lmt cs)). device_key (cs ! i) = k} + 1"
proof -
  let ?sel = "set (take lmt (deal_order lmt cs))"
  let ?U = "{i. i < length cs \<and> i \<notin> ?sel \<and> device_key (cs ! i) = k}"
  define j0 where "j0 = (LEAST i. i \<in> ?U)"
  have j0: "j0 \<in> ?U" using LeastI[of "\<lambda>i. i \<in> ?U" j] assms by (simp add: j0_def)
  have least: "i \<in> ?sel" if "i < j0" "device_key (cs ! i) = k" for i
    using not_less_Least[of i "\<lambda>i. i \<in> ?U", folded j0_def] that j0 by auto
  have "occ cs ` {i\<in>?sel. device_key (cs ! i) = k'} \<subseteq> {..occ cs j0}"
    using selected_before[of _ lmt cs j0] j0 by auto
  from card_mono[OF _ this] have "card (occ cs ` {i\<in>?sel. device_key (cs ! i) = k'}) \<le> occ cs j0 + 1"
    by simp
  moreover have "card (occ cs ` {i\<in>?sel. device_key (cs ! i) = k'}) = card {i\<in>?sel. device_key (cs ! i) = k'}"
    by (rule card_image[OF inj_on_subset[OF inj_on_occ[of cs k']]]) auto
  moreover have "{..<occ cs j0} \<subseteq> occ cs ` {i\<in>?sel. device_key (cs ! i) = k}"
  proof
    fix p assume "p \<in> {..<occ cs j0}"
    then obtain i where "i < j0" "device_key (cs ! i) = device_key (cs ! j0)" "occ cs i = p"
      using occ_earlier[of p cs j0] by auto
    then show "p \<in> occ cs ` {i\<in>?sel. device_key (cs ! i) = k}"
      using least[of i] j0 by (auto intro!: image_eqI[of _ _ i])
  qed
  from card_mono[OF _ this] have "occ cs j0 \<le> card {i\<in>?sel. device_key (cs ! i) = k}"
    using card_image_le[of "{i\<in>?sel. device_key (cs ! i) = k}" "occ cs"] by simp
  ultimately show ?thesis by linarith
qed

lemma mset_selected:
  assumes "distinct ixs" "set ixs \<subseteq> {..<length cs}"
  shows "mset (map ((!) cs) ixs) \<subseteq># mset cs"
proof -
  have "mset_set (set ixs) \<subseteq># mset_set {..<length cs}"
    using assms(2) by (rule subset_imp_msubset_mset_set) simp
  then have "mset ixs \<subseteq># mset [0..<length cs]"
    using mset_set_set[OF assms(1)] mset_set_set[of "[0..<length cs]"] by (simp add: atLeast0LessThan)
  from image_mset_subseteq_mono[OF this, of "(!) cs"] show ?thesis
    unfolding mset_map[symmetric] map_nth .
qed

lemma leftover_index:
  assumes "distinct ixs" "set ixs \<subseteq> {..<length cs}"
    "length (filter (\<lambda>m. device_key m = k) (map ((!) cs) ixs)) < length (filter (\<lambda>m. device_key m = k) cs)"
  obtains j where "j < length cs" "j \<notin> set ixs" "device_key (cs ! j) = k"
proof -
  have "length (filter (\<lambda>m. device_key m = k) cs)
      = length (filter (\<lambda>m. device_key m = k) (map ((!) cs) [0..<length cs]))"
    by (simp add: map_nth)
  then have "length (filter (\<lambda>m. device_key m = k) cs) = card {j\<in>{..<length cs}. device_key (cs ! j) = k}"
    using count_indices[of "[0..<length cs]" k cs] by (simp add: atLeast0LessThan)
  with assms(3) have lt: "card {i\<in>set ixs. device_key (cs ! i) = k} < card {j\<in>{..<length cs}. device_key (cs ! j) = k}"
    using count_indices[OF assms(1), of k cs] by simp
  have "\<not> {j\<in>{..<length cs}. device_key (cs ! j) = k} \<subseteq> {i\<in>set ixs. device_key (cs ! i) = k}"
    using card_mono[of "{i\<in>set ixs. device_key (cs ! i) = k}" "{j\<in>{..<length cs}. device_key (cs ! j) = k}"] lt
    by auto
  then show thesis
    using that by auto
qed

section \<open>Properties\<close>

text \<open>A sample message, for the witnesses of this theory and of the store.\<close>

definition sample_message :: "string \<Rightarrow> string \<Rightarrow> message" where
  "sample_message mid dev = messageFromPushRequest ''x'' \<lparr>rq_ClientID = ''c'', rq_DeviceID = dev,
     rq_MsgID = 7, rq_MessageID = mid, rq_TraceID = '''', rq_AckRequired = True, rq_Body = [1]\<rparr> 5"



text \<open>
  The candidate window never overflows an \<^verbatim>\<open>int\<close>, is never smaller than the scan limit, and,
  with a per-device limit, reaches past a device whose queue is full.
\<close>

theorem CandidateLimit_window:
  assumes "scanLimit \<le> max_int64" "maxPending \<le> max_int64"
  shows "(if scanLimit \<le> 0 then 100 else scanLimit) \<le> CandidateLimit f scanLimit maxPending
    \<and> CandidateLimit f scanLimit maxPending \<le> max_int64
    \<and> (0 < scanLimit \<and> 0 < maxPending \<and> scanLimit + maxPending \<le> max_int64 \<longrightarrow>
         scanLimit + maxPending \<le> CandidateLimit f scanLimit maxPending)"
  using CandidateLimit_bounds[OF assms] by blast

theorem CandidateLimit_window_witness:
  "CandidateLimit \<lparr>rf_Enabled = True, rf_CandidateMultiplier = 16\<rparr> max_int64 5 = max_int64"
  using CandidateLimit_window[of max_int64 5 "\<lparr>rf_Enabled = True, rf_CandidateMultiplier = 16\<rparr>"]
  by (simp add: CandidateLimit_def Let_def)

end
