(* ===== verification/Memory_Store.thy ===== *)
theory Memory_Store
  imports Identity Fairness
begin

text \<open>
  The in-memory message store (\<^verbatim>\<open>internal/downlink/memory_store.go\<close>).  Every operation takes the
  error of its context, the readings of the store's clock it uses and its own arguments, and returns
  its result with the new store.  The two maps are association lists, their iteration order being
  arbitrary; the results that the code sorts do not depend on it.
\<close>

section \<open>State\<close>

datatype store_err =
    CtxErr ctx_err | ErrMessageNotFound | QueueCapacityError capacity_scope int int

record memory_store =
  mem_messages :: "(string, message) gomap"
  mem_terminalEvents :: "(string, terminal_record) gomap"

definition NewMemoryStore :: memory_store where
  "NewMemoryStore = \<lparr>mem_messages = [], mem_terminalEvents = []\<rparr>"

section \<open>Saving and reading\<close>

definition pending :: "message \<Rightarrow> bool" where
  "pending m \<longleftrightarrow> ms_Status m = MessageStatusPending"

definition global_pending :: "memory_store \<Rightarrow> int" where
  "global_pending s = int (length (filter pending (vals (mem_messages s))))"

definition device_pending :: "memory_store \<Rightarrow> string \<Rightarrow> string \<Rightarrow> int" where
  "device_pending s clientID deviceID = int (length (filter
     (\<lambda>m. pending m \<and> ms_ClientID m = clientID \<and> ms_DeviceID m = deviceID) (vals (mem_messages s))))"

definition checkQueueCapacityLocked ::
  "memory_store \<Rightarrow> string \<Rightarrow> string \<Rightarrow> queue_capacity \<Rightarrow> store_err option" where
  "checkQueueCapacityLocked s clientID deviceID capacity =
    (if \<not> Enabled capacity then None
     else if 0 < qc_MaxPendingGlobal capacity \<and> qc_MaxPendingGlobal capacity \<le> global_pending s
     then Some (QueueCapacityError QueueCapacityScopeGlobal (global_pending s) (qc_MaxPendingGlobal capacity))
     else if 0 < qc_MaxPendingPerDevice capacity
          \<and> qc_MaxPendingPerDevice capacity \<le> device_pending s clientID deviceID
     then Some (QueueCapacityError QueueCapacityScopeDevice (device_pending s clientID deviceID)
            (qc_MaxPendingPerDevice capacity))
     else None)"

definition complete_message :: "(bytes \<Rightarrow> bytes) \<Rightarrow> string \<Rightarrow> time \<Rightarrow> message \<Rightarrow> message" where
  "complete_message sha256 new_id now m =
    (let m = (if ms_MessageID m = '''' then m\<lparr>ms_MessageID := new_id\<rparr> else m);
         m = (if ms_Status m = StatusEmpty then m\<lparr>ms_Status := MessageStatusPending\<rparr> else m);
         m = (if is_zero (ms_CreatedAt m) then m\<lparr>ms_CreatedAt := now\<rparr> else m);
         m = (if is_zero (ms_UpdatedAt m) then m\<lparr>ms_UpdatedAt := now\<rparr> else m)
     in m\<lparr>ms_IdentityFingerprint := messageIdentityFingerprint sha256 m\<rparr>)"

definition SaveWithCapacity ::
  "(bytes \<Rightarrow> bytes) \<Rightarrow> string \<Rightarrow> time \<Rightarrow> ctx \<Rightarrow> memory_store \<Rightarrow> message \<Rightarrow> queue_capacity
     \<Rightarrow> (store_err + save_result) \<times> memory_store" where
  "SaveWithCapacity sha256 new_id clock ctx s message capacity = (case ctx of Some e \<Rightarrow> (Inl (CtxErr e), s) | None \<Rightarrow>
     let message = complete_message sha256 new_id clock message in
     case map_of (mem_messages s) (ms_MessageID message) of
       Some existing \<Rightarrow>
         let (existing, s) =
           (if length (ms_IdentityFingerprint existing) \<noteq> length (ms_IdentityFingerprint message)
            then let existing = existing\<lparr>ms_IdentityFingerprint := messageIdentityFingerprint sha256 existing\<rparr>
                 in (existing, s\<lparr>mem_messages := put (ms_MessageID message) existing (mem_messages s)\<rparr>)
            else (existing, s));
           outcome = (if messagesHaveSameIdentity sha256 existing message
             then SaveOutcomeExisting else SaveOutcomeConflict)
         in (Inr \<lparr>sr_Message = existing, sr_Outcome = outcome\<rparr>, s)
     | None \<Rightarrow>
         (case (if ms_Status message = MessageStatusPending
                then checkQueueCapacityLocked s (ms_ClientID message) (ms_DeviceID message) capacity
                else None) of
            Some err \<Rightarrow> (Inl err, s)
          | None \<Rightarrow> (Inr \<lparr>sr_Message = message, sr_Outcome = SaveOutcomeCreated\<rparr>,
                     s\<lparr>mem_messages := put (ms_MessageID message) message (mem_messages s)\<rparr>)))"

definition Save ::
  "(bytes \<Rightarrow> bytes) \<Rightarrow> string \<Rightarrow> time \<Rightarrow> ctx \<Rightarrow> memory_store \<Rightarrow> message
     \<Rightarrow> (store_err + save_result) \<times> memory_store" where
  "Save sha256 new_id clock ctx s message =
     SaveWithCapacity sha256 new_id clock ctx s message no_capacity"

definition Get :: "ctx \<Rightarrow> memory_store \<Rightarrow> string \<Rightarrow> store_err + message option" where
  "Get ctx s messageID = (case ctx of Some e \<Rightarrow> Inl (CtxErr e)
     | None \<Rightarrow> Inr (map_of (mem_messages s) messageID))"

section \<open>Lists\<close>

definition created_lt :: "message \<Rightarrow> message \<Rightarrow> bool" where
  "created_lt l r = (if ms_CreatedAt l = ms_CreatedAt r then ms_MessageID l < ms_MessageID r
     else before (ms_CreatedAt l) (ms_CreatedAt r))"

definition limitMessages :: "message list \<Rightarrow> int \<Rightarrow> message list" where
  "limitMessages messages limit =
    (let messages = sort_slice created_lt messages
     in if 0 < limit \<and> limit < int (length messages) then take (nat limit) messages else messages)"

definition updated_desc_lt :: "message \<Rightarrow> message \<Rightarrow> bool" where
  "updated_desc_lt l r = (if retentionTime l = retentionTime r then ms_MessageID l < ms_MessageID r
     else after (retentionTime l) (retentionTime r))"

definition limitMessagesByUpdatedDesc :: "message list \<Rightarrow> int \<Rightarrow> message list" where
  "limitMessagesByUpdatedDesc messages limit =
    (let messages = sort_slice updated_desc_lt messages
     in if 0 < limit \<and> limit < int (length messages) then take (nat limit) messages else messages)"

definition ListByStatusPage :: "ctx \<Rightarrow> memory_store \<Rightarrow> list_query \<Rightarrow> store_err + list_result" where
  "ListByStatusPage ctx s query = (case ctx of Some e \<Rightarrow> Inl (CtxErr e) | None \<Rightarrow>
     let query = normalizeMessageListQuery query;
         with_status = filter (\<lambda>m. ms_Status m = lq_Status query) (vals (mem_messages s));
         messages = filter (\<lambda>m. messageAfterListCursor m (lq_Cursor query)) with_status;
         messages = limitMessagesByUpdatedDesc messages (lq_Limit query + 1);
         has_more = lq_Limit query < int (length messages);
         messages = (if has_more then take (nat (lq_Limit query)) messages else messages);
         next_cursor = (if has_more \<and> messages \<noteq> [] then messageListCursorFromMessage (last messages)
                        else zero_cursor)
     in Inr \<lparr>lr_Status = lq_Status query, lr_Limit = lq_Limit query, lr_Cursor = lq_Cursor query,
         lr_NextCursor = next_cursor, lr_HasMore = has_more, lr_Total = length with_status,
         lr_Messages = messages\<rparr>)"

definition ListByStatus :: "ctx \<Rightarrow> memory_store \<Rightarrow> message_status \<Rightarrow> int \<Rightarrow> store_err + message list" where
  "ListByStatus ctx s status limit =
    (case ListByStatusPage ctx s \<lparr>lq_Status = status, lq_Limit = limit, lq_Cursor = zero_cursor\<rparr> of
       Inl e \<Rightarrow> Inl e | Inr result \<Rightarrow> Inr (lr_Messages result))"

definition claimActive :: "message \<Rightarrow> time \<Rightarrow> bool" where
  "claimActive m now \<longleftrightarrow> \<not> is_zero (ms_ClaimUntil m) \<and> after (ms_ClaimUntil m) now"

definition messageDueForRetry :: "message \<Rightarrow> time \<Rightarrow> duration \<Rightarrow> bool" where
  "messageDueForRetry m now ackTimeout =
    (if claimActive m now then False
     else case ms_Status m of
       MessageStatusPending \<Rightarrow> is_zero (ms_NextRetryAt m) \<or> \<not> after (ms_NextRetryAt m) now
     | MessageStatusSent \<Rightarrow>
         if \<not> ms_AckRequired m then False
         else if \<not> is_zero (ms_NextRetryAt m) then \<not> after (ms_NextRetryAt m) now
         else if ackTimeout \<le> 0 \<or> is_zero (ms_SentAt m) then False
         else \<not> after (ms_SentAt m + ackTimeout) now
     | _ \<Rightarrow> False)"

definition retryCandidatesLocked :: "memory_store \<Rightarrow> time \<Rightarrow> duration \<Rightarrow> message list" where
  "retryCandidatesLocked s now ackTimeout =
     filter (\<lambda>m. messageDueForRetry m now ackTimeout) (vals (mem_messages s))"

definition ListDueRetry ::
  "time \<Rightarrow> ctx \<Rightarrow> memory_store \<Rightarrow> time \<Rightarrow> duration \<Rightarrow> int \<Rightarrow> store_err + message list" where
  "ListDueRetry clock ctx s now ackTimeout limit = (case ctx of Some e \<Rightarrow> Inl (CtxErr e) | None \<Rightarrow>
     let now = (if is_zero now then clock else now)
     in Inr (limitMessages (retryCandidatesLocked s now ackTimeout) limit))"

definition ListDuePending :: "time \<Rightarrow> ctx \<Rightarrow> memory_store \<Rightarrow> time \<Rightarrow> int \<Rightarrow> store_err + message list" where
  "ListDuePending clock ctx s now limit = ListDueRetry clock ctx s now 0 limit"

definition ListDueRetryFair ::
  "time \<Rightarrow> ctx \<Rightarrow> memory_store \<Rightarrow> time \<Rightarrow> duration \<Rightarrow> int \<Rightarrow> int \<Rightarrow> store_err + retry_selection" where
  "ListDueRetryFair clock ctx s now ackTimeout limit candidateLimit =
    (case ctx of Some e \<Rightarrow> Inl (CtxErr e) | None \<Rightarrow>
     let now = (if is_zero now then clock else now);
         (limit, candidateLimit) = normalizeRetrySelectionLimits limit candidateLimit
     in Inr (fairRetrySelection (limitMessages (retryCandidatesLocked s now ackTimeout) candidateLimit) limit))"

text \<open>The claim loop writes every selected message back and returns it as stored.\<close>

definition claim_message :: "string \<Rightarrow> time \<Rightarrow> time \<Rightarrow> message \<Rightarrow> message" where
  "claim_message owner until now m =
     m\<lparr>ms_ClaimOwner := owner, ms_ClaimUntil := until, ms_UpdatedAt := now\<rparr>"

definition message_at :: "(string, message) gomap \<Rightarrow> string \<Rightarrow> message" where
  "message_at store k = (case map_of store k of None \<Rightarrow> zero_message | Some m \<Rightarrow> m)"

fun claim_messages ::
  "string \<Rightarrow> time \<Rightarrow> time \<Rightarrow> (string, message) gomap \<Rightarrow> message list
     \<Rightarrow> message list \<times> (string, message) gomap" where
  "claim_messages owner until now store [] = ([], store)"
| "claim_messages owner until now store (m # ms) =
    (let stored = claim_message owner until now (message_at store (ms_MessageID m));
         (claimed, store) = claim_messages owner until now (put (ms_MessageID m) stored store) ms
     in (stored # claimed, store))"

definition ClaimDueRetryFair ::
  "time \<Rightarrow> ctx \<Rightarrow> memory_store \<Rightarrow> time \<Rightarrow> duration \<Rightarrow> int \<Rightarrow> int \<Rightarrow> string \<Rightarrow> duration
     \<Rightarrow> (store_err + retry_selection) \<times> memory_store" where
  "ClaimDueRetryFair clock ctx s now ackTimeout limit candidateLimit owner lease =
    (case ctx of Some e \<Rightarrow> (Inl (CtxErr e), s) | None \<Rightarrow>
     if owner = '''' then (ListDueRetryFair clock ctx s now ackTimeout limit candidateLimit, s)
     else let now = (if is_zero now then clock else now);
              lease = (if lease \<le> 0 then 30 * second else lease);
              (limit, candidateLimit) = normalizeRetrySelectionLimits limit candidateLimit;
              candidates = limitMessages (retryCandidatesLocked s now ackTimeout) candidateLimit;
              selection = fairRetrySelection candidates limit;
              (claimed, store) = claim_messages owner (now + lease) now (mem_messages s) (rs_Messages selection)
          in (Inr (selection\<lparr>rs_Messages := claimed\<rparr>), s\<lparr>mem_messages := store\<rparr>))"

text \<open>\<open>clock m\<close> is the reading taken when message \<open>m\<close> is visited.\<close>

definition ListPendingByClientDevice ::
  "(message \<Rightarrow> time) \<Rightarrow> ctx \<Rightarrow> memory_store \<Rightarrow> string \<Rightarrow> string \<Rightarrow> int \<Rightarrow> store_err + message list" where
  "ListPendingByClientDevice clock ctx s clientID deviceID limit = (case ctx of Some e \<Rightarrow> Inl (CtxErr e) | None \<Rightarrow>
     Inr (limitMessages (filter (\<lambda>m. ms_Status m = MessageStatusPending \<and> \<not> claimActive m (clock m)
            \<and> ms_ClientID m = clientID \<and> ms_DeviceID m = deviceID) (vals (mem_messages s))) limit))"

section \<open>Transitions\<close>

definition update_message :: "memory_store \<Rightarrow> string \<Rightarrow> message \<Rightarrow> memory_store" where
  "update_message s messageID m = s\<lparr>mem_messages := put messageID m (mem_messages s)\<rparr>"

definition clear_claim :: "message \<Rightarrow> message" where
  "clear_claim m = m\<lparr>ms_ClaimOwner := '''', ms_ClaimUntil := zero_time\<rparr>"

text \<open>\<open>clock\<close> is read for a missing \<^verbatim>\<open>sentAt\<close>, \<open>clock'\<close> for the update time.\<close>

definition MarkSent ::
  "time \<Rightarrow> time \<Rightarrow> ctx \<Rightarrow> memory_store \<Rightarrow> string \<Rightarrow> string \<Rightarrow> time \<Rightarrow> time
     \<Rightarrow> store_err option \<times> memory_store" where
  "MarkSent clock clock' ctx s messageID sessionID sentAt nextRetryAt =
    (case ctx of Some e \<Rightarrow> (Some (CtxErr e), s) | None \<Rightarrow>
     let sentAt = (if is_zero sentAt then clock else sentAt) in
     case map_of (mem_messages s) messageID of
       None \<Rightarrow> (Some ErrMessageNotFound, s)
     | Some m \<Rightarrow>
         if ms_Status m = MessageStatusDelivered then (None, s)
         else if ms_Status m = MessageStatusDiscarded then (None, s)
         else (None, update_message s messageID ((clear_claim m)\<lparr>ms_SessionID := sessionID,
                ms_Status := MessageStatusSent, ms_Attempts := ms_Attempts m + 1, ms_LastError := '''',
                ms_NextRetryAt := nextRetryAt, ms_SentAt := sentAt, ms_UpdatedAt := clock'\<rparr>)))"

definition MarkDelivered ::
  "time \<Rightarrow> ctx \<Rightarrow> memory_store \<Rightarrow> string \<Rightarrow> string \<Rightarrow> string \<Rightarrow> time
     \<Rightarrow> store_err option \<times> memory_store" where
  "MarkDelivered clock ctx s messageID clientID deviceID deliveredAt =
    (case ctx of Some e \<Rightarrow> (Some (CtxErr e), s) | None \<Rightarrow>
     let deliveredAt = (if is_zero deliveredAt then clock else deliveredAt) in
     case map_of (mem_messages s) messageID of
       None \<Rightarrow> (Some ErrMessageNotFound, s)
     | Some m \<Rightarrow>
         if ms_ClientID m \<noteq> clientID \<or> ms_DeviceID m \<noteq> deviceID then (Some ErrMessageNotFound, s)
         else (None, update_message s messageID ((clear_claim m)\<lparr>ms_Status := MessageStatusDelivered,
                ms_LastError := '''', ms_NextRetryAt := zero_time, ms_DeliveredAt := deliveredAt,
                ms_UpdatedAt := deliveredAt\<rparr>)))"

definition MarkAttemptFailed ::
  "time \<Rightarrow> ctx \<Rightarrow> memory_store \<Rightarrow> string \<Rightarrow> string \<Rightarrow> time \<Rightarrow> store_err option \<times> memory_store" where
  "MarkAttemptFailed clock ctx s messageID reason nextRetryAt =
    (case ctx of Some e \<Rightarrow> (Some (CtxErr e), s) | None \<Rightarrow>
     case map_of (mem_messages s) messageID of
       None \<Rightarrow> (Some ErrMessageNotFound, s)
     | Some m \<Rightarrow>
         if ms_Status m = MessageStatusDelivered \<or> ms_Status m = MessageStatusDiscarded then (None, s)
         else (None, update_message s messageID ((clear_claim m)\<lparr>ms_Status := MessageStatusPending,
                ms_Attempts := ms_Attempts m + 1, ms_LastError := reason, ms_NextRetryAt := nextRetryAt,
                ms_UpdatedAt := clock\<rparr>)))"

text \<open>
  The part that \<^verbatim>\<open>MarkFailed\<close> and \<^verbatim>\<open>Discard\<close> share: the first transition into a terminal status
  stamps the reason and, when publishing is on, finds or creates the event record.
\<close>

definition first_transition ::
  "memory_store \<Rightarrow> message \<Rightarrow> message_status \<Rightarrow> terminal_transition \<Rightarrow> message \<times> memory_store" where
  "first_transition s m status t =
    (let m = m\<lparr>ms_TerminalReason := tt_Reason t, ms_TerminalAt := tt_At t,
           ms_TerminalPublishStatus := terminalPublicationStatus (tt_Publish t),
           ms_TerminalPublishAttempts := 0, ms_TerminalNextPublishAt := zero_time,
           ms_TerminalPublishError := '''', ms_TerminalPublishedAt := zero_time\<rparr>
     in if tt_Publish t then
          let event = newTerminalEvent m status t in
          case map_of (mem_terminalEvents s) (te_EventID event) of
            Some rec \<Rightarrow> (applyTerminalRecord m rec, s)
          | None \<Rightarrow>
              let rec = \<lparr>tr_Event = event, tr_Status = TerminalPublicationPending, tr_PublishAttempts = 0,
                    tr_NextAttemptAt = zero_time, tr_LastError = '''', tr_PublishedAt = zero_time,
                    tr_ClaimOwner = '''', tr_ClaimUntil = zero_time\<rparr>
              in (applyTerminalRecord m rec,
                  s\<lparr>mem_terminalEvents := put (te_EventID event) rec (mem_terminalEvents s)\<rparr>)
        else (m, s))"

definition MarkFailed ::
  "time \<Rightarrow> ctx \<Rightarrow> memory_store \<Rightarrow> string \<Rightarrow> terminal_transition \<Rightarrow> store_err option \<times> memory_store" where
  "MarkFailed clock ctx s messageID t = (case ctx of Some e \<Rightarrow> (Some (CtxErr e), s) | None \<Rightarrow>
     let t = (if is_zero (tt_At t) then t\<lparr>tt_At := clock\<rparr> else t) in
     case map_of (mem_messages s) messageID of
       None \<Rightarrow> (Some ErrMessageNotFound, s)
     | Some m \<Rightarrow>
         if ms_Status m = MessageStatusDelivered \<or> ms_Status m = MessageStatusDiscarded then (None, s)
         else let firstTransition = (ms_Status m \<noteq> MessageStatusFailed \<or> ms_TerminalReason m = '''');
                  m = (clear_claim m)\<lparr>ms_Status := MessageStatusFailed,
                    ms_Attempts := (if tt_Attempted t then ms_Attempts m + 1 else ms_Attempts m),
                    ms_LastError := tt_Reason t, ms_NextRetryAt := zero_time, ms_UpdatedAt := tt_At t\<rparr>;
                  (m, s) = (if firstTransition then first_transition s m MessageStatusFailed t else (m, s))
              in (None, update_message s messageID m))"

definition RequeueWithCapacity ::
  "time \<Rightarrow> ctx \<Rightarrow> memory_store \<Rightarrow> string \<Rightarrow> time \<Rightarrow> queue_capacity \<Rightarrow> store_err option \<times> memory_store" where
  "RequeueWithCapacity clock ctx s messageID requeuedAt capacity =
    (case ctx of Some e \<Rightarrow> (Some (CtxErr e), s) | None \<Rightarrow>
     let requeuedAt = (if is_zero requeuedAt then clock else requeuedAt) in
     case map_of (mem_messages s) messageID of
       None \<Rightarrow> (Some ErrMessageNotFound, s)
     | Some m \<Rightarrow>
         (case (if ms_Status m \<noteq> MessageStatusPending
                then checkQueueCapacityLocked s (ms_ClientID m) (ms_DeviceID m) capacity else None) of
            Some err \<Rightarrow> (Some err, s)
          | None \<Rightarrow> (None, update_message s messageID ((clear_claim m)\<lparr>ms_Status := MessageStatusPending,
                ms_Attempts := 0, ms_LastError := '''', ms_NextRetryAt := zero_time, ms_SessionID := '''',
                ms_SentAt := zero_time, ms_DeliveredAt := zero_time, ms_TerminalReason := '''',
                ms_TerminalAt := zero_time, ms_TerminalPublishStatus := TerminalPublicationEmpty,
                ms_TerminalPublishAttempts := 0, ms_TerminalNextPublishAt := zero_time,
                ms_TerminalPublishError := '''', ms_TerminalPublishedAt := zero_time,
                ms_UpdatedAt := requeuedAt\<rparr>))))"

definition Requeue :: "time \<Rightarrow> ctx \<Rightarrow> memory_store \<Rightarrow> string \<Rightarrow> time \<Rightarrow> store_err option \<times> memory_store" where
  "Requeue clock ctx s messageID requeuedAt = RequeueWithCapacity clock ctx s messageID requeuedAt no_capacity"

definition Discard ::
  "time \<Rightarrow> ctx \<Rightarrow> memory_store \<Rightarrow> string \<Rightarrow> string \<Rightarrow> terminal_transition
     \<Rightarrow> store_err option \<times> memory_store" where
  "Discard clock ctx s messageID reason t = (case ctx of Some e \<Rightarrow> (Some (CtxErr e), s) | None \<Rightarrow>
     let t = (if is_zero (tt_At t) then t\<lparr>tt_At := clock\<rparr> else t);
         t = (if tt_Reason t = '''' then t\<lparr>tt_Reason := TerminalReasonOperatorDiscard\<rparr> else t) in
     case map_of (mem_messages s) messageID of
       None \<Rightarrow> (Some ErrMessageNotFound, s)
     | Some m \<Rightarrow>
         let firstTransition = (ms_Status m \<noteq> MessageStatusDiscarded \<or> ms_TerminalReason m = '''');
             m = (clear_claim m)\<lparr>ms_Status := MessageStatusDiscarded, ms_LastError := reason,
               ms_NextRetryAt := zero_time, ms_UpdatedAt := tt_At t\<rparr>;
             (m, s) = (if firstTransition then first_transition s m MessageStatusDiscarded t else (m, s))
         in (None, update_message s messageID m))"

section \<open>Terminal events\<close>

definition unpublished :: "terminal_record \<Rightarrow> bool" where
  "unpublished r \<longleftrightarrow> tr_Status r = TerminalPublicationPending \<or> tr_Status r = TerminalPublicationFailed"

definition terminal_due :: "time \<Rightarrow> terminal_record \<Rightarrow> bool" where
  "terminal_due now r \<longleftrightarrow> unpublished r
     \<and> \<not> (\<not> is_zero (tr_NextAttemptAt r) \<and> after (tr_NextAttemptAt r) now)
     \<and> \<not> (\<not> is_zero (tr_ClaimUntil r) \<and> after (tr_ClaimUntil r) now)"

definition terminal_lt :: "terminal_record \<Rightarrow> terminal_record \<Rightarrow> bool" where
  "terminal_lt l r = (if te_TerminalAt (tr_Event l) = te_TerminalAt (tr_Event r)
     then te_EventID (tr_Event l) < te_EventID (tr_Event r)
     else before (te_TerminalAt (tr_Event l)) (te_TerminalAt (tr_Event r)))"

definition due_terminals :: "memory_store \<Rightarrow> time \<Rightarrow> int \<Rightarrow> terminal_record list" where
  "due_terminals s now limit =
    (let records = sort_slice terminal_lt (filter (terminal_due now) (vals (mem_terminalEvents s)))
     in if limit < int (length records) then take (nat limit) records else records)"

definition ClaimDueTerminal ::
  "time \<Rightarrow> ctx \<Rightarrow> memory_store \<Rightarrow> time \<Rightarrow> int \<Rightarrow> string \<Rightarrow> duration
     \<Rightarrow> (store_err + terminal_record list) \<times> memory_store" where
  "ClaimDueTerminal clock ctx s now limit owner lease = (case ctx of Some e \<Rightarrow> (Inl (CtxErr e), s) | None \<Rightarrow>
     let now = (if is_zero now then clock else now);
         limit = (if limit \<le> 0 then 100 else limit);
         lease = (if lease \<le> 0 then 30 * second else lease);
         records = due_terminals s now limit;
         records = map (\<lambda>r. r\<lparr>tr_ClaimOwner := owner, tr_ClaimUntil := now + lease\<rparr>) records
     in (Inr records, s\<lparr>mem_terminalEvents :=
           fold (\<lambda>r. put (te_EventID (tr_Event r)) r) records (mem_terminalEvents s)\<rparr>))"

definition MarkTerminalPublished ::
  "time \<Rightarrow> ctx \<Rightarrow> memory_store \<Rightarrow> string \<Rightarrow> message_status \<Rightarrow> time \<Rightarrow> store_err option \<times> memory_store" where
  "MarkTerminalPublished clock ctx s messageID status publishedAt =
    (case ctx of Some e \<Rightarrow> (Some (CtxErr e), s) | None \<Rightarrow>
     let publishedAt = (if is_zero publishedAt then clock else publishedAt);
         key = terminalEventID messageID status in
     case map_of (mem_terminalEvents s) key of
       None \<Rightarrow> (Some ErrMessageNotFound, s)
     | Some r \<Rightarrow>
         if tr_Status r = TerminalPublicationPublished then (None, s)
         else let r = r\<lparr>tr_Status := TerminalPublicationPublished,
                    tr_PublishAttempts := tr_PublishAttempts r + 1, tr_NextAttemptAt := zero_time,
                    tr_LastError := '''', tr_PublishedAt := publishedAt, tr_ClaimOwner := '''',
                    tr_ClaimUntil := zero_time\<rparr>;
                  s = s\<lparr>mem_terminalEvents := put key r (mem_terminalEvents s)\<rparr>
              in (None, case map_of (mem_messages s) messageID of
                   None \<Rightarrow> s
                 | Some m \<Rightarrow>
                     if ms_Status m = status
                     then update_message s messageID (m\<lparr>ms_TerminalPublishStatus := TerminalPublicationPublished,
                            ms_TerminalPublishAttempts := tr_PublishAttempts r,
                            ms_TerminalNextPublishAt := zero_time, ms_TerminalPublishError := '''',
                            ms_TerminalPublishedAt := publishedAt\<rparr>)
                     else s))"

definition MarkTerminalPublishFailed ::
  "ctx \<Rightarrow> memory_store \<Rightarrow> string \<Rightarrow> message_status \<Rightarrow> string \<Rightarrow> time \<Rightarrow> store_err option \<times> memory_store" where
  "MarkTerminalPublishFailed ctx s messageID status reason nextAttemptAt =
    (case ctx of Some e \<Rightarrow> (Some (CtxErr e), s) | None \<Rightarrow>
     let key = terminalEventID messageID status in
     case map_of (mem_terminalEvents s) key of
       None \<Rightarrow> (Some ErrMessageNotFound, s)
     | Some r \<Rightarrow>
         if tr_Status r = TerminalPublicationPublished then (None, s)
         else let r = r\<lparr>tr_Status := TerminalPublicationFailed,
                    tr_PublishAttempts := tr_PublishAttempts r + 1, tr_NextAttemptAt := nextAttemptAt,
                    tr_LastError := reason, tr_ClaimOwner := '''', tr_ClaimUntil := zero_time\<rparr>;
                  s = s\<lparr>mem_terminalEvents := put key r (mem_terminalEvents s)\<rparr>
              in (None, case map_of (mem_messages s) messageID of
                   None \<Rightarrow> s
                 | Some m \<Rightarrow>
                     if ms_Status m = status
                     then update_message s messageID (m\<lparr>ms_TerminalPublishStatus := TerminalPublicationFailed,
                            ms_TerminalPublishAttempts := tr_PublishAttempts r,
                            ms_TerminalNextPublishAt := nextAttemptAt, ms_TerminalPublishError := reason\<rparr>)
                     else s))"

section \<open>Retention\<close>

definition hasUnpublishedTerminalEvent :: "memory_store \<Rightarrow> string \<Rightarrow> bool" where
  "hasUnpublishedTerminalEvent s messageID \<longleftrightarrow>
     (\<exists>r\<in>set (vals (mem_terminalEvents s)). te_MessageID (tr_Event r) = messageID \<and> unpublished r)"

definition retention_lt :: "message \<Rightarrow> message \<Rightarrow> bool" where
  "retention_lt l r = (if retentionTime l = retentionTime r then ms_MessageID l < ms_MessageID r
     else before (retentionTime l) (retentionTime r))"

definition expired :: "memory_store \<Rightarrow> message_status \<Rightarrow> time \<Rightarrow> message \<Rightarrow> bool" where
  "expired s status cutoff m \<longleftrightarrow> ms_Status m = status \<and> \<not> hasUnpublishedTerminalEvent s (ms_MessageID m)
     \<and> \<not> (is_zero (retentionTime m) \<or> \<not> before (retentionTime m) cutoff)"

definition expired_messages :: "memory_store \<Rightarrow> message_status \<Rightarrow> time \<Rightarrow> int \<Rightarrow> message list" where
  "expired_messages s status cutoff limit =
    (let messages = sort_slice retention_lt (filter (expired s status cutoff) (vals (mem_messages s)))
     in if limit < int (length messages) then take (nat limit) messages else messages)"

definition delete_message :: "message \<Rightarrow> memory_store \<Rightarrow> memory_store" where
  "delete_message m s = s\<lparr>mem_messages := del (ms_MessageID m) (mem_messages s),
     mem_terminalEvents := del (terminalEventID (ms_MessageID m) MessageStatusDiscarded)
       (del (terminalEventID (ms_MessageID m) MessageStatusFailed) (mem_terminalEvents s))\<rparr>"

definition DeleteExpired ::
  "ctx \<Rightarrow> memory_store \<Rightarrow> message_status \<Rightarrow> time \<Rightarrow> int \<Rightarrow> (store_err + nat) \<times> memory_store" where
  "DeleteExpired ctx s status cutoff limit = (case ctx of Some e \<Rightarrow> (Inl (CtxErr e), s) | None \<Rightarrow>
     if is_zero cutoff then (Inr 0, s)
     else let limit = (if limit \<le> 0 then 1000 else limit);
              messages = expired_messages s status cutoff limit
          in (Inr (length messages), fold delete_message messages s))"

end
