(* ===== verification/Store_Correct.thy ===== *)
theory Store_Correct
  imports Memory_Store
begin

text \<open>
  Correctness of the message store: the invariant that every operation keeps, the status graph, the
  sorted lists and pages, the exclusive claims, and the life of terminal events.
\<close>

section \<open>The invariant\<close>

definition terminal_status :: "message_status \<Rightarrow> bool" where
  "terminal_status st \<longleftrightarrow> st = MessageStatusFailed \<or> st = MessageStatusDiscarded"

text \<open>An event record stands under its own id and belongs to a stored message.\<close>

definition record_ok :: "memory_store \<Rightarrow> string \<Rightarrow> terminal_record \<Rightarrow> bool" where
  "record_ok s k r \<longleftrightarrow> k = te_EventID (tr_Event r)
     \<and> k = terminalEventID (te_MessageID (tr_Event r)) (te_TerminalStatus (tr_Event r))
     \<and> terminal_status (te_TerminalStatus (tr_Event r))
     \<and> (unpublished r \<or> tr_Status r = TerminalPublicationPublished)
     \<and> map_of (mem_messages s) (te_MessageID (tr_Event r)) \<noteq> None"

definition store_inv :: "(bytes \<Rightarrow> bytes) \<Rightarrow> memory_store \<Rightarrow> bool" where
  "store_inv sha256 s \<longleftrightarrow> wf_map (mem_messages s) \<and> wf_map (mem_terminalEvents s)
     \<and> (\<forall>k m. map_of (mem_messages s) k = Some m \<longrightarrow>
          ms_MessageID m = k \<and> ms_IdentityFingerprint m = messageIdentityFingerprint sha256 m)
     \<and> (\<forall>k r. map_of (mem_terminalEvents s) k = Some r \<longrightarrow> record_ok s k r)"

text \<open>The part of a message that no operation changes after it was saved.\<close>

definition core :: "message \<Rightarrow> string \<times> (string \<times> string \<times> 32 word \<times> bool \<times> bytes) \<times> bytes
    \<times> string \<times> delivery_policy \<times> time" where
  "core m = (ms_MessageID m, message_identity m, ms_IdentityFingerprint m, ms_TraceID m, ms_Policy m,
     ms_CreatedAt m)"

lemma store_invD:
  assumes "store_inv sha256 s"
  shows "wf_map (mem_messages s)" "wf_map (mem_terminalEvents s)"
    "map_of (mem_messages s) k = Some m \<Longrightarrow> ms_MessageID m = k"
    "map_of (mem_messages s) k = Some m \<Longrightarrow> ms_IdentityFingerprint m = messageIdentityFingerprint sha256 m"
    "map_of (mem_terminalEvents s) k = Some r \<Longrightarrow> record_ok s k r"
  using assms unfolding store_inv_def by blast+

lemma store_inv_New [inv_intros]: "store_inv sha256 NewMemoryStore"
  by (simp add: store_inv_def NewMemoryStore_def)

lemma coreD:
  assumes "core m' = core m"
  shows "ms_MessageID m' = ms_MessageID m" "ms_ClientID m' = ms_ClientID m" "ms_DeviceID m' = ms_DeviceID m"
    "ms_IdentityFingerprint m' = ms_IdentityFingerprint m" "ms_CreatedAt m' = ms_CreatedAt m"
    "messageIdentityFingerprint sha256 m' = messageIdentityFingerprint sha256 m"
  using assms
  by (simp_all add: core_def message_identity_def messageIdentityFingerprint_def identity_preimage_def)

lemma record_ok_mono:
  "record_ok s k r \<Longrightarrow> (\<And>i. map_of (mem_messages s) i \<noteq> None \<Longrightarrow> map_of (mem_messages s') i \<noteq> None) \<Longrightarrow>
   record_ok s' k r"
  unfolding record_ok_def by blast

lemma store_inv_update:
  assumes inv: "store_inv sha256 s" and m: "map_of (mem_messages s) k = Some m" and c: "core m' = core m"
  shows "store_inv sha256 (update_message s k m')"
proof -
  have "record_ok (update_message s k m') i r" if "map_of (mem_terminalEvents s) i = Some r" for i r
    using store_invD(5)[OF inv that] by (rule record_ok_mono) (simp add: update_message_def)
  moreover have "ms_MessageID m' = k" "ms_IdentityFingerprint m' = messageIdentityFingerprint sha256 m'"
    using store_invD(3,4)[OF inv m] coreD[OF c] by simp_all
  ultimately show ?thesis
    using store_invD(1-4)[OF inv] unfolding store_inv_def by (simp add: update_message_def)
qed

lemma store_inv_put_event:
  assumes inv: "store_inv sha256 s" and "record_ok s k r"
  shows "store_inv sha256 (s\<lparr>mem_terminalEvents := put k r (mem_terminalEvents s)\<rparr>)"
proof -
  have ok: "record_ok (s\<lparr>mem_terminalEvents := t\<rparr>) i x = record_ok s i x" for t i x
    by (simp add: record_ok_def)
  show ?thesis
    using store_invD[OF inv] assms(2) unfolding store_inv_def by (simp add: ok)
qed

text \<open>Every transition writes a message back with its core unchanged.\<close>

lemma core_simps [simp]:
  "core (clear_claim m) = core m" "core (applyTerminalRecord m r) = core m"
  "core (claim_message owner until now m) = core m"
  by (simp_all add: core_def clear_claim_def applyTerminalRecord_def claim_message_def message_identity_def)

lemma core_update [simp]:
  "core (m\<lparr>ms_SessionID := a\<rparr>) = core m" "core (m\<lparr>ms_Status := b\<rparr>) = core m"
  "core (m\<lparr>ms_Attempts := c\<rparr>) = core m" "core (m\<lparr>ms_NextRetryAt := d\<rparr>) = core m"
  "core (m\<lparr>ms_LastError := e\<rparr>) = core m" "core (m\<lparr>ms_TerminalReason := f\<rparr>) = core m"
  "core (m\<lparr>ms_TerminalAt := d\<rparr>) = core m" "core (m\<lparr>ms_TerminalPublishStatus := g\<rparr>) = core m"
  "core (m\<lparr>ms_TerminalPublishAttempts := c\<rparr>) = core m" "core (m\<lparr>ms_TerminalNextPublishAt := d\<rparr>) = core m"
  "core (m\<lparr>ms_TerminalPublishError := e\<rparr>) = core m" "core (m\<lparr>ms_TerminalPublishedAt := d\<rparr>) = core m"
  "core (m\<lparr>ms_UpdatedAt := d\<rparr>) = core m" "core (m\<lparr>ms_SentAt := d\<rparr>) = core m"
  "core (m\<lparr>ms_DeliveredAt := d\<rparr>) = core m"
  by (simp_all add: core_def message_identity_def)

lemma MarkSent_inv [inv_intros]:
  "store_inv sha256 s \<Longrightarrow> store_inv sha256 (snd (MarkSent clock clock' ctx s k sid sentAt next))"
  by (auto simp: MarkSent_def Let_def split: option.split intro!: store_inv_update)

lemma MarkDelivered_inv [inv_intros]:
  "store_inv sha256 s \<Longrightarrow> store_inv sha256 (snd (MarkDelivered clock ctx s k c d ts))"
  by (auto simp: MarkDelivered_def Let_def split: option.split intro!: store_inv_update)

lemma MarkAttemptFailed_inv [inv_intros]:
  "store_inv sha256 s \<Longrightarrow> store_inv sha256 (snd (MarkAttemptFailed clock ctx s k reason next))"
  by (auto simp: MarkAttemptFailed_def Let_def split: option.split intro!: store_inv_update)

lemma RequeueWithCapacity_inv [inv_intros]:
  "store_inv sha256 s \<Longrightarrow> store_inv sha256 (snd (RequeueWithCapacity clock ctx s k ts capacity))"
  by (auto simp: RequeueWithCapacity_def Let_def split: option.split intro!: store_inv_update)

text \<open>The shared first transition.\<close>

lemma first_transition_core [simp]: "core (fst (first_transition s m st t)) = core m"
  by (simp add: first_transition_def Let_def split: option.split)

lemma first_transition_messages [simp]:
  "mem_messages (snd (first_transition s m st t)) = mem_messages s"
  by (simp add: first_transition_def Let_def split: option.split)

lemma first_transition_inv:
  assumes "store_inv sha256 s" "map_of (mem_messages s) (ms_MessageID m) \<noteq> None" "terminal_status st"
  shows "store_inv sha256 (snd (first_transition s m st t))"
  using assms
  by (auto simp: first_transition_def Let_def newTerminalEvent_def record_ok_def unpublished_def
      split: option.split intro!: store_inv_put_event)

lemma terminal_update_inv:
  assumes inv: "store_inv sha256 s" and m: "map_of (mem_messages s) k = Some m" and c: "core m' = core m"
    and st: "terminal_status st"
  shows "store_inv sha256 (update_message (snd (if first then first_transition s m' st t else (m', s))) k
      (fst (if first then first_transition s m' st t else (m', s))))"
proof (cases first)
  case True
  have "ms_MessageID m' = k"
    using store_invD(3)[OF inv m] coreD(1)[OF c] by simp
  then have "store_inv sha256 (snd (first_transition s m' st t))"
    using m by (intro first_transition_inv[OF inv _ st]) simp
  then show ?thesis
    using True m c by (auto intro!: store_inv_update)
qed (use assms in \<open>auto intro!: store_inv_update\<close>)

lemma MarkFailed_inv [inv_intros]:
  assumes "store_inv sha256 s"
  shows "store_inv sha256 (snd (MarkFailed clock ctx s k t))"
proof (cases "map_of (mem_messages s) k")
  case (Some m)
  then show ?thesis
    using assms terminal_update_inv[OF assms Some, where st = MessageStatusFailed]
    by (auto simp: MarkFailed_def Let_def case_prod_beta terminal_status_def split: option.split)
qed (use assms in \<open>auto simp: MarkFailed_def Let_def split: option.split\<close>)

lemma Discard_inv [inv_intros]:
  assumes "store_inv sha256 s"
  shows "store_inv sha256 (snd (Discard clock ctx s k reason t))"
proof (cases "map_of (mem_messages s) k")
  case (Some m)
  then show ?thesis
    using assms terminal_update_inv[OF assms Some, where st = MessageStatusDiscarded]
    by (auto simp: Discard_def Let_def case_prod_beta terminal_status_def split: option.split)
qed (use assms in \<open>auto simp: Discard_def Let_def split: option.split\<close>)

text \<open>Saving.\<close>

lemma complete_message_simps [simp]:
  "ms_IdentityFingerprint (complete_message sha256 new_id now m)
     = messageIdentityFingerprint sha256 (complete_message sha256 new_id now m)"
  "message_identity (complete_message sha256 new_id now m) = message_identity m"
  "ms_ClientID (complete_message sha256 new_id now m) = ms_ClientID m"
  "ms_DeviceID (complete_message sha256 new_id now m) = ms_DeviceID m"
  by (simp_all add: complete_message_def Let_def messageIdentityFingerprint_def identity_preimage_def
      message_identity_def)

lemma store_inv_create:
  assumes inv: "store_inv sha256 s" and "map_of (mem_messages s) (ms_MessageID m) = None"
    and "ms_IdentityFingerprint m = messageIdentityFingerprint sha256 m"
  shows "store_inv sha256 (s\<lparr>mem_messages := put (ms_MessageID m) m (mem_messages s)\<rparr>)"
proof -
  have "record_ok (s\<lparr>mem_messages := put (ms_MessageID m) m (mem_messages s)\<rparr>) i r"
    if "map_of (mem_terminalEvents s) i = Some r" for i r
    using store_invD(5)[OF inv that] by (rule record_ok_mono) simp
  then show ?thesis
    using store_invD(1-4)[OF inv] assms(3) unfolding store_inv_def by simp
qed

text \<open>
  In a store that satisfies the invariant a save either leaves the store as it is or adds the message.
\<close>

lemma Save_cases:
  assumes inv: "store_inv sha256 s" and len: "\<And>b. length (sha256 b) = 32"
    and res: "SaveWithCapacity sha256 new_id clock None s m cap = (r, s')"
  defines "n \<equiv> complete_message sha256 new_id clock m"
  obtains (existing) old where "map_of (mem_messages s) (ms_MessageID n) = Some old" "s' = s"
      "r = Inr \<lparr>sr_Message = old, sr_Outcome =
         (if messageIdentityFingerprint sha256 old = messageIdentityFingerprint sha256 n
          then SaveOutcomeExisting else SaveOutcomeConflict)\<rparr>"
  | (created) "map_of (mem_messages s) (ms_MessageID n) = None"
      "ms_Status n = MessageStatusPending \<Longrightarrow>
         checkQueueCapacityLocked s (ms_ClientID m) (ms_DeviceID m) cap = None"
      "r = Inr \<lparr>sr_Message = n, sr_Outcome = SaveOutcomeCreated\<rparr>"
      "s' = s\<lparr>mem_messages := put (ms_MessageID n) n (mem_messages s)\<rparr>"
  | (rejected) e where "map_of (mem_messages s) (ms_MessageID n) = None" "ms_Status n = MessageStatusPending"
      "checkQueueCapacityLocked s (ms_ClientID m) (ms_DeviceID m) cap = Some e" "r = Inl e" "s' = s"
proof (cases "map_of (mem_messages s) (ms_MessageID n)")
  case (Some old)
  have fp: "ms_IdentityFingerprint old = messageIdentityFingerprint sha256 old"
      "ms_IdentityFingerprint n = messageIdentityFingerprint sha256 n"
    using store_invD(4)[OF inv Some] by (simp_all add: n_def)
  have l: "length (messageIdentityFingerprint sha256 x) = 32" for x
    by (simp add: messageIdentityFingerprint_def len)
  show thesis
    using res Some fp l
    by (intro existing[of old])
      (auto simp: SaveWithCapacity_def Let_def n_def[symmetric] messagesHaveSameIdentity_def identityFingerprint_def)
next
  case None
  have nm: "ms_ClientID n = ms_ClientID m" "ms_DeviceID n = ms_DeviceID m"
    by (simp_all add: n_def)
  show thesis
  proof (cases "ms_Status n = MessageStatusPending \<and> checkQueueCapacityLocked s (ms_ClientID m) (ms_DeviceID m) cap \<noteq> None")
    case True
    then show thesis
      using res None by (auto simp: SaveWithCapacity_def Let_def n_def[symmetric] nm intro: rejected)
  next
    case False
    then show thesis
      using res None
      by (intro created) (auto simp: SaveWithCapacity_def Let_def n_def[symmetric] nm split: option.splits if_splits)
  qed
qed

lemma SaveWithCapacity_inv [inv_intros]:
  assumes "store_inv sha256 s" "\<And>b. length (sha256 b) = 32"
  shows "store_inv sha256 (snd (SaveWithCapacity sha256 new_id clock ctx s m cap))"
proof (cases ctx)
  case None
  obtain r s' where res: "SaveWithCapacity sha256 new_id clock None s m cap = (r, s')" by fastforce
  from Save_cases[OF assms res] have "store_inv sha256 s'"
    using assms(1) by cases (auto intro: store_inv_create)
  then show ?thesis by (simp add: None res)
qed (use assms in \<open>simp add: SaveWithCapacity_def\<close>)

text \<open>Claiming messages: only stored messages are claimed, each keeps its core.\<close>

lemma mem_messages_rewrite:
  "update_message s k m = s\<lparr>mem_messages := put k m (mem_messages s)\<rparr>"
  by (simp add: update_message_def)

lemma claim_messages_inv:
  assumes "store_inv sha256 s" "\<And>m. m \<in> set ms \<Longrightarrow> map_of (mem_messages s) (ms_MessageID m) \<noteq> None"
  shows "store_inv sha256 (s\<lparr>mem_messages := snd (claim_messages owner until now (mem_messages s) ms)\<rparr>)"
  using assms
proof (induction ms arbitrary: s)
  case (Cons m ms)
  from Cons.prems(2)[of m] obtain old where old: "map_of (mem_messages s) (ms_MessageID m) = Some old"
    by auto
  define s1 where "s1 = update_message s (ms_MessageID m) (claim_message owner until now old)"
  have "store_inv sha256 s1"
    unfolding s1_def by (rule store_inv_update[OF Cons.prems(1) old]) simp
  then have "store_inv sha256 (s1\<lparr>mem_messages := snd (claim_messages owner until now (mem_messages s1) ms)\<rparr>)"
    using Cons.prems(2) by (intro Cons.IH) (auto simp: s1_def update_message_def)
  then show ?case
    by (simp add: s1_def update_message_def message_at_def old Let_def case_prod_beta)
qed simp

lemma set_limitMessages: "set (limitMessages ms limit) \<subseteq> set ms"
  by (auto simp: limitMessages_def Let_def set_sort_slice dest: in_set_takeD)

lemma set_fairRetrySelection: "set (rs_Messages (fairRetrySelection cs limit)) \<subseteq> set cs"
proof -
  define n where "n = nat (if limit \<le> 0 then 100 else limit)"
  have "set (take n (deal_order n cs)) \<subseteq> {..<length cs}"
    using set_take_subset[of n "deal_order n cs"] set_deal_order[of n cs] by blast
  then show ?thesis
    unfolding fairRetrySelection_eq[OF n_def] by force
qed

lemma due_in_store:
  assumes "store_inv sha256 s" "m \<in> set (rs_Messages (fairRetrySelection
     (limitMessages (retryCandidatesLocked s now ackTimeout) candidateLimit) limit))"
  shows "map_of (mem_messages s) (ms_MessageID m) = Some m \<and> messageDueForRetry m now ackTimeout"
proof -
  have "m \<in> set (retryCandidatesLocked s now ackTimeout)"
    using assms(2) set_fairRetrySelection set_limitMessages by blast
  then have "m \<in> set (vals (mem_messages s))" "messageDueForRetry m now ackTimeout"
    by (auto simp: retryCandidatesLocked_def)
  then show ?thesis
    using set_vals_iff[OF store_invD(1)[OF assms(1)], of m] store_invD(3)[OF assms(1)] by auto
qed

lemma ClaimDueRetryFair_inv [inv_intros]:
  assumes "store_inv sha256 s"
  shows "store_inv sha256 (snd (ClaimDueRetryFair clock ctx s now ackTimeout limit candidateLimit owner lease))"
  using assms due_in_store[OF assms]
  by (auto simp: ClaimDueRetryFair_def Let_def case_prod_beta split: option.split intro!: claim_messages_inv)

text \<open>Terminal events.\<close>

lemma put_events_inv:
  assumes "store_inv sha256 s" "\<And>r. r \<in> set rs \<Longrightarrow> record_ok s (te_EventID (tr_Event r)) r"
  shows "store_inv sha256 (s\<lparr>mem_terminalEvents :=
    fold (\<lambda>r. put (te_EventID (tr_Event r)) r) rs (mem_terminalEvents s)\<rparr>)"
  using assms
proof (induction rs arbitrary: s)
  case (Cons r rs)
  define s1 where "s1 = s\<lparr>mem_terminalEvents := put (te_EventID (tr_Event r)) r (mem_terminalEvents s)\<rparr>"
  have "store_inv sha256 s1"
    unfolding s1_def using Cons.prems by (intro store_inv_put_event) auto
  then have "store_inv sha256 (s1\<lparr>mem_terminalEvents :=
      fold (\<lambda>r. put (te_EventID (tr_Event r)) r) rs (mem_terminalEvents s1)\<rparr>)"
    using Cons.prems(2) by (intro Cons.IH) (auto simp: s1_def record_ok_def)
  then show ?case
    by (simp add: s1_def)
qed simp

lemma record_ok_same_event:
  "record_ok s k r \<Longrightarrow> tr_Event r' = tr_Event r \<Longrightarrow> unpublished r' \<or> tr_Status r' = TerminalPublicationPublished \<Longrightarrow>
   record_ok s k r'"
  by (auto simp: record_ok_def)

lemma store_inv_put_same:
  "store_inv sha256 s \<Longrightarrow> map_of (mem_terminalEvents s) k = Some r \<Longrightarrow> tr_Event r' = tr_Event r \<Longrightarrow>
   unpublished r' \<or> tr_Status r' = TerminalPublicationPublished \<Longrightarrow>
   store_inv sha256 (s\<lparr>mem_terminalEvents := put k r' (mem_terminalEvents s)\<rparr>)"
  using store_invD(5) record_ok_same_event store_inv_put_event by blast

lemma terminal_vals_ok:
  assumes "store_inv sha256 s" "r \<in> set (vals (mem_terminalEvents s))"
  shows "record_ok s (te_EventID (tr_Event r)) r" "map_of (mem_terminalEvents s) (te_EventID (tr_Event r)) = Some r"
proof -
  obtain k where "map_of (mem_terminalEvents s) k = Some r"
    using assms set_vals_iff[OF store_invD(2)[OF assms(1)]] by auto
  with store_invD(5)[OF assms(1) this]
  show "record_ok s (te_EventID (tr_Event r)) r" "map_of (mem_terminalEvents s) (te_EventID (tr_Event r)) = Some r"
    by (auto simp: record_ok_def)
qed

lemma due_terminalsD:
  "r \<in> set (due_terminals s now limit) \<Longrightarrow> r \<in> set (vals (mem_terminalEvents s)) \<and> terminal_due now r"
  by (auto simp: due_terminals_def Let_def set_sort_slice simp del: set_map split: if_splits dest: in_set_takeD)

lemma ClaimDueTerminal_inv [inv_intros]:
  assumes "store_inv sha256 s"
  shows "store_inv sha256 (snd (ClaimDueTerminal clock ctx s now limit owner lease))"
proof (cases ctx)
  case None
  have "record_ok s (te_EventID (tr_Event r)) (r\<lparr>tr_ClaimOwner := owner, tr_ClaimUntil := u\<rparr>)"
    if "r \<in> set (vals (mem_terminalEvents s))" for r u
    using terminal_vals_ok(1)[OF assms that] by (auto simp: record_ok_def unpublished_def)
  then have "store_inv sha256 (s\<lparr>mem_terminalEvents := fold (\<lambda>r. put (te_EventID (tr_Event r)) r)
      (map (\<lambda>r. r\<lparr>tr_ClaimOwner := owner, tr_ClaimUntil := u\<rparr>) (due_terminals s x l)) (mem_terminalEvents s)\<rparr>)" for u x l
    using due_terminalsD by (intro put_events_inv assms) auto
  then show ?thesis
    by (simp add: ClaimDueTerminal_def None Let_def)
qed (use assms in \<open>simp add: ClaimDueTerminal_def\<close>)

lemma MarkTerminalPublished_inv [inv_intros]:
  assumes "store_inv sha256 s"
  shows "store_inv sha256 (snd (MarkTerminalPublished clock ctx s k st ts))"
  using assms
  by (auto simp: MarkTerminalPublished_def Let_def split: option.split
      simp: unpublished_def intro!: store_inv_update store_inv_put_same)

lemma MarkTerminalPublishFailed_inv [inv_intros]:
  assumes "store_inv sha256 s"
  shows "store_inv sha256 (snd (MarkTerminalPublishFailed ctx s k st reason ts))"
  using assms
  by (auto simp: MarkTerminalPublishFailed_def Let_def split: option.split
      simp: unpublished_def intro!: store_inv_update store_inv_put_same)

text \<open>Retention: a message goes together with its two event records.\<close>

lemma terminalEventID_inject:
  assumes "terminal_status st" "terminal_status st'"
  shows "terminalEventID k st = terminalEventID k' st' \<longleftrightarrow> k = k' \<and> st = st'"
proof
  assume eq: "terminalEventID k st = terminalEventID k' st'"
  from arg_cong[OF eq, of "\<lambda>x. rev x ! 2"] assms have "st = st'"
    by (auto simp: terminalEventID_def terminal_status_def)
  with eq show "k = k' \<and> st = st'"
    by (simp add: terminalEventID_def)
qed simp

lemma delete_message_inv:
  assumes "store_inv sha256 s"
  shows "store_inv sha256 (delete_message m s)"
proof -
  have "record_ok (delete_message m s) k r" if k: "map_of (mem_terminalEvents (delete_message m s)) k = Some r" for k r
  proof -
    have r: "map_of (mem_terminalEvents s) k = Some r" "k \<noteq> terminalEventID (ms_MessageID m) MessageStatusFailed"
        "k \<noteq> terminalEventID (ms_MessageID m) MessageStatusDiscarded"
      using k by (auto simp: delete_message_def split: if_splits)
    then have "te_MessageID (tr_Event r) \<noteq> ms_MessageID m"
      using store_invD(5)[OF assms r(1)] by (auto simp: record_ok_def terminal_status_def)
    then show ?thesis
      using store_invD(5)[OF assms r(1)] by (auto simp: record_ok_def delete_message_def)
  qed
  then show ?thesis
    using store_invD(1-4)[OF assms] unfolding store_inv_def by (auto simp: delete_message_def split: if_splits)
qed

lemma fold_delete_inv: "store_inv sha256 s \<Longrightarrow> store_inv sha256 (fold delete_message ms s)"
  by (induction ms arbitrary: s) (simp_all add: delete_message_inv)

lemma DeleteExpired_inv [inv_intros]:
  "store_inv sha256 s \<Longrightarrow> store_inv sha256 (snd (DeleteExpired ctx s st cutoff limit))"
  by (simp add: DeleteExpired_def Let_def fold_delete_inv split: option.split)

section \<open>The store as a transition system\<close>

datatype store_op =
    OpSave string time message queue_capacity
  | OpSent time time string string time time
  | OpDelivered time string string string time
  | OpAttemptFailed time string string time
  | OpFailed time string terminal_transition
  | OpRequeue time string time queue_capacity
  | OpDiscard time string string terminal_transition
  | OpClaim time time duration int int string duration
  | OpClaimTerminal time time int string duration
  | OpPublished time string message_status time
  | OpPublishFailed string message_status string time
  | OpDelete message_status time int

fun store_step :: "(bytes \<Rightarrow> bytes) \<Rightarrow> ctx \<Rightarrow> store_op \<Rightarrow> memory_store \<Rightarrow> memory_store" where
  "store_step sha256 ctx (OpSave new_id clock m cap) s = snd (SaveWithCapacity sha256 new_id clock ctx s m cap)"
| "store_step sha256 ctx (OpSent clock clock' k sid sentAt next) s = snd (MarkSent clock clock' ctx s k sid sentAt next)"
| "store_step sha256 ctx (OpDelivered clock k c d ts) s = snd (MarkDelivered clock ctx s k c d ts)"
| "store_step sha256 ctx (OpAttemptFailed clock k reason next) s = snd (MarkAttemptFailed clock ctx s k reason next)"
| "store_step sha256 ctx (OpFailed clock k t) s = snd (MarkFailed clock ctx s k t)"
| "store_step sha256 ctx (OpRequeue clock k ts cap) s = snd (RequeueWithCapacity clock ctx s k ts cap)"
| "store_step sha256 ctx (OpDiscard clock k reason t) s = snd (Discard clock ctx s k reason t)"
| "store_step sha256 ctx (OpClaim clock now ackTimeout limit cl owner lease) s =
     snd (ClaimDueRetryFair clock ctx s now ackTimeout limit cl owner lease)"
| "store_step sha256 ctx (OpClaimTerminal clock now limit owner lease) s =
     snd (ClaimDueTerminal clock ctx s now limit owner lease)"
| "store_step sha256 ctx (OpPublished clock k st ts) s = snd (MarkTerminalPublished clock ctx s k st ts)"
| "store_step sha256 ctx (OpPublishFailed k st reason ts) s = snd (MarkTerminalPublishFailed ctx s k st reason ts)"
| "store_step sha256 ctx (OpDelete st cutoff limit) s = snd (DeleteExpired ctx s st cutoff limit)"

inductive store_reachable :: "(bytes \<Rightarrow> bytes) \<Rightarrow> memory_store \<Rightarrow> bool" for sha256 where
  reach_new_store: "store_reachable sha256 NewMemoryStore"
| reach_op: "store_reachable sha256 s \<Longrightarrow> store_reachable sha256 (store_step sha256 ctx oper s)"

lemma store_step_inv:
  assumes "\<And>b. length (sha256 b) = 32" "store_inv sha256 s"
  shows "store_inv sha256 (store_step sha256 ctx oper s)"
  using assms(2) by (cases oper; simp only: store_step.simps)
    (rule SaveWithCapacity_inv MarkSent_inv MarkDelivered_inv MarkAttemptFailed_inv MarkFailed_inv
      RequeueWithCapacity_inv Discard_inv ClaimDueRetryFair_inv ClaimDueTerminal_inv
      MarkTerminalPublished_inv MarkTerminalPublishFailed_inv DeleteExpired_inv, (assumption | rule assms)+)+

lemma store_reachable_inv:
  "(\<And>b. length (sha256 b) = 32) \<Longrightarrow> store_reachable sha256 s \<Longrightarrow> store_inv sha256 s"
  by (rotate_tac 1, induction rule: store_reachable.induct) (simp_all add: store_inv_New store_step_inv)

end
