(* ===== verification/Store_Props.thy ===== *)
theory Store_Props
  imports Store_Correct
begin

text \<open>
  What the message store guarantees to its clients: saves are idempotent and bounded, transitions
  follow the status graph, claims are exclusive, lists and pages are complete and independent of map
  order, and no unpublished terminal event is lost.
\<close>

section \<open>How one operation may change a stored message\<close>

definition msgs_rel :: "(message \<Rightarrow> message \<Rightarrow> bool) \<Rightarrow> memory_store \<Rightarrow> memory_store \<Rightarrow> bool" where
  "msgs_rel R s s' \<longleftrightarrow> (\<forall>k m m'. map_of (mem_messages s) k = Some m \<longrightarrow>
     map_of (mem_messages s') k = Some m' \<longrightarrow> R m m')"

lemma msgs_rel_refl: "(\<And>m. R m m) \<Longrightarrow> msgs_rel R s s"
  by (simp add: msgs_rel_def)

lemma msgs_rel_events: "(\<And>m. R m m) \<Longrightarrow> msgs_rel R s (s\<lparr>mem_terminalEvents := t\<rparr>)"
  by (simp add: msgs_rel_def)

lemma msgs_rel_update:
  "(\<And>m. R m m) \<Longrightarrow> map_of (mem_messages s) k = Some m \<Longrightarrow> R m m' \<Longrightarrow> mem_messages s1 = mem_messages s \<Longrightarrow>
   msgs_rel R s (update_message s1 k m')"
  by (auto simp: msgs_rel_def update_message_def)

lemma msgs_rel_delete: "(\<And>m. R m m) \<Longrightarrow> msgs_rel R s (fold delete_message ms s)"
proof -
  assume R: "\<And>m. R m m"
  have "map_of (mem_messages (fold delete_message ms s)) k = Some m \<Longrightarrow> map_of (mem_messages s) k = Some m" for k m
    by (induction ms arbitrary: s) (fastforce simp: delete_message_def split: if_splits)+
  then show ?thesis
    using R by (fastforce simp: msgs_rel_def)
qed

lemma claim_messages_lookup:
  "map_of (snd (claim_messages owner until now store ms)) k = Some m' \<Longrightarrow> map_of store k = Some m \<Longrightarrow>
   m' = m \<or> m' = claim_message owner until now m"
proof (induction ms arbitrary: store m)
  case (Cons x ms)
  let ?st = "claim_message owner until now (message_at store (ms_MessageID x))"
  have *: "map_of (snd (claim_messages owner until now (put (ms_MessageID x) ?st store) ms)) k = Some m'"
    using Cons.prems(1) by (simp add: Let_def case_prod_beta)
  show ?case
  proof (cases "k = ms_MessageID x")
    case True
    then have "?st = claim_message owner until now m"
      using Cons.prems(2) by (simp add: message_at_def)
    moreover have "claim_message owner until now (claim_message owner until now m) = claim_message owner until now m"
      by (simp add: claim_message_def)
    ultimately show ?thesis
      using Cons.IH[OF *, of ?st] True by auto
  next
    case False
    then show ?thesis
      using Cons.IH[OF *, of m] Cons.prems(2) by simp
  qed
qed simp

lemma msgs_rel_claim:
  assumes "\<And>m. R m m" "\<And>m owner until now. R m (claim_message owner until now m)"
  shows "msgs_rel R s (snd (ClaimDueRetryFair clock ctx s now ackTimeout limit cl owner lease))"
  using assms claim_messages_lookup[of _ _ _ "mem_messages s"]
  by (auto simp: ClaimDueRetryFair_def Let_def case_prod_beta msgs_rel_def split: option.split) blast+

lemma msgs_rel_save:
  assumes "store_inv sha256 s" "\<And>b. length (sha256 b) = 32" "\<And>m. R m m"
  shows "msgs_rel R s (snd (SaveWithCapacity sha256 new_id clock ctx s m cap))"
proof (cases ctx)
  case None
  obtain r s' where res: "SaveWithCapacity sha256 new_id clock None s m cap = (r, s')" by fastforce
  from Save_cases[OF assms(1,2) res] have "msgs_rel R s s'"
    by cases (use assms(3) in \<open>auto simp: msgs_rel_def\<close>)
  then show ?thesis by (simp add: None res)
qed (use assms in \<open>simp add: SaveWithCapacity_def msgs_rel_refl\<close>)

text \<open>A relation between old and new message that every transition of the store satisfies.\<close>

lemma msgs_rel_step:
  assumes inv: "store_inv sha256 s" "\<And>b. length (sha256 b) = 32" and refl: "\<And>m. R m m"
    and sent: "\<And>m sid a b next sentAt up. ms_Status m \<noteq> MessageStatusDelivered \<Longrightarrow> ms_Status m \<noteq> MessageStatusDiscarded \<Longrightarrow>
      R m ((clear_claim m)\<lparr>ms_SessionID := sid, ms_Status := MessageStatusSent, ms_Attempts := ms_Attempts m + 1,
        ms_LastError := '''', ms_NextRetryAt := next, ms_SentAt := sentAt, ms_UpdatedAt := up\<rparr>)"
    and att: "\<And>m reason next up. ms_Status m \<noteq> MessageStatusDelivered \<Longrightarrow> ms_Status m \<noteq> MessageStatusDiscarded \<Longrightarrow>
      R m ((clear_claim m)\<lparr>ms_Status := MessageStatusPending, ms_Attempts := ms_Attempts m + 1,
        ms_LastError := reason, ms_NextRetryAt := next, ms_UpdatedAt := up\<rparr>)"
    and claim: "\<And>m owner until now. R m (claim_message owner until now m)"
  shows "msgs_rel R s (snd (MarkSent clock clock' ctx s k sid sentAt next))"
    "msgs_rel R s (snd (MarkAttemptFailed clock ctx s k reason next))"
    "msgs_rel R s (snd (ClaimDueRetryFair clock ctx s now ackTimeout limit cl owner lease))"
    "msgs_rel R s (snd (ClaimDueTerminal clock ctx s now limit owner lease))"
    "msgs_rel R s (snd (SaveWithCapacity sha256 new_id clock ctx s m cap))"
    "msgs_rel R s (snd (DeleteExpired ctx s st cutoff limit))"
proof -
  show "msgs_rel R s (snd (MarkSent clock clock' ctx s k sid sentAt next))"
    using refl sent by (auto simp: MarkSent_def Let_def split: option.split intro!: msgs_rel_refl msgs_rel_events msgs_rel_update)
  show "msgs_rel R s (snd (MarkAttemptFailed clock ctx s k reason next))"
    using refl att by (auto simp: MarkAttemptFailed_def Let_def split: option.split intro!: msgs_rel_refl msgs_rel_events msgs_rel_update)
  show "msgs_rel R s (snd (ClaimDueRetryFair clock ctx s now ackTimeout limit cl owner lease))"
    using refl claim by (rule msgs_rel_claim)
  show "msgs_rel R s (snd (ClaimDueTerminal clock ctx s now limit owner lease))"
    using refl by (auto simp: ClaimDueTerminal_def Let_def split: option.split intro!: msgs_rel_refl msgs_rel_events)
  show "msgs_rel R s (snd (SaveWithCapacity sha256 new_id clock ctx s m cap))"
    by (rule msgs_rel_save[OF inv refl])
  show "msgs_rel R s (snd (DeleteExpired ctx s st cutoff limit))"
    using refl by (auto simp: DeleteExpired_def Let_def split: option.split intro!: msgs_rel_refl msgs_rel_delete)
qed

lemma core_kept_step:
  assumes "store_inv sha256 s" "\<And>b. length (sha256 b) = 32"
  shows "msgs_rel (\<lambda>m m'. core m' = core m) s (store_step sha256 ctx oper s)"
proof -
  note steps = msgs_rel_step[OF assms, of "\<lambda>m m'. core m' = core m"]
  show ?thesis
  proof (cases oper)
    case (OpDelivered clock k c d ts)
    then show ?thesis
      by (auto simp: MarkDelivered_def Let_def split: option.split intro!: msgs_rel_refl msgs_rel_events msgs_rel_update)
  next
    case (OpFailed clock k t)
    then show ?thesis
      by (auto simp: MarkFailed_def Let_def case_prod_beta split: option.split intro!: msgs_rel_refl msgs_rel_events msgs_rel_update)
  next
    case (OpRequeue clock k ts cap)
    then show ?thesis
      by (auto simp: RequeueWithCapacity_def Let_def split: option.split intro!: msgs_rel_refl msgs_rel_events msgs_rel_update)
  next
    case (OpDiscard clock k reason t)
    then show ?thesis
      by (auto simp: Discard_def Let_def case_prod_beta split: option.split intro!: msgs_rel_refl msgs_rel_events msgs_rel_update)
  next
    case (OpPublished clock k st ts)
    then show ?thesis
      by (auto simp: MarkTerminalPublished_def Let_def split: option.split intro!: msgs_rel_refl msgs_rel_events msgs_rel_update)
  next
    case (OpPublishFailed k st reason ts)
    then show ?thesis
      by (auto simp: MarkTerminalPublishFailed_def Let_def split: option.split intro!: msgs_rel_refl msgs_rel_events msgs_rel_update)
  qed (simp_all add: steps)
qed

section \<open>Counting pending messages\<close>

lemma put_new: "map_of m k = None \<Longrightarrow> put k v m = m @ [(k, v)]"
  by (induction m) (auto split: if_splits)

lemma count_put:
  "wf_map m \<Longrightarrow> map_of m k = Some old \<Longrightarrow>
   length (filter P (vals (put k v m))) + (if P old then 1 else 0) = length (filter P (vals m)) + (if P v then 1 else 0)"
  by (induction m) (auto simp: wf_map_def split: if_splits)

definition admitted :: "queue_capacity \<Rightarrow> memory_store \<Rightarrow> string \<Rightarrow> string \<Rightarrow> bool" where
  "admitted cap s c d \<longleftrightarrow>
     (0 < qc_MaxPendingGlobal cap \<longrightarrow> global_pending s \<le> qc_MaxPendingGlobal cap)
     \<and> (0 < qc_MaxPendingPerDevice cap \<longrightarrow> device_pending s c d \<le> qc_MaxPendingPerDevice cap)"

lemma checkQueueCapacity_None:
  "checkQueueCapacityLocked s c d cap = None \<Longrightarrow>
     (0 < qc_MaxPendingGlobal cap \<longrightarrow> global_pending s < qc_MaxPendingGlobal cap)
     \<and> (0 < qc_MaxPendingPerDevice cap \<longrightarrow> device_pending s c d < qc_MaxPendingPerDevice cap)"
  by (auto simp: checkQueueCapacityLocked_def Enabled_def split: if_splits)

lemma admitted_create:
  assumes "checkQueueCapacityLocked s (ms_ClientID m) (ms_DeviceID m) cap = None"
    and "map_of (mem_messages s) k = None"
  shows "admitted cap (s\<lparr>mem_messages := put k m (mem_messages s)\<rparr>) (ms_ClientID m) (ms_DeviceID m)"
  using checkQueueCapacity_None[OF assms(1)]
  by (auto simp: admitted_def global_pending_def device_pending_def put_new[OF assms(2)])

lemma admitted_requeue:
  assumes "wf_map (mem_messages s)" "map_of (mem_messages s) k = Some old" "\<not> pending old"
    and "checkQueueCapacityLocked s (ms_ClientID old) (ms_DeviceID old) cap = None"
  shows "admitted cap (update_message s k m) (ms_ClientID old) (ms_DeviceID old)"
  using checkQueueCapacity_None[OF assms(4)] assms(3)
    count_put[OF assms(1,2), of pending m]
    count_put[OF assms(1,2), of "\<lambda>m. pending m \<and> ms_ClientID m = ms_ClientID old \<and> ms_DeviceID m = ms_DeviceID old" m]
  by (auto simp: admitted_def global_pending_def device_pending_def update_message_def split: if_splits)

section \<open>Order of the lists\<close>

interpretation created: slice_order created_lt "\<lambda>m. (ms_CreatedAt m, ms_MessageID m)"
  by unfold_locales (auto simp: created_lt_def before_def split: if_splits)

interpretation updated: slice_order updated_desc_lt "\<lambda>m. (retentionTime m, ms_MessageID m)"
  by unfold_locales (auto simp: updated_desc_lt_def after_def split: if_splits)

interpretation retained: slice_order retention_lt "\<lambda>m. (retentionTime m, ms_MessageID m)"
  by unfold_locales (auto simp: retention_lt_def before_def split: if_splits)

interpretation events: slice_order terminal_lt "\<lambda>r. (te_TerminalAt (tr_Event r), te_EventID (tr_Event r))"
  by unfold_locales (auto simp: terminal_lt_def before_def split: if_splits)

lemma distinct_ids:
  assumes "store_inv sha256 s"
  shows "distinct (map ms_MessageID (vals (mem_messages s)))"
  by (rule distinct_map_vals[OF store_invD(1)[OF assms]]) (use store_invD(3)[OF assms] in auto)

lemma distinct_map_pair: "distinct (map g xs) \<Longrightarrow> distinct (map (\<lambda>x. (f x, g x)) xs)"
  by (induction xs) auto

lemma distinct_map_filter': "distinct (map f xs) \<Longrightarrow> distinct (map f (filter P xs))"
  by (rule distinct_map_filter)

lemma limitMessages_limit_slice: "limitMessages ms limit = limit_slice limit (sort_slice created_lt ms)"
  by (simp add: limitMessages_def limit_slice_def Let_def)

lemma limitMessagesByUpdatedDesc_limit_slice:
  "limitMessagesByUpdatedDesc ms limit = limit_slice limit (sort_slice updated_desc_lt ms)"
  by (simp add: limitMessagesByUpdatedDesc_def limit_slice_def Let_def)

lemma same_contents:
  assumes "store_inv sha256 s" "store_inv sha256 s'" "map_of (mem_messages s) = map_of (mem_messages s')"
  shows "mset (filter P (vals (mem_messages s))) = mset (filter P (vals (mem_messages s')))"
proof -
  have "mset (mem_messages s) = mset (mem_messages s')"
    by (rule map_of_eq_mset) (use assms store_invD(1) in auto)
  then show ?thesis
    by (metis mset_filter mset_map)
qed

section \<open>Claims\<close>

lemma claim_messages_result:
  "fst (claim_messages owner until now store ms) =
     map (\<lambda>m. claim_message owner until now (message_at store (ms_MessageID m))) ms"
proof (induction ms arbitrary: store)
  case (Cons m ms)
  have "claim_message owner until now (message_at (put (ms_MessageID m)
      (claim_message owner until now (message_at store (ms_MessageID m))) store) k)
    = claim_message owner until now (message_at store k)" for k
    by (simp add: message_at_def claim_message_def)
  then show ?case
    using Cons.IH by (simp add: Let_def case_prod_beta)
qed simp

lemma claim_messages_stored:
  "k \<in> ms_MessageID ` set ms \<Longrightarrow>
   map_of (snd (claim_messages owner until now store ms)) k
     = Some (claim_message owner until now (message_at store k))"
proof (induction ms arbitrary: store)
  case (Cons m ms)
  let ?store = "put (ms_MessageID m) (claim_message owner until now (message_at store (ms_MessageID m))) store"
  have same: "claim_message owner until now (message_at ?store k) = claim_message owner until now (message_at store k)"
    by (simp add: message_at_def claim_message_def)
  show ?case
  proof (cases "k \<in> ms_MessageID ` set ms")
    case True
    then show ?thesis
      using Cons.IH[OF True, of ?store] same by (simp add: Let_def case_prod_beta)
  next
    case False
    have keep: "map_of (snd (claim_messages owner until now st ms)) k = map_of st k" for st
      using False by (induction ms arbitrary: st) (auto simp: Let_def case_prod_beta)
    from False Cons.prems have "k = ms_MessageID m" by auto
    then show ?thesis
      using keep[of ?store] by (simp add: Let_def case_prod_beta)
  qed
qed simp

lemma ClaimDueRetryFair_eq:
  assumes "owner \<noteq> ''''" "\<not> is_zero now" "0 < lease"
    and "ClaimDueRetryFair clock None s now ackTimeout limit cl owner lease = (Inr sel, s')"
  obtains ms where "\<And>m. m \<in> set ms \<Longrightarrow> m \<in> set (retryCandidatesLocked s now ackTimeout)"
    "rs_Messages sel = map (\<lambda>m. claim_message owner (now + lease) now (message_at (mem_messages s) (ms_MessageID m))) ms"
    "s' = s\<lparr>mem_messages := snd (claim_messages owner (now + lease) now (mem_messages s) ms)\<rparr>"
proof -
  obtain limit' cl' where norm: "normalizeRetrySelectionLimits limit cl = (limit', cl')" by fastforce
  define ms where "ms = rs_Messages (fairRetrySelection (limitMessages (retryCandidatesLocked s now ackTimeout) cl') limit')"
  have "m \<in> set (retryCandidatesLocked s now ackTimeout)" if "m \<in> set ms" for m
    using that set_fairRetrySelection set_limitMessages unfolding ms_def by blast
  moreover have "rs_Messages sel = fst (claim_messages owner (now + lease) now (mem_messages s) ms)"
    "s' = s\<lparr>mem_messages := snd (claim_messages owner (now + lease) now (mem_messages s) ms)\<rparr>"
    using assms by (auto simp: ClaimDueRetryFair_def Let_def norm case_prod_beta ms_def)
  ultimately show thesis
    using that[of ms] by (simp add: claim_messages_result)
qed

lemma claimed_not_due:
  assumes inv: "store_inv sha256 s" and owner: "owner \<noteq> ''''" "0 < now" "0 < lease"
    and claim: "ClaimDueRetryFair clock None s now ackTimeout limit cl owner lease = (Inr sel, s')"
    and later: "now' < now + lease" and m: "m \<in> set (rs_Messages sel)"
  shows "x \<in> set (retryCandidatesLocked s' now' ackTimeout') \<Longrightarrow> ms_MessageID x \<noteq> ms_MessageID m"
proof
  assume x: "x \<in> set (retryCandidatesLocked s' now' ackTimeout')" and same: "ms_MessageID x = ms_MessageID m"
  have nz: "\<not> is_zero now" using owner by (simp add: is_zero_def)
  from ClaimDueRetryFair_eq[OF owner(1) nz owner(3) claim] obtain ms where
    due: "\<And>m. m \<in> set ms \<Longrightarrow> m \<in> set (retryCandidatesLocked s now ackTimeout)"
    and sel: "rs_Messages sel = map (\<lambda>m. claim_message owner (now + lease) now (message_at (mem_messages s) (ms_MessageID m))) ms"
    and s': "s' = s\<lparr>mem_messages := snd (claim_messages owner (now + lease) now (mem_messages s) ms)\<rparr>"
    by blast
  obtain y where y: "y \<in> set ms" "m = claim_message owner (now + lease) now (message_at (mem_messages s) (ms_MessageID y))"
    using m sel by auto
  have "map_of (mem_messages s) (ms_MessageID y) = Some y"
    using due[OF y(1)] set_vals_iff[OF store_invD(1)[OF inv], of y] store_invD(3)[OF inv]
    by (auto simp: retryCandidatesLocked_def)
  then have id: "ms_MessageID m = ms_MessageID y"
    by (simp add: y(2) message_at_def claim_message_def)
  have inv': "store_inv sha256 s'"
    using ClaimDueRetryFair_inv[OF inv, of clock None now ackTimeout limit cl owner lease] claim by simp
  have "map_of (mem_messages s') (ms_MessageID x) = Some x"
    using x set_vals_iff[OF store_invD(1)[OF inv'], of x] store_invD(3)[OF inv']
    by (auto simp: retryCandidatesLocked_def)
  moreover have "map_of (mem_messages s') (ms_MessageID y)
      = Some (claim_message owner (now + lease) now (message_at (mem_messages s) (ms_MessageID y)))"
    using y(1) by (simp add: s' claim_messages_stored)
  ultimately have "ms_ClaimUntil x = now + lease"
    using same id by (auto simp: claim_message_def)
  with later owner x show False
    by (auto simp: retryCandidatesLocked_def messageDueForRetry_def claimActive_def is_zero_def after_def)
qed

section \<open>Terminal status and events\<close>

fun automatic :: "store_op \<Rightarrow> bool" where
  "automatic (OpDelivered _ _ _ _ _) = False"
| "automatic (OpRequeue _ _ _ _) = False"
| "automatic (OpDiscard _ _ _ _) = False"
| "automatic (OpDelete _ _ _) = False"
| "automatic _ = True"

definition settled :: "message \<Rightarrow> bool" where
  "settled m \<longleftrightarrow> ms_Status m = MessageStatusDelivered \<or> ms_Status m = MessageStatusDiscarded"

definition settled_rel :: "message \<Rightarrow> message \<Rightarrow> bool" where
  "settled_rel m m' \<longleftrightarrow> (settled m \<longrightarrow> ms_Status m' = ms_Status m \<and> ms_Attempts m' = ms_Attempts m
     \<and> ms_TerminalReason m' = ms_TerminalReason m \<and> ms_TerminalAt m' = ms_TerminalAt m
     \<and> ms_DeliveredAt m' = ms_DeliveredAt m \<and> ms_LastError m' = ms_LastError m)"

lemma settled_kept:
  assumes "store_inv sha256 s" "\<And>b. length (sha256 b) = 32" "automatic oper"
  shows "msgs_rel settled_rel s (store_step sha256 ctx oper s)"
proof -
  note steps = msgs_rel_step[OF assms(1,2), of settled_rel]
  show ?thesis
    using assms(3)
  proof (cases oper)
    case (OpFailed clock k t)
    then show ?thesis
      by (auto simp: MarkFailed_def Let_def case_prod_beta settled_rel_def settled_def split: option.split
          intro!: msgs_rel_refl msgs_rel_update)
  next
    case (OpPublished clock k st ts)
    then show ?thesis
      by (auto simp: MarkTerminalPublished_def Let_def settled_rel_def settled_def split: option.split
          intro!: msgs_rel_refl msgs_rel_events msgs_rel_update)
  next
    case (OpPublishFailed k st reason ts)
    then show ?thesis
      by (auto simp: MarkTerminalPublishFailed_def Let_def settled_rel_def settled_def split: option.split
          intro!: msgs_rel_refl msgs_rel_events msgs_rel_update)
  qed (simp_all add: steps settled_rel_def settled_def claim_message_def)
qed

lemma keys_kept:
  assumes "automatic oper" "map_of (mem_messages s) k \<noteq> None"
  shows "map_of (mem_messages (store_step sha256 ctx oper s)) k \<noteq> None"
proof -
  have claim: "map_of (snd (claim_messages owner until now store ms)) k \<noteq> None" if "map_of store k \<noteq> None"
    for owner until now store ms
    using that by (induction ms arbitrary: store) (auto simp: Let_def case_prod_beta)
  show ?thesis
    using assms claim[of "mem_messages s"]
    by (cases oper; simp)
      (auto simp: SaveWithCapacity_def MarkSent_def MarkAttemptFailed_def MarkFailed_def ClaimDueRetryFair_def
        ClaimDueTerminal_def MarkTerminalPublished_def MarkTerminalPublishFailed_def update_message_def
        Let_def case_prod_beta split: option.splits)
qed

end
