(* ===== verification/Store_Events.thy ===== *)
theory Store_Events
  imports Store_Props
begin

text \<open>
  The life of terminal event records, retention, and pages of the message store.
\<close>

section \<open>Event records\<close>

text \<open>An event record only moves towards being published, and is never replaced.\<close>

definition events_rel :: "memory_store \<Rightarrow> memory_store \<Rightarrow> bool" where
  "events_rel s s' \<longleftrightarrow> (\<forall>k r r'. map_of (mem_terminalEvents s) k = Some r \<longrightarrow>
     map_of (mem_terminalEvents s') k = Some r' \<longrightarrow> tr_Event r' = tr_Event r
     \<and> (tr_Status r = TerminalPublicationPublished \<longrightarrow> r' = r))"

lemma events_rel_same: "mem_terminalEvents s' = mem_terminalEvents s \<Longrightarrow> events_rel s s'"
  by (simp add: events_rel_def)

lemma fold_put_events:
  "map_of (fold (\<lambda>r. put (te_EventID (tr_Event r)) r) rs t) k = Some r' \<Longrightarrow>
   map_of t k = Some r' \<or> (\<exists>x\<in>set rs. te_EventID (tr_Event x) = k \<and> r' = x)"
  by (induction rs arbitrary: t) (fastforce split: if_splits)+

lemma fold_delete_events:
  "map_of (mem_terminalEvents (fold delete_message ms s)) k = Some r \<Longrightarrow> map_of (mem_terminalEvents s) k = Some r"
  by (induction ms arbitrary: s) (fastforce simp: delete_message_def split: if_splits)+

lemma first_transition_events: "events_rel s (snd (first_transition s m st t))"
  by (auto simp: first_transition_def Let_def events_rel_def split: option.split)

lemma events_rel_terminal_claim:
  assumes inv: "store_inv sha256 s"
  shows "events_rel s (snd (ClaimDueTerminal clock ctx s now limit owner lease))"
proof (cases ctx)
  case None
  have kept: "tr_Event r' = tr_Event r \<and> (tr_Status r = TerminalPublicationPublished \<longrightarrow> r' = r)"
    if r: "map_of (mem_terminalEvents s) k = Some r" and
      r': "map_of (fold (\<lambda>r. put (te_EventID (tr_Event r)) r)
        (map (\<lambda>r. r\<lparr>tr_ClaimOwner := owner, tr_ClaimUntil := u\<rparr>) (due_terminals s x l)) (mem_terminalEvents s)) k = Some r'"
    for k r r' u x l
    using fold_put_events[OF r']
  proof
    assume "map_of (mem_terminalEvents s) k = Some r'"
    with r show ?thesis by simp
  next
    assume "\<exists>xa\<in>set (map (\<lambda>r. r\<lparr>tr_ClaimOwner := owner, tr_ClaimUntil := u\<rparr>) (due_terminals s x l)).
      te_EventID (tr_Event xa) = k \<and> r' = xa"
    then obtain d where d: "d \<in> set (due_terminals s x l)" "te_EventID (tr_Event d) = k"
        "r' = d\<lparr>tr_ClaimOwner := owner, tr_ClaimUntil := u\<rparr>"
      by auto
    have "map_of (mem_terminalEvents s) k = Some d"
      using terminal_vals_ok(2)[OF inv, of d] due_terminalsD[OF d(1)] d(2) by simp
    with r have "r = d" by simp
    moreover have "unpublished d"
      using due_terminalsD[OF d(1)] by (simp add: terminal_due_def)
    ultimately show ?thesis
      using d(3) by (auto simp: unpublished_def)
  qed
  have "events_rel s (s\<lparr>mem_terminalEvents := fold (\<lambda>r. put (te_EventID (tr_Event r)) r)
      (map (\<lambda>r. r\<lparr>tr_ClaimOwner := owner, tr_ClaimUntil := u\<rparr>) (due_terminals s x l)) (mem_terminalEvents s)\<rparr>)" for u x l
    unfolding events_rel_def
  proof (intro allI impI)
    fix k r r'
    assume "map_of (mem_terminalEvents s) k = Some r"
      and "map_of (mem_terminalEvents (s\<lparr>mem_terminalEvents := fold (\<lambda>r. put (te_EventID (tr_Event r)) r)
        (map (\<lambda>r. r\<lparr>tr_ClaimOwner := owner, tr_ClaimUntil := u\<rparr>) (due_terminals s x l)) (mem_terminalEvents s)\<rparr>)) k = Some r'"
    then show "tr_Event r' = tr_Event r \<and> (tr_Status r = TerminalPublicationPublished \<longrightarrow> r' = r)"
      by (intro kept) (assumption, simp)
  qed
  then show ?thesis
    by (simp add: ClaimDueTerminal_def None Let_def)
qed (simp add: ClaimDueTerminal_def events_rel_same)

lemma update_message_events [simp]: "mem_terminalEvents (update_message s k m) = mem_terminalEvents s"
  by (simp add: update_message_def)

lemma events_rel_update: "events_rel s s1 \<Longrightarrow> events_rel s (update_message s1 k m)"
  unfolding events_rel_def by (simp only: update_message_events)

lemma events_rel_step:
  assumes inv: "store_inv sha256 s" and len: "\<And>b. length (sha256 b) = 32"
  shows "events_rel s (store_step sha256 ctx oper s)"
proof (cases oper)
  case (OpSave new_id clock m cap)
  then show ?thesis
    by (auto simp: SaveWithCapacity_def Let_def split: option.split intro!: events_rel_same)
next
  case (OpSent clock clock' k sid sentAt nxt)
  then show ?thesis
    by (auto simp: MarkSent_def Let_def update_message_def split: option.split intro!: events_rel_same)
next
  case (OpDelivered clock k c d ts)
  then show ?thesis
    by (auto simp: MarkDelivered_def Let_def update_message_def split: option.split intro!: events_rel_same)
next
  case (OpAttemptFailed clock k reason nxt)
  then show ?thesis
    by (auto simp: MarkAttemptFailed_def Let_def update_message_def split: option.split intro!: events_rel_same)
next
  case (OpFailed clock k t)
  then show ?thesis
    by (auto simp: MarkFailed_def Let_def case_prod_beta split: option.split
        intro!: events_rel_same[of s s] events_rel_update first_transition_events)
next
  case (OpRequeue clock k ts cap)
  then show ?thesis
    by (auto simp: RequeueWithCapacity_def Let_def update_message_def split: option.split intro!: events_rel_same)
next
  case (OpDiscard clock k reason t)
  then show ?thesis
    by (auto simp: Discard_def Let_def case_prod_beta split: option.split
        intro!: events_rel_same[of s s] events_rel_update first_transition_events)
next
  case (OpClaim clock now ackTimeout limit cl owner lease)
  then show ?thesis
    by (auto simp: ClaimDueRetryFair_def Let_def case_prod_beta split: option.split intro!: events_rel_same)
next
  case (OpClaimTerminal clock now limit owner lease)
  then show ?thesis
    using events_rel_terminal_claim[OF inv] by simp
next
  case (OpPublished clock k st ts)
  then show ?thesis
    by (auto simp: MarkTerminalPublished_def Let_def update_message_def events_rel_def split: option.split)
next
  case (OpPublishFailed k st reason ts)
  then show ?thesis
    by (auto simp: MarkTerminalPublishFailed_def Let_def update_message_def events_rel_def split: option.split)
next
  case (OpDelete st cutoff limit)
  then show ?thesis
    using fold_delete_events[of _ s]
    by (fastforce simp: DeleteExpired_def Let_def events_rel_def split: option.split)
qed

section \<open>Retention\<close>

lemma fold_delete_messages:
  "map_of (mem_messages (fold delete_message ms s)) k =
     (if k \<in> ms_MessageID ` set ms then None else map_of (mem_messages s) k)"
  by (induction ms arbitrary: s) (auto simp: delete_message_def)

lemma expired_messagesD:
  "m \<in> set (expired_messages s st cutoff limit) \<Longrightarrow> m \<in> set (vals (mem_messages s)) \<and> expired s st cutoff m"
  by (auto simp: expired_messages_def Let_def set_sort_slice simp del: set_map split: if_splits dest: in_set_takeD)

lemma DeleteExpired_deleted:
  assumes inv: "store_inv sha256 s" and m: "map_of (mem_messages s) k = Some m"
    and gone: "map_of (mem_messages (snd (DeleteExpired ctx s st cutoff limit))) k = None"
  shows "expired s st cutoff m"
proof (cases "ctx = None \<and> \<not> is_zero cutoff")
  case True
  define l where "l = (if limit \<le> 0 then 1000 else limit)"
  have "snd (DeleteExpired ctx s st cutoff limit) = fold delete_message (expired_messages s st cutoff l) s"
    using True by (simp add: DeleteExpired_def Let_def l_def)
  then have "k \<in> ms_MessageID ` set (expired_messages s st cutoff l)"
    using m gone by (simp add: fold_delete_messages split: if_splits)
  then obtain x where x: "x \<in> set (vals (mem_messages s))" "expired s st cutoff x" "ms_MessageID x = k"
    using expired_messagesD by blast
  have "x = m"
    using set_vals_iff[OF store_invD(1)[OF inv], of x] store_invD(3)[OF inv] x(1,3) m by auto
  with x show ?thesis by simp
next
  case False
  then show ?thesis
    using m gone by (cases ctx) (auto simp: DeleteExpired_def)
qed

lemma DeleteExpired_cases:
  "DeleteExpired ctx s st cutoff limit = (res, s') \<Longrightarrow> \<exists>ms. s' = fold delete_message ms s"
  by (cases ctx) (auto simp: DeleteExpired_def Let_def split: if_splits intro: exI[of _ "[]"])

lemma fold_delete_other_events:
  "k \<notin> ms_MessageID ` set ms \<Longrightarrow> terminal_status t \<Longrightarrow>
   map_of (mem_terminalEvents (fold delete_message ms s)) (terminalEventID k t) = map_of (mem_terminalEvents s) (terminalEventID k t)"
proof (induction ms arbitrary: s)
  case (Cons m ms)
  have "terminalEventID k t \<noteq> terminalEventID (ms_MessageID m) MessageStatusFailed"
      "terminalEventID k t \<noteq> terminalEventID (ms_MessageID m) MessageStatusDiscarded"
    using Cons.prems by (auto simp: terminalEventID_inject terminal_status_def)
  then show ?case
    using Cons by (simp add: delete_message_def)
qed simp

end
