(* ===== verification/Store_Runs.thy ===== *)
theory Store_Runs
  imports Store_Events
begin

text \<open>
  The message store over whole runs: what a sequence of operations keeps of a saved message and of an
  event record, idempotent saving, the queue limits, exclusive claims, retention, and paging through a
  list.  The proofs use the step lemmas of the store's transition system.
\<close>

section \<open>Runs\<close>

definition store_run :: "(bytes \<Rightarrow> bytes) \<Rightarrow> (ctx \<times> store_op) list \<Rightarrow> memory_store \<Rightarrow> memory_store" where
  "store_run sha256 ops s = fold (\<lambda>(ctx, oper). store_step sha256 ctx oper) ops s"

fun deletes :: "store_op \<Rightarrow> bool" where
  "deletes (OpDelete _ _ _) = True"
| "deletes _ = False"

lemma store_run_simps [simp]:
  "store_run sha256 [] s = s"
  "store_run sha256 (x # ops) s = store_run sha256 ops (store_step sha256 (fst x) (snd x) s)"
  by (simp_all add: store_run_def case_prod_beta)

lemma store_run_reachable:
  "store_reachable sha256 s \<Longrightarrow> store_reachable sha256 (store_run sha256 ops s)"
  by (induction ops arbitrary: s) (simp_all add: reach_op)

lemma store_run_inv:
  "(\<And>b. length (sha256 b) = 32) \<Longrightarrow> store_inv sha256 s \<Longrightarrow> store_inv sha256 (store_run sha256 ops s)"
  by (induction ops arbitrary: s) (simp_all add: store_step_inv)

lemma message_kept:
  assumes "\<not> deletes oper" "map_of (mem_messages s) k \<noteq> None"
  shows "map_of (mem_messages (store_step sha256 ctx oper s)) k \<noteq> None"
proof (cases "automatic oper")
  case True
  then show ?thesis using assms(2) by (rule keys_kept)
next
  case False
  then show ?thesis
    using assms
    by (cases oper; simp)
      (auto simp: MarkDelivered_def RequeueWithCapacity_def Discard_def update_message_def Let_def case_prod_beta
        split: option.splits)
qed

lemma fold_put_keeps: "map_of t k \<noteq> None \<Longrightarrow> map_of (fold (\<lambda>r. put (f r) r) rs t) k \<noteq> None"
  by (induction rs arbitrary: t) auto

lemma first_transition_keeps_events:
  "map_of (mem_terminalEvents s) k \<noteq> None \<Longrightarrow>
   map_of (mem_terminalEvents (snd (first_transition s m st t))) k \<noteq> None"
  by (auto simp: first_transition_def Let_def split: option.split)

lemma event_kept:
  assumes "\<not> deletes oper" "map_of (mem_terminalEvents s) k \<noteq> None"
  shows "map_of (mem_terminalEvents (store_step sha256 ctx oper s)) k \<noteq> None"
proof (cases oper)
  case (OpFailed clock i t)
  then show ?thesis
    using assms(2) first_transition_keeps_events[OF assms(2)]
    by (simp add: MarkFailed_def Let_def case_prod_beta split: option.split)
next
  case (OpDiscard clock i reason t)
  then show ?thesis
    using assms(2) first_transition_keeps_events[OF assms(2)]
    by (simp add: Discard_def Let_def case_prod_beta split: option.split)
next
  case (OpClaimTerminal clock now limit owner lease)
  then show ?thesis
    using assms(2) fold_put_keeps[OF assms(2)]
    by (simp add: ClaimDueTerminal_def Let_def split: option.split)
next
  case (OpClaim clock now ackTimeout limit cl owner lease)
  then show ?thesis
    using assms(2) by (simp add: ClaimDueRetryFair_def Let_def case_prod_beta split: option.split)
next
  case (OpSave new_id clock m cap)
  then show ?thesis
    using assms(2) by (simp add: SaveWithCapacity_def Let_def case_prod_beta split: option.split)
next
  case (OpPublished clock i st ts)
  then show ?thesis
    using assms(2) by (simp add: MarkTerminalPublished_def Let_def split: option.split)
next
  case (OpPublishFailed i st reason ts)
  then show ?thesis
    using assms(2) by (simp add: MarkTerminalPublishFailed_def Let_def split: option.split)
next
  case (OpDelete st cutoff limit)
  then show ?thesis using assms(1) by simp
qed (use assms(2) in \<open>simp_all add: MarkSent_def MarkDelivered_def MarkAttemptFailed_def RequeueWithCapacity_def
    Let_def split: option.split\<close>)

text \<open>A relation on messages that every step of a run respects holds between its ends.\<close>

lemma message_over_run:
  assumes len: "\<And>b. length (sha256 b) = 32" and step: "\<And>s ctx oper. store_inv sha256 s \<Longrightarrow> P oper \<Longrightarrow> msgs_rel R s (store_step sha256 ctx oper s)"
    and R: "\<And>m. R m m" "\<And>a b c. R a b \<Longrightarrow> R b c \<Longrightarrow> R a c"
    and P: "\<And>oper. P oper \<Longrightarrow> \<not> deletes oper"
  shows "store_inv sha256 s \<Longrightarrow> map_of (mem_messages s) k = Some m \<Longrightarrow> (\<forall>x\<in>set ops. P (snd x)) \<Longrightarrow>
    \<exists>m'. map_of (mem_messages (store_run sha256 ops s)) k = Some m' \<and> R m m'"
proof (induction ops arbitrary: s m)
  case Nil
  then show ?case using R(1) by simp
next
  case (Cons x ops)
  let ?s = "store_step sha256 (fst x) (snd x) s"
  from Cons.prems(3) have x: "P (snd x)" "\<not> deletes (snd x)" using P by auto
  obtain m1 where m1: "map_of (mem_messages ?s) k = Some m1"
    using message_kept[OF x(2), of s k sha256 "fst x"] Cons.prems(2) by auto
  have "R m m1"
    using step[OF Cons.prems(1) x(1)] Cons.prems(2) m1 unfolding msgs_rel_def by blast
  moreover have "\<exists>m'. map_of (mem_messages (store_run sha256 ops ?s)) k = Some m' \<and> R m1 m'"
    using Cons.IH[OF store_step_inv[OF len Cons.prems(1)] m1] Cons.prems(3) by simp
  ultimately show ?case using R(2) by auto
qed

lemma core_over_run:
  assumes len: "\<And>b. length (sha256 b) = 32" and "store_inv sha256 s" "map_of (mem_messages s) k = Some m"
    and "\<forall>x\<in>set ops. \<not> deletes (snd x)"
  shows "\<exists>m'. map_of (mem_messages (store_run sha256 ops s)) k = Some m' \<and> core m' = core m"
  by (rule message_over_run[where P = "\<lambda>x. \<not> deletes x" and R = "\<lambda>m m'. core m' = core m"])
    (use assms core_kept_step in auto)

lemma automatic_deletes: "automatic oper \<Longrightarrow> \<not> deletes oper"
  by (cases oper) auto

lemma settled_rel_refl: "settled_rel m m"
  by (simp add: settled_rel_def)

lemma settled_rel_trans: "settled_rel a b \<Longrightarrow> settled_rel b c \<Longrightarrow> settled_rel a c"
  by (simp add: settled_rel_def settled_def)

lemma settled_over_run:
  assumes len: "\<And>b. length (sha256 b) = 32" and "store_inv sha256 s" "map_of (mem_messages s) k = Some m"
    and "\<forall>x\<in>set ops. automatic (snd x)"
  shows "\<exists>m'. map_of (mem_messages (store_run sha256 ops s)) k = Some m' \<and> settled_rel m m'"
  by (rule message_over_run[where P = automatic and R = settled_rel, OF len settled_kept[OF _ len]
        settled_rel_refl settled_rel_trans automatic_deletes assms(2,3,4)])

lemma event_over_run:
  assumes len: "\<And>b. length (sha256 b) = 32"
  shows "store_inv sha256 s \<Longrightarrow> map_of (mem_terminalEvents s) k = Some r \<Longrightarrow> (\<forall>x\<in>set ops. \<not> deletes (snd x)) \<Longrightarrow>
    \<exists>r'. map_of (mem_terminalEvents (store_run sha256 ops s)) k = Some r' \<and> tr_Event r' = tr_Event r
      \<and> (tr_Status r = TerminalPublicationPublished \<longrightarrow> r' = r)"
proof (induction ops arbitrary: s r)
  case (Cons x ops)
  let ?s = "store_step sha256 (fst x) (snd x) s"
  obtain r1 where r1: "map_of (mem_terminalEvents ?s) k = Some r1"
    using event_kept[of "snd x" s k sha256 "fst x"] Cons.prems by auto
  have "tr_Event r1 = tr_Event r \<and> (tr_Status r = TerminalPublicationPublished \<longrightarrow> r1 = r)"
    using events_rel_step[OF Cons.prems(1) len] Cons.prems(2) r1 unfolding events_rel_def by blast
  moreover have "\<exists>r'. map_of (mem_terminalEvents (store_run sha256 ops ?s)) k = Some r' \<and> tr_Event r' = tr_Event r1
      \<and> (tr_Status r1 = TerminalPublicationPublished \<longrightarrow> r' = r1)"
    using Cons.IH[OF store_step_inv[OF len Cons.prems(1)] r1] Cons.prems(3) by simp
  ultimately show ?case by auto
qed simp
section \<open>Paging\<close>

text \<open>
  Reading a whole list page by page, as a caller does: the next page is asked for with the cursor of
  the last answer as long as that answer says there is more.  \<open>fuel\<close> bounds the number of pages.
\<close>

fun all_pages :: "nat \<Rightarrow> memory_store \<Rightarrow> message_status \<Rightarrow> int \<Rightarrow> list_cursor \<Rightarrow> message list option" where
  "all_pages 0 s st limit cursor = None"
| "all_pages (Suc fuel) s st limit cursor =
    (case ListByStatusPage None s \<lparr>lq_Status = st, lq_Limit = limit, lq_Cursor = cursor\<rparr> of
       Inl _ \<Rightarrow> None
     | Inr page \<Rightarrow>
         if lr_HasMore page
         then map_option ((@) (lr_Messages page)) (all_pages fuel s st limit (lr_NextCursor page))
         else Some (lr_Messages page))"

definition pageable :: "message \<Rightarrow> bool" where
  "pageable m \<longleftrightarrow> ms_MessageID m \<noteq> '''' \<and> trim_space (ms_MessageID m) = ms_MessageID m \<and> \<not> is_zero (retentionTime m)"

lemma cursor_of_pageable:
  "pageable m \<Longrightarrow> messageListCursorFromMessage m = \<lparr>lc_UpdatedAt = retentionTime m, lc_MessageID = ms_MessageID m\<rparr>"
  by (simp add: pageable_def messageListCursorFromMessage_def normalizeMessageListCursor_def Let_def)

lemma normalize_cursor_of_pageable:
  "pageable m \<Longrightarrow> normalizeMessageListCursor (messageListCursorFromMessage m) = messageListCursorFromMessage m"
  by (simp add: cursor_of_pageable) (simp add: pageable_def normalizeMessageListCursor_def Let_def)

lemma after_cursor_iff:
  "pageable m \<Longrightarrow> messageAfterListCursor x (messageListCursorFromMessage m) \<longleftrightarrow> updated_desc_lt m x"
  using normalize_cursor_of_pageable[of m]
  by (auto simp: messageAfterListCursor_def cursor_of_pageable Let_def messageListCursorIsZero_def updated_desc_lt_def
      pageable_def before_def after_def)

lemma after_zero_cursor [simp]:
  "messageAfterListCursor x zero_cursor" "normalizeMessageListCursor zero_cursor = zero_cursor"
  by (simp_all add: messageAfterListCursor_def normalizeMessageListCursor_def zero_cursor_def Let_def
      messageListCursorIsZero_def is_zero_def)

text \<open>The part of a strictly sorted list that a filter with the order of its middle element leaves.\<close>

lemma filter_after_sorted:
  assumes "sorted_wrt lt (xs @ x # ys)" "\<And>a. \<not> lt a a" "\<And>a b c. lt a b \<Longrightarrow> lt b c \<Longrightarrow> lt a c"
  shows "filter (lt x) (xs @ x # ys) = ys"
proof -
  have "\<not> lt x a" if "a \<in> set xs" for a
  proof
    assume "lt x a"
    moreover have "lt a x" using assms(1) that by (simp add: sorted_wrt_append)
    ultimately show False using assms(2,3) by blast
  qed
  then have "filter (lt x) xs = []"
    by (simp add: filter_empty_conv)
  moreover have "filter (lt x) ys = ys"
    using assms(1) by (auto simp: filter_id_conv sorted_wrt_append)
  ultimately show ?thesis using assms(2) by simp
qed

definition page_limit :: "int \<Rightarrow> int" where
  "page_limit limit = (let l = (if limit \<le> 0 then defaultMessageListLimit else limit)
     in if maxMessageListLimit < l then maxMessageListLimit else l)"

lemma page_limit_pos: "0 < page_limit limit"
  by (simp add: page_limit_def Let_def defaultMessageListLimit_def maxMessageListLimit_def)

lemma ListByStatusPage_eq:
  assumes ws: "ws = filter (\<lambda>m. ms_Status m = st) (vals (mem_messages s))"
    and cur: "normalizeMessageListCursor cur = cur"
    and rest: "rest = sort_slice updated_desc_lt (filter (\<lambda>m. messageAfterListCursor m cur) ws)"
  shows "ListByStatusPage None s \<lparr>lq_Status = st, lq_Limit = limit, lq_Cursor = cur\<rparr> =
    Inr \<lparr>lr_Status = st, lr_Limit = page_limit limit, lr_Cursor = cur,
      lr_NextCursor = (if page_limit limit < int (length rest)
        then messageListCursorFromMessage (last (take (nat (page_limit limit)) rest)) else zero_cursor),
      lr_HasMore = (page_limit limit < int (length rest)), lr_Total = length ws,
      lr_Messages = take (nat (page_limit limit)) rest\<rparr>"
proof -
  define l where "l = page_limit limit"
  have l: "0 < l" by (simp add: l_def page_limit_pos)
  have q: "normalizeMessageListQuery \<lparr>lq_Status = st, lq_Limit = limit, lq_Cursor = cur\<rparr>
      = \<lparr>lq_Status = st, lq_Limit = l, lq_Cursor = cur\<rparr>"
    using cur by (simp add: normalizeMessageListQuery_def Let_def l_def page_limit_def)
  have lim: "limitMessagesByUpdatedDesc (filter (\<lambda>m. messageAfterListCursor m cur) ws) (l + 1) = take (nat (l + 1)) rest"
    using l by (simp add: limitMessagesByUpdatedDesc_def Let_def rest)
  have more: "l < int (length (take (nat (l + 1)) rest)) \<longleftrightarrow> l < int (length rest)"
    using l by auto
  have tk: "take (nat l) (take (nat (l + 1)) rest) = take (nat l) rest"
    using l by (simp add: min_def)
  have ne: "l < int (length rest) \<Longrightarrow> take (nat l) rest \<noteq> []"
    and all: "\<not> l < int (length rest) \<Longrightarrow> take (nat (l + 1)) rest = take (nat l) rest"
    using l by auto
  show ?thesis
    unfolding l_def[symmetric] ListByStatusPage_def option.case Let_def q list_query.select_convs ws[symmetric] lim more tk
    by (cases "l < int (length rest)") (simp_all only: ne all if_True if_False simp_thms)
qed

lemma distinct_keys:
  "store_inv sha256 s \<Longrightarrow> distinct (map (\<lambda>m. (f m, ms_MessageID m)) (vals (mem_messages s)))"
  by (rule distinct_map_pair) (rule distinct_ids)

text \<open>A page of a sorted list, continued after its last element, gives the rest of the list.\<close>

lemma all_pages_from:
  assumes inv: "store_inv sha256 s"
    and pg: "\<And>m. m \<in> set (vals (mem_messages s)) \<Longrightarrow> pageable m"
    and total: "whole = sort_slice updated_desc_lt (filter (\<lambda>m. ms_Status m = st) (vals (mem_messages s)))"
  shows "normalizeMessageListCursor cur = cur \<Longrightarrow>
    rest = sort_slice updated_desc_lt (filter (\<lambda>m. messageAfterListCursor m cur) (filter (\<lambda>m. ms_Status m = st) (vals (mem_messages s)))) \<Longrightarrow>
    (\<exists>before. whole = before @ rest) \<Longrightarrow> length rest < fuel \<Longrightarrow> all_pages fuel s st limit cur = Some rest"
proof (induction fuel arbitrary: cur rest)
  case (Suc fuel)
  define n where "n = nat (page_limit limit)"
  have n: "0 < n" "page_limit limit = int n" using page_limit_pos[of limit] by (simp_all add: n_def)
  note page = ListByStatusPage_eq[OF refl Suc.prems(1,2), of limit]
  show ?case
  proof (cases "n < length rest")
    case False
    then show ?thesis using n by (simp add: page)
  next
    case True
    define x where "x = last (take n rest)"
    have split: "rest = butlast (take n rest) @ x # drop n rest"
      using True n append_take_drop_id[of n rest] append_butlast_last_id[of "take n rest"]
      by (metis append.assoc append_Cons append_Nil length_0_conv length_take min.absorb4 nat_less_le x_def)
    obtain before where whole: "whole = before @ rest" using Suc.prems(3) by blast
    have srt: "sorted_wrt updated_desc_lt whole"
      unfolding total by (rule updated.sorted_sort_slice) (intro distinct_keys[OF inv] distinct_map_filter)
    have whole': "whole = (before @ butlast (take n rest)) @ x # drop n rest"
      using whole split by simp
    have "x \<in> set whole" by (simp add: whole')
    then have px: "pageable x" using pg by (auto simp: total simp del: set_map)
    have after: "filter (\<lambda>m. messageAfterListCursor m (messageListCursorFromMessage x)) whole = drop n rest"
      unfolding after_cursor_iff[OF px] whole'
      by (rule filter_after_sorted) (use srt whole' updated.lt_irrefl updated.lt_trans in auto)
    have drop: "drop n rest = sort_slice updated_desc_lt (filter (\<lambda>m. messageAfterListCursor m (messageListCursorFromMessage x))
        (filter (\<lambda>m. ms_Status m = st) (vals (mem_messages s))))" (is "_ = sort_slice _ ?f")
    proof (rule updated.sorted_unique)
      show "sorted_wrt updated_desc_lt (drop n rest)"
        using srt whole' by (simp add: sorted_wrt_append)
      show "sorted_wrt updated_desc_lt (sort_slice updated_desc_lt ?f)"
        by (rule updated.sorted_sort_slice) (intro distinct_keys[OF inv] distinct_map_filter)
      show "set (drop n rest) = set (sort_slice updated_desc_lt ?f)"
        using after[symmetric] by (auto simp: total)
    qed
    have "whole = (before @ take n rest) @ drop n rest" "length (drop n rest) < fuel"
      using Suc.prems(4) True n whole by simp_all
    then have "all_pages fuel s st limit (messageListCursorFromMessage x) = Some (drop n rest)"
      by (intro Suc.IH[OF normalize_cursor_of_pageable[OF px] drop]) blast+
    then show ?thesis
      using True n by (simp add: page x_def n_def[symmetric])
  qed
qed simp

end
