(* ===== verification/Store_Theorems.thy ===== *)
theory Store_Theorems
  imports Store_Runs
begin

text \<open>
  The properties of the in-memory message store, over every store that its operations can reach.
  The only fact used about SHA-256 is that a digest has 32 bytes.
\<close>

section \<open>Samples for the witnesses\<close>

definition sample_sha :: "bytes \<Rightarrow> bytes" where
  "sample_sha b = take 32 (rev b @ replicate 32 0)"

lemma sample_sha_length: "length (sample_sha b) = 32"
  by (simp add: sample_sha_def)

definition sample_store :: memory_store where
  "sample_store = store_run sample_sha
     [(None, OpSave ''x'' 5 (sample_message ''m1'' ''d1'') no_capacity),
      (None, OpSave ''x'' 6 (sample_message ''m2'' ''d2'') no_capacity)] NewMemoryStore"

lemma sample_store_reachable: "store_reachable sample_sha sample_store"
  unfolding sample_store_def by (rule store_run_reachable) (rule reach_new_store)

lemma complete_message_full:
  assumes "ms_MessageID m \<noteq> ''''" "ms_Status m \<noteq> StatusEmpty" "\<not> is_zero (ms_CreatedAt m)" "\<not> is_zero (ms_UpdatedAt m)"
  shows "complete_message sha256 i t m = m\<lparr>ms_IdentityFingerprint := messageIdentityFingerprint sha256 m\<rparr>"
  using assms by (simp add: complete_message_def)

lemma sample_message_fields [simp]:
  "ms_MessageID (sample_message (a # mid) dev) = a # mid" "ms_Status (sample_message mid dev) = MessageStatusPending"
  "ms_ClientID (sample_message mid dev) = ''c''" "ms_DeviceID (sample_message mid dev) = dev"
  "ms_CreatedAt (sample_message mid dev) = 5" "ms_UpdatedAt (sample_message mid dev) = 5"
  by (simp_all add: sample_message_def messageFromPushRequest_def)

definition sample_saved :: "string \<Rightarrow> string \<Rightarrow> message" where
  "sample_saved mid dev = (sample_message mid dev)
     \<lparr>ms_IdentityFingerprint := messageIdentityFingerprint sample_sha (sample_message mid dev)\<rparr>"

lemma sample_saved_fields [simp]:
  "ms_MessageID (sample_saved (a # mid) dev) = a # mid" "ms_Status (sample_saved mid dev) = MessageStatusPending"
  "ms_ClientID (sample_saved mid dev) = ''c''" "ms_DeviceID (sample_saved mid dev) = dev"
  by (simp_all add: sample_saved_def)

lemma sample_complete:
  "complete_message sample_sha i t (sample_message (a # mid) dev) = sample_saved (a # mid) dev"
  by (simp add: sample_saved_def complete_message_full is_zero_def)

lemma sample_store_eq:
  "sample_store = \<lparr>mem_messages = [(''m1'', sample_saved ''m1'' ''d1''), (''m2'', sample_saved ''m2'' ''d2'')],
     mem_terminalEvents = []\<rparr>"
  by (simp add: sample_store_def NewMemoryStore_def SaveWithCapacity_def sample_complete Let_def
      checkQueueCapacityLocked_def no_capacity_def Enabled_def)

text \<open>The sample store after one message was sent, and after it was delivered.\<close>

definition sample_sent :: memory_store where
  "sample_sent = store_run sample_sha [(None, OpSent 1 2 ''m1'' ''s'' 3 4)] sample_store"

definition sample_delivered :: memory_store where
  "sample_delivered = store_run sample_sha [(None, OpDelivered 1 ''m1'' ''c'' ''d1'' 7)] sample_store"

definition sample_capacity :: queue_capacity where
  "sample_capacity = \<lparr>qc_MaxPendingGlobal = 2, qc_MaxPendingPerDevice = 2\<rparr>"

lemma sample_reachable: "store_reachable sample_sha sample_sent" "store_reachable sample_sha sample_delivered"
  unfolding sample_sent_def sample_delivered_def by (intro store_run_reachable sample_store_reachable)+

lemma sample_sent_eq:
  "sample_sent = \<lparr>mem_messages = [(''m1'', (clear_claim (sample_saved ''m1'' ''d1''))\<lparr>ms_SessionID := ''s'',
       ms_Status := MessageStatusSent, ms_Attempts := ms_Attempts (sample_saved ''m1'' ''d1'') + 1, ms_LastError := '''',
       ms_NextRetryAt := 4, ms_SentAt := 3, ms_UpdatedAt := 2\<rparr>), (''m2'', sample_saved ''m2'' ''d2'')],
     mem_terminalEvents = []\<rparr>"
  by (simp add: sample_sent_def sample_store_eq MarkSent_def update_message_def is_zero_def)

lemma sample_delivered_eq:
  "sample_delivered = \<lparr>mem_messages = [(''m1'', (clear_claim (sample_saved ''m1'' ''d1''))\<lparr>ms_Status := MessageStatusDelivered,
       ms_LastError := '''', ms_NextRetryAt := zero_time, ms_DeliveredAt := 7, ms_UpdatedAt := 7\<rparr>),
       (''m2'', sample_saved ''m2'' ''d2'')], mem_terminalEvents = []\<rparr>"
  by (simp add: sample_delivered_def sample_store_eq MarkDelivered_def update_message_def is_zero_def)

section \<open>Saved messages\<close>

text \<open>
  C18. What was saved stays: as long as retention does not delete it, a message of a reachable store is
  still returned by \<^const>\<open>Get\<close> after any sequence of operations, with the identity, payload, delivery
  policy and creation time it was saved with.
\<close>

theorem saved_message_immutable:
  assumes "\<And>b. length (sha256 b) = 32" "store_reachable sha256 s"
    and "Get None s k = Inr (Some m)" "\<forall>x\<in>set ops. \<not> deletes (snd x)"
  shows "\<exists>m'. Get None (store_run sha256 ops s) k = Inr (Some m') \<and> core m' = core m"
  using core_over_run[OF assms(1) store_reachable_inv[OF assms(1,2)] _ assms(4)] assms(3)
  by (simp add: Get_def)

theorem saved_message_immutable_witness:
  "\<exists>m'. Get None (store_run sample_sha [(None, OpSent 1 2 ''m1'' ''s'' 3 4), (None, OpAttemptFailed 6 ''m1'' ''e'' 9)] sample_store) ''m1''
     = Inr (Some m') \<and> core m' = core (sample_saved ''m1'' ''d1'')"
  by (rule saved_message_immutable[OF sample_sha_length sample_store_reachable])
    (simp_all add: Get_def sample_store_eq)

lemma fingerprint_complete [simp]:
  "messageIdentityFingerprint sha256 (complete_message sha256 i t m) = messageIdentityFingerprint sha256 m"
  by (simp add: complete_message_def Let_def messageIdentityFingerprint_def identity_preimage_def)

lemma complete_id [simp]:
  "ms_MessageID m \<noteq> '''' \<Longrightarrow> ms_MessageID (complete_message sha256 i t m) = ms_MessageID m"
  by (simp add: complete_message_def Let_def)

lemma Save_existing:
  assumes "store_inv sha256 s" "\<And>b. length (sha256 b) = 32" "map_of (mem_messages s) (ms_MessageID m) = Some old"
    and "ms_MessageID m \<noteq> ''''"
  shows "SaveWithCapacity sha256 i t None s m cap = (Inr \<lparr>sr_Message = old, sr_Outcome =
    (if messageIdentityFingerprint sha256 old = messageIdentityFingerprint sha256 m
     then SaveOutcomeExisting else SaveOutcomeConflict)\<rparr>, s)"
proof -
  obtain r s' where res: "SaveWithCapacity sha256 i t None s m cap = (r, s')" by fastforce
  from Save_cases[OF assms(1,2) res] show ?thesis
    by cases (use assms(3,4) res in simp_all)
qed

lemma Save_stored:
  assumes inv: "store_inv sha256 s" and len: "\<And>b. length (sha256 b) = 32" and "ms_MessageID m \<noteq> ''''"
    and res: "SaveWithCapacity sha256 i t None s m cap = (Inr r, s')"
  shows "map_of (mem_messages s') (ms_MessageID m) = Some (sr_Message r)
    \<and> (sr_Outcome r \<noteq> SaveOutcomeConflict \<longleftrightarrow>
        messageIdentityFingerprint sha256 (sr_Message r) = messageIdentityFingerprint sha256 m)"
  using Save_cases[OF inv len res] assms(3) by cases auto

text \<open>
  C20. Saving is idempotent: after a message with a given id was saved, saving it again, at any later
  point before retention deletes it, changes nothing and answers with the stored message, as existing,
  or as a conflict when the first save already was one.
\<close>

theorem Save_idempotent:
  assumes "\<And>b. length (sha256 b) = 32" "store_reachable sha256 s" "ms_MessageID m \<noteq> ''''"
    and "SaveWithCapacity sha256 i t None s m cap = (Inr r, s1)"
    and "\<forall>x\<in>set ops. \<not> deletes (snd x)" and "s2 = store_run sha256 ops s1"
  shows "\<exists>m'. SaveWithCapacity sha256 i' t' None s2 m cap' = (Inr \<lparr>sr_Message = m', sr_Outcome =
      (if sr_Outcome r = SaveOutcomeConflict then SaveOutcomeConflict else SaveOutcomeExisting)\<rparr>, s2)
    \<and> core m' = core (sr_Message r)"
proof -
  have inv: "store_inv sha256 s" by (rule store_reachable_inv[OF assms(1,2)])
  have inv1: "store_inv sha256 s1"
    using store_step_inv[OF assms(1) inv, of None "OpSave i t m cap"] assms(4) by simp
  note st = Save_stored[OF inv assms(1,3,4)]
  obtain m' where m': "map_of (mem_messages s2) (ms_MessageID m) = Some m'" "core m' = core (sr_Message r)"
    using core_over_run[OF assms(1) inv1 conjunct1[OF st] assms(5)] assms(6) by blast
  have "store_inv sha256 s2"
    using store_run_inv[OF assms(1) inv1] assms(6) by simp
  from Save_existing[OF this assms(1) m'(1) assms(3)] m'(2) show ?thesis
    using st coreD(6)[OF m'(2), of sha256] by auto
qed

theorem Save_idempotent_witness:
  "\<exists>m'. SaveWithCapacity sample_sha ''y'' 9 None
      (store_run sample_sha [(None, OpSent 1 2 ''m1'' ''s'' 3 4)] sample_store) (sample_message ''m1'' ''d1'') no_capacity
    = (Inr \<lparr>sr_Message = m', sr_Outcome = SaveOutcomeExisting\<rparr>,
       store_run sample_sha [(None, OpSent 1 2 ''m1'' ''s'' 3 4)] sample_store)
    \<and> core m' = core (sample_saved ''m1'' ''d1'')"
proof -
  have id: "ms_MessageID (sample_message ''m1'' ''d1'') \<noteq> ''''"
    by (simp add: sample_message_def messageFromPushRequest_def)
  have first: "SaveWithCapacity sample_sha ''x'' 9 None sample_store (sample_message ''m1'' ''d1'') no_capacity
      = (Inr \<lparr>sr_Message = sample_saved ''m1'' ''d1'', sr_Outcome = SaveOutcomeExisting\<rparr>, sample_store)"
    by (simp add: SaveWithCapacity_def sample_complete sample_store_eq Let_def messagesHaveSameIdentity_def)
  show ?thesis
    using Save_idempotent[OF sample_sha_length sample_store_reachable id first, where
        ops = "[(None, OpSent 1 2 ''m1'' ''s'' 3 4)]" and i' = "''y''" and t' = 9 and cap' = no_capacity, OF _ refl]
    by simp
qed

section \<open>Queue limits\<close>

definition full :: "queue_capacity \<Rightarrow> memory_store \<Rightarrow> string \<Rightarrow> string \<Rightarrow> bool" where
  "full cap s c d \<longleftrightarrow>
     0 < qc_MaxPendingGlobal cap \<and> qc_MaxPendingGlobal cap \<le> global_pending s
     \<or> 0 < qc_MaxPendingPerDevice cap \<and> qc_MaxPendingPerDevice cap \<le> device_pending s c d"

lemma checkQueueCapacity_full: "checkQueueCapacityLocked s c d cap \<noteq> None \<longleftrightarrow> full cap s c d"
  by (auto simp: checkQueueCapacityLocked_def full_def Enabled_def)



section \<open>Delivery status and claims\<close>


lemma claim_ids:
  assumes inv: "store_inv sha256 s" and "owner \<noteq> ''''" "\<not> is_zero now" "0 < lease"
    and claim: "ClaimDueRetryFair clock None s now ackTimeout limit cl owner lease = (Inr sel, s')"
  shows "ms_MessageID ` set (rs_Messages sel) \<subseteq> ms_MessageID ` set (retryCandidatesLocked s now ackTimeout)"
proof -
  obtain ms where ms: "\<And>m. m \<in> set ms \<Longrightarrow> m \<in> set (retryCandidatesLocked s now ackTimeout)"
      "rs_Messages sel = map (\<lambda>m. claim_message owner (now + lease) now (message_at (mem_messages s) (ms_MessageID m))) ms"
    using ClaimDueRetryFair_eq[OF assms(2-5)] by metis
  have "ms_MessageID (claim_message owner (now + lease) now (message_at (mem_messages s) (ms_MessageID m))) = ms_MessageID m"
    if "m \<in> set ms" for m
  proof -
    have "m \<in> set (vals (mem_messages s))"
      using ms(1)[OF that] by (simp add: retryCandidatesLocked_def del: set_map)
    then have "map_of (mem_messages s) (ms_MessageID m) = Some m"
      using set_vals_iff[OF store_invD(1)[OF inv], of m] store_invD(3)[OF inv] by auto
    then show ?thesis by (simp add: message_at_def claim_message_def)
  qed
  then show ?thesis using ms by (force simp: image_iff)
qed



section \<open>Terminal events and retention\<close>


lemma first_transition_event:
  "tt_Publish t \<Longrightarrow> map_of (mem_terminalEvents (snd (first_transition s m st t))) (terminalEventID (ms_MessageID m) st) \<noteq> None"
  by (simp add: first_transition_def newTerminalEvent_def Let_def split: option.split)

lemma MarkFailed_creates_event:
  assumes "map_of (mem_messages s) k = Some m" "ms_MessageID m = k" "tt_Publish t"
    and "ms_Status m = MessageStatusPending \<or> ms_Status m = MessageStatusSent"
  shows "map_of (mem_terminalEvents (snd (MarkFailed clock None s k t))) (terminalEventID k MessageStatusFailed) \<noteq> None"
  using assms first_transition_event[of _ s "(clear_claim m)\<lparr>ms_Status := MessageStatusFailed,
      ms_Attempts := a, ms_LastError := b, ms_NextRetryAt := zero_time, ms_UpdatedAt := c\<rparr>" MessageStatusFailed for a b c]
  by (auto simp: MarkFailed_def Let_def case_prod_beta clear_claim_def)

lemma MarkTerminalPublished_published:
  "map_of (mem_terminalEvents s) (terminalEventID k st) \<noteq> None \<Longrightarrow>
   \<exists>r. map_of (mem_terminalEvents (snd (MarkTerminalPublished clock None s k st ts))) (terminalEventID k st) = Some r
     \<and> tr_Status r = TerminalPublicationPublished"
  by (auto simp: MarkTerminalPublished_def Let_def split: option.split)

definition sample_transition :: terminal_transition where
  "sample_transition = \<lparr>tt_Reason = TerminalReasonMaxAttempts, tt_GatewayNode = ''n'', tt_At = 9,
     tt_Attempted = False, tt_Publish = True\<rparr>"

definition sample_published :: memory_store where
  "sample_published = store_run sample_sha [(None, OpFailed 1 ''m1'' sample_transition),
     (None, OpPublished 1 ''m1'' MessageStatusFailed 11)] sample_store"


text \<open>
  C35. Retention is safe: whatever the status, cutoff and limit, the cleanup removes a message only when it
  has that status, was last updated before the cutoff and has no terminal event that still waits to be
  published; every other message stays exactly as it is, and so do its event records.
\<close>

theorem DeleteExpired_safe:
  assumes "\<And>b. length (sha256 b) = 32" "store_reachable sha256 s" "Get None s k = Inr (Some m)"
    and "DeleteExpired ctx s st cutoff limit = (res, s')"
  shows "Get None s' k = Inr (Some m)
      \<and> (\<forall>t. terminal_status t \<longrightarrow>
           map_of (mem_terminalEvents s') (terminalEventID k t) = map_of (mem_terminalEvents s) (terminalEventID k t))
    \<or> Get None s' k = Inr None \<and> ms_Status m = st \<and> retentionTime m < cutoff
      \<and> (\<forall>t r. map_of (mem_terminalEvents s) (terminalEventID k t) = Some r \<longrightarrow> te_MessageID (tr_Event r) = k \<longrightarrow>
           tr_Status r = TerminalPublicationPublished)"
proof -
  have inv: "store_inv sha256 s" by (rule store_reachable_inv[OF assms(1,2)])
  have m: "map_of (mem_messages s) k = Some m" using assms(3) by (simp add: Get_def)
  note s' = DeleteExpired_cases[OF assms(4)]
  show ?thesis
  proof (cases "map_of (mem_messages s') k")
    case None
    have e: "expired s st cutoff m"
      using DeleteExpired_deleted[OF inv m, of ctx st cutoff limit] None assms(4) by simp
    have "tr_Status r = TerminalPublicationPublished"
      if r: "map_of (mem_terminalEvents s) j = Some r" and j: "te_MessageID (tr_Event r) = k" for j r
    proof -
      have "\<not> unpublished r"
        using e j r map_of_SomeD[OF r] store_invD(3)[OF inv m]
        by (force simp: expired_def hasUnpublishedTerminalEvent_def)
      then show ?thesis
        using store_invD(5)[OF inv r] by (simp add: record_ok_def)
    qed
    then show ?thesis
      using None e by (auto simp: Get_def expired_def before_def)
  next
    case (Some m')
    obtain ms where ms: "s' = fold delete_message ms s" using s' by blast
    have k: "k \<notin> ms_MessageID ` set ms" and "m' = m"
      using Some m ms by (auto simp: fold_delete_messages split: if_splits)
    then show ?thesis
      using Some ms fold_delete_other_events[OF k] by (simp add: Get_def)
  qed
qed

theorem DeleteExpired_safe_witness:
  "map_of (mem_messages (snd (DeleteExpired None sample_delivered MessageStatusDelivered 100 10))) ''m2''
    = Some (sample_saved ''m2'' ''d2'')"
proof -
  have m: "Get None sample_delivered ''m2'' = Inr (Some (sample_saved ''m2'' ''d2''))"
    by (simp add: sample_delivered_eq Get_def)
  show ?thesis
    using DeleteExpired_safe[OF sample_sha_length sample_reachable(2) m surjective_pairing]
    by (auto simp: Get_def)
qed

section \<open>Lists\<close>


definition sample_swapped :: memory_store where
  "sample_swapped = store_run sample_sha
     [(None, OpSave ''x'' 6 (sample_message ''m2'' ''d2'') no_capacity),
      (None, OpSave ''x'' 5 (sample_message ''m1'' ''d1'') no_capacity)] NewMemoryStore"

lemma sample_swapped_eq:
  "sample_swapped = \<lparr>mem_messages = [(''m2'', sample_saved ''m2'' ''d2''), (''m1'', sample_saved ''m1'' ''d1'')],
     mem_terminalEvents = []\<rparr>"
  by (simp add: sample_swapped_def NewMemoryStore_def SaveWithCapacity_def sample_complete Let_def
      checkQueueCapacityLocked_def no_capacity_def Enabled_def)




end
