(* ===== verification/Go_Strings.thy ===== *)
theory Go_Strings
  imports Prelude
begin

text \<open>
  Strings as the standard library handles them: decimal numbers, splitting and joining, letter case,
  hexadecimal and base64 codes, percent escapes and query strings.
\<close>

section \<open>Decimal numbers\<close>

text \<open>\<^verbatim>\<open>strconv.FormatInt\<close> and \<^verbatim>\<open>%d\<close> in base 10.\<close>

fun dec_nat :: "nat \<Rightarrow> string" where
  "dec_nat n = (if n < 10 then [char_of (48 + n)] else dec_nat (n div 10) @ [char_of (48 + n mod 10)])"

declare dec_nat.simps [simp del]

definition dec_int :: "int \<Rightarrow> string" where
  "dec_int i = (if i < 0 then ''-'' @ dec_nat (nat (- i)) else dec_nat (nat i))"

text \<open>\<^verbatim>\<open>strconv.ParseInt(s, 10, 64)\<close>: an optional sign, then digits; \<^verbatim>\<open>None\<close> is a syntax or a range error.\<close>

definition digit_val :: "char \<Rightarrow> nat option" where
  "digit_val c = (let n = of_char c :: nat in if 48 \<le> n \<and> n \<le> 57 then Some (n - 48) else None)"

fun digits_val :: "nat \<Rightarrow> string \<Rightarrow> nat option" where
  "digits_val acc [] = Some acc"
| "digits_val acc (c # cs) = (case digit_val c of None \<Rightarrow> None | Some d \<Rightarrow> digits_val (10 * acc + d) cs)"

definition sign_split :: "string \<Rightarrow> bool \<times> string" where
  "sign_split s = (case s of [] \<Rightarrow> (False, s) | c # cs \<Rightarrow>
     if c = CHR ''+'' then (False, cs) else if c = CHR ''-'' then (True, cs) else (False, s))"

definition parse_int :: "string \<Rightarrow> int option" where
  "parse_int s =
    (let (neg, ds) = sign_split s
     in if ds = '''' then None
        else case digits_val 0 ds of None \<Rightarrow> None
          | Some n \<Rightarrow> let i = (if neg then - int n else int n) in
              if min_int64 \<le> i \<and> i \<le> max_int64 then Some i else None)"

lemma digit_val_digit [simp]: "d < 10 \<Longrightarrow> digit_val (char_of (48 + d)) = Some d"
  by (simp add: digit_val_def Let_def)

lemma digits_val_append: "digits_val acc (xs @ ys) = (case digits_val acc xs of None \<Rightarrow> None | Some n \<Rightarrow> digits_val n ys)"
  by (induction xs arbitrary: acc) (auto split: option.split)

lemma dec_nat_not_Nil [simp]: "dec_nat n \<noteq> ''''"
  by (subst dec_nat.simps) simp

lemma digits_val_dec_nat [simp]: "digits_val 0 (dec_nat n) = Some n"
proof (induction n rule: dec_nat.induct)
  case (1 n)
  show ?case
    by (subst dec_nat.simps) (use 1 in \<open>simp add: digits_val_append\<close>)
qed

lemma set_dec_nat: "c \<in> set (dec_nat n) \<Longrightarrow> 48 \<le> (of_char c :: nat) \<and> (of_char c :: nat) \<le> 57"
proof (induction n rule: dec_nat.induct)
  case (1 n)
  from 1(2) show ?case
    by (subst (asm) dec_nat.simps) (use 1(1) in \<open>auto split: if_splits\<close>)
qed

lemma hd_dec_nat: "dec_nat n = c # cs \<Longrightarrow> c \<noteq> CHR ''+'' \<and> c \<noteq> CHR ''-''"
  using set_dec_nat[of c n] by auto

lemma parse_dec_int: "min_int64 \<le> i \<Longrightarrow> i \<le> max_int64 \<Longrightarrow> parse_int (dec_int i) = Some i"
proof (cases "i < 0")
  case True
  assume "min_int64 \<le> i" "i \<le> max_int64"
  then show ?thesis using True by (simp add: parse_int_def sign_split_def dec_int_def)
next
  case False
  assume i: "min_int64 \<le> i" "i \<le> max_int64"
  obtain c cs where d: "dec_nat (nat i) = c # cs" by (meson dec_nat_not_Nil neq_Nil_conv)
  have "c \<noteq> CHR ''+''" "c \<noteq> CHR ''-''" using hd_dec_nat[OF d] by simp_all
  moreover have "digits_val 0 (c # cs) = Some (nat i)" using digits_val_dec_nat[of "nat i"] d by simp
  ultimately show ?thesis using False i d by (simp add: parse_int_def sign_split_def dec_int_def)
qed

lemma dec_nat_inject [simp]: "dec_nat m = dec_nat n \<longleftrightarrow> m = n"
  by (metis digits_val_dec_nat option.inject)

section \<open>Splitting, joining, letter case\<close>

text \<open>\<^verbatim>\<open>strings.Cut\<close> at a one-byte separator; the flag says whether it was found.\<close>

fun cut :: "char \<Rightarrow> string \<Rightarrow> string \<times> string \<times> bool" where
  "cut sep [] = ([], [], False)"
| "cut sep (c # cs) = (if c = sep then ([], cs, True) else (case cut sep cs of (b, a, f) \<Rightarrow> (c # b, a, f)))"

fun join :: "string \<Rightarrow> string list \<Rightarrow> string" where
  "join sep [] = ''''"
| "join sep [x] = x"
| "join sep (x # y # ys) = x @ sep @ join sep (y # ys)"

text \<open>Letter case of ASCII strings.\<close>

definition upper_char :: "char \<Rightarrow> char" where
  "upper_char c = (let n = of_char c :: nat in if 97 \<le> n \<and> n \<le> 122 then char_of (n - 32) else c)"

definition lower_char :: "char \<Rightarrow> char" where
  "lower_char c = (let n = of_char c :: nat in if 65 \<le> n \<and> n \<le> 90 then char_of (n + 32) else c)"

definition to_upper :: "string \<Rightarrow> string" where "to_upper s = map upper_char s"

definition to_lower :: "string \<Rightarrow> string" where "to_lower s = map lower_char s"

lemma length_cut: "cut sep s = (b, a, f) \<Longrightarrow> length a \<le> length s \<and> (f \<longrightarrow> length a < length s)"
  by (induction s arbitrary: b) (auto split: if_splits prod.splits)

section \<open>Hexadecimal and percent escapes\<close>

definition hex_char :: "bool \<Rightarrow> nat \<Rightarrow> char" where
  "hex_char upper n = (if n < 10 then char_of (48 + n) else char_of ((if upper then 55 else 87) + n))"

text \<open>\<^verbatim>\<open>hex.EncodeToString\<close>.\<close>

definition hex_string :: "bytes \<Rightarrow> string" where
  "hex_string bs = concat (map (\<lambda>b. [hex_char False (unat b div 16), hex_char False (unat b mod 16)]) bs)"

definition hex_val :: "char \<Rightarrow> nat option" where
  "hex_val c = (let n = of_char c :: nat in
     if 48 \<le> n \<and> n \<le> 57 then Some (n - 48)
     else if 97 \<le> n \<and> n \<le> 102 then Some (n - 87)
     else if 65 \<le> n \<and> n \<le> 70 then Some (n - 55) else None)"

text \<open>\<^verbatim>\<open>url.QueryUnescape\<close>.\<close>

fun query_unescape :: "string \<Rightarrow> string option" where
  "query_unescape [] = Some []"
| "query_unescape (c # cs) =
    (if c = CHR ''%'' then
       (case cs of h # l # rest \<Rightarrow>
          (case (hex_val h, hex_val l) of
             (Some x, Some y) \<Rightarrow> map_option ((#) (char_of (16 * x + y))) (query_unescape rest)
           | _ \<Rightarrow> None)
        | _ \<Rightarrow> None)
     else map_option ((#) (if c = CHR ''+'' then CHR '' '' else c)) (query_unescape cs))"

text \<open>
  \<^verbatim>\<open>url.ParseQuery\<close>: the values by key, and whether some part was malformed.  A malformed part is left out and
  the rest is still read.
\<close>

definition add_value :: "string \<Rightarrow> string \<Rightarrow> (string, string list) gomap \<Rightarrow> (string, string list) gomap" where
  "add_value k v m = put k ((case map_of m k of None \<Rightarrow> [] | Some vs \<Rightarrow> vs) @ [v]) m"

lemma cut_shorter: "cut sep (c # cs) = (b, a, f) \<Longrightarrow> length a < length (c # cs)"
  using length_cut[of sep "c # cs" b a f] by (cases f) (auto split: if_splits prod.splits dest: length_cut)

lemma cut_less: "q \<noteq> '''' \<Longrightarrow> cut sep q = (b, a, f) \<Longrightarrow> length a < length q"
  using cut_shorter by (cases q) auto

function parse_query_from :: "(string, string list) gomap \<Rightarrow> bool \<Rightarrow> string \<Rightarrow> (string, string list) gomap \<times> bool" where
  "parse_query_from m bad q =
    (if q = '''' then (m, bad)
     else let (key, rest, _) = cut CHR ''&'' q in
       if CHR '';'' \<in> set key then parse_query_from m True rest
       else if key = '''' then parse_query_from m bad rest
       else let (k, v, _) = cut CHR ''='' key in
         (case (query_unescape k, query_unescape v) of
            (Some k', Some v') \<Rightarrow> parse_query_from (add_value k' v' m) bad rest
          | _ \<Rightarrow> parse_query_from m True rest))"
  by pat_completeness auto
termination
  by (relation "measure (\<lambda>(_, _, q). length q)") (auto dest: cut_less[OF _ sym])

declare parse_query_from.simps [simp del]

definition parse_query :: "string \<Rightarrow> (string, string list) gomap option" where
  "parse_query q = (case parse_query_from [] False q of (m, bad) \<Rightarrow> if bad then None else Some m)"

section \<open>Base64, URL alphabet without padding\<close>

definition b64_val :: "char \<Rightarrow> nat option" where
  "b64_val c = (let n = of_char c :: nat in
     if 65 \<le> n \<and> n \<le> 90 then Some (n - 65)
     else if 97 \<le> n \<and> n \<le> 122 then Some (n - 71)
     else if 48 \<le> n \<and> n \<le> 57 then Some (n + 4)
     else if c = CHR ''-'' then Some 62
     else if c = CHR ''_'' then Some 63 else None)"

definition b64_char :: "nat \<Rightarrow> char" where
  "b64_char n = (if n < 26 then char_of (65 + n) else if n < 52 then char_of (71 + n)
     else if n < 62 then char_of (n - 4) else if n = 62 then CHR ''-'' else CHR ''_'')"

fun b64_encode :: "bytes \<Rightarrow> string" where
  "b64_encode [] = []"
| "b64_encode [x] = [b64_char (unat x div 4), b64_char (unat x mod 4 * 16)]"
| "b64_encode [x, y] = [b64_char (unat x div 4), b64_char (unat x mod 4 * 16 + unat y div 16), b64_char (unat y mod 16 * 4)]"
| "b64_encode (x # y # z # rest) = b64_char (unat x div 4) # b64_char (unat x mod 4 * 16 + unat y div 16)
     # b64_char (unat y mod 16 * 4 + unat z div 64) # b64_char (unat z mod 64) # b64_encode rest"

fun b64_bytes :: "nat list \<Rightarrow> bytes option" where
  "b64_bytes [] = Some []"
| "b64_bytes [a] = None"
| "b64_bytes [a, b] = Some [of_nat (a * 4 + b div 16)]"
| "b64_bytes [a, b, c] = Some [of_nat (a * 4 + b div 16), of_nat (b mod 16 * 16 + c div 4)]"
| "b64_bytes (a # b # c # d # rest) = map_option (\<lambda>bs. of_nat (a * 4 + b div 16) # of_nat (b mod 16 * 16 + c div 4)
     # of_nat (c mod 4 * 64 + d) # bs) (b64_bytes rest)"

text \<open>\<^verbatim>\<open>RawURLEncoding.DecodeString\<close> skips line ends; \<^verbatim>\<open>None\<close> is a corrupt input.\<close>

definition b64_decode :: "string \<Rightarrow> bytes option" where
  "b64_decode s = (let vs = map b64_val (filter (\<lambda>c. c \<noteq> CHR 0x0A \<and> c \<noteq> CHR 0x0D) s)
     in if None \<in> set vs then None else b64_bytes (map the vs))"

lemma of_char_b64_char: "n < 64 \<Longrightarrow> of_char (b64_char n) = (if n < 26 then 65 + n else if n < 52 then 71 + n
    else if n < 62 then n - 4 else if n = 62 then 45 else 95 :: nat)"
  by (simp add: b64_char_def)

lemma b64_val_char: "n < 64 \<Longrightarrow> b64_val (b64_char n) = Some n"
  by (simp add: b64_val_def of_char_b64_char Let_def) (auto simp: b64_char_def)

lemma b64_char_line: "n < 64 \<Longrightarrow> b64_char n \<noteq> CHR 0x0A \<and> b64_char n \<noteq> CHR 0x0D"
proof -
  assume "n < 64"
  then have "of_char (b64_char n) \<noteq> (10 :: nat)" "of_char (b64_char n) \<noteq> (13 :: nat)" by (auto simp: of_char_b64_char)
  then show ?thesis by auto
qed

lemma unat_byte: "unat (b :: byte) < 256"
  using unsigned_less[of b, where ?'a = nat] by simp

lemma sextets:
  assumes "x < 256" "y < 256" "z < (256 :: nat)"
  shows "x div 4 < 64" "x mod 4 * 16 + y div 16 < 64" "x mod 4 * 16 < 64" "y mod 16 * 4 + z div 64 < 64" "y mod 16 * 4 < 64" "z mod 64 < 64"
    "x div 4 * 4 + (x mod 4 * 16 + y div 16) div 16 = x" "x div 4 * 4 + x mod 4 * 16 div 16 = x"
    "(x mod 4 * 16 + y div 16) mod 16 * 16 + (y mod 16 * 4 + z div 64) div 4 = y"
    "(x mod 4 * 16 + y div 16) mod 16 * 16 + y mod 16 * 4 div 4 = y"
    "(y mod 16 * 4 + z div 64) mod 4 * 64 + z mod 64 = z"
proof -
  have b: "x mod 4 < 4" "y div 16 < 16" "y mod 16 < 16" "z div 64 < 4" "x div 4 < 64" using assms by auto
  show "x div 4 < 64" "z mod 64 < 64" using b by auto
  show "x mod 4 * 16 + y div 16 < 64" "x mod 4 * 16 < 64" "y mod 16 * 4 + z div 64 < 64" "y mod 16 * 4 < 64" using b by linarith+
  have d: "(x mod 4 * 16 + y div 16) div 16 = x mod 4" "(x mod 4 * 16 + y div 16) mod 16 = y div 16"
    "(y mod 16 * 4 + z div 64) div 4 = y mod 16" "(y mod 16 * 4 + z div 64) mod 4 = z div 64"
    using b by auto
  show "x div 4 * 4 + (x mod 4 * 16 + y div 16) div 16 = x" "x div 4 * 4 + x mod 4 * 16 div 16 = x"
    "(x mod 4 * 16 + y div 16) mod 16 * 16 + (y mod 16 * 4 + z div 64) div 4 = y"
    "(x mod 4 * 16 + y div 16) mod 16 * 16 + y mod 16 * 4 div 4 = y"
    "(y mod 16 * 4 + z div 64) mod 4 * 64 + z mod 64 = z"
    unfolding d by simp_all
qed

definition b64_ok :: "string \<Rightarrow> bytes \<Rightarrow> bool" where
  "b64_ok s bs \<longleftrightarrow> (\<forall>c\<in>set s. c \<noteq> CHR 0x0A \<and> c \<noteq> CHR 0x0D \<and> b64_val c \<noteq> None)
     \<and> b64_bytes (map (the \<circ> b64_val) s) = Some bs"

lemma b64_bytes_group:
  "b64_bytes [unat x div 4, unat x mod 4 * 16] = Some [x]"
  "b64_bytes [unat x div 4, unat x mod 4 * 16 + unat y div 16, unat y mod 16 * 4] = Some [x, y]"
  "b64_bytes (unat x div 4 # (unat x mod 4 * 16 + unat y div 16) # (unat y mod 16 * 4 + unat z div 64) # unat z mod 64 # rest)
     = map_option (\<lambda>bs. x # y # z # bs) (b64_bytes rest)"
  by (simp_all only: b64_bytes.simps sextets[OF unat_byte[of x] unat_byte[of y] unat_byte[of z]]) simp_all

lemma b64_ok_encode: "b64_ok (b64_encode bs) bs"
proof (induction bs rule: b64_encode.induct)
  case 1
  then show ?case by (simp add: b64_ok_def)
next
  case (2 x)
  note n = sextets(1,3)[OF unat_byte[of x] unat_byte[of x] unat_byte[of x]]
  show ?case by (simp add: b64_ok_def b64_val_char b64_char_line n b64_bytes_group del: b64_bytes.simps)
next
  case (3 x y)
  note n = sextets(1,2,5)[OF unat_byte[of x] unat_byte[of y] unat_byte[of y]]
  show ?case by (simp add: b64_ok_def b64_val_char b64_char_line n b64_bytes_group del: b64_bytes.simps)
next
  case (4 x y z rest)
  note n = sextets(1,2,4,6)[OF unat_byte[of x] unat_byte[of y] unat_byte[of z]]
  show ?case using 4 by (simp add: b64_ok_def b64_val_char b64_char_line n b64_bytes_group del: b64_bytes.simps)
qed

lemma b64_decode_ok:
  assumes "b64_ok s bs"
  shows "b64_decode s = Some bs"
proof -
  have keep: "filter (\<lambda>c. c \<noteq> CHR 0x0A \<and> c \<noteq> CHR 0x0D) s = s"
    by (rule filter_True) (use assms in \<open>simp add: b64_ok_def\<close>)
  have "None \<notin> b64_val ` set s"
    using assms unfolding b64_ok_def by (metis (no_types, lifting) imageE)
  then have "None \<notin> set (map b64_val s)" by simp
  moreover have "b64_bytes (map the (map b64_val s)) = Some bs"
    using assms by (simp add: b64_ok_def)
  ultimately show ?thesis unfolding b64_decode_def Let_def keep by (simp only: if_False)
qed

lemma b64_decode_encode [simp]: "b64_decode (b64_encode bs) = Some bs"
  by (rule b64_decode_ok[OF b64_ok_encode])

end
