(* ===== verification/Retry_Timing.thy ===== *)
theory Retry_Timing
  imports Go_Float Message
begin

text \<open>
  When a message is sent again (\<^verbatim>\<open>internal/downlink/service.go\<close>): exponential backoff in \<^verbatim>\<open>float64\<close>, the
  clamped jitter, the acknowledgement deadline and the age limit.  \<open>pow\<close> stands for \<^verbatim>\<open>math.Pow\<close>, whose
  rounding Go leaves to the platform; \<open>jitter\<close> is the random function of the service.
\<close>

definition backoff :: "(float64 \<Rightarrow> float64 \<Rightarrow> float64) \<Rightarrow> duration \<Rightarrow> float64 \<Rightarrow> duration \<Rightarrow> int \<Rightarrow> duration option" where
  "backoff pow initial multiplier max_delay attempts =
    (let attempts = (if attempts < 0 then 0 else attempts);
         delay = f_mul (of_int64 initial) (pow multiplier (of_int64 attempts))
     in if is_inf delay \<or> is_nan delay \<or> f_le (of_int64 max_delay) delay then Some max_delay
        else if f_le delay (Fin 0) then Some initial
        else to_int64 delay)"

definition retryDelayForAttempt :: "(float64 \<Rightarrow> float64 \<Rightarrow> float64) \<Rightarrow> delivery_policy \<Rightarrow> int \<Rightarrow> duration option" where
  "retryDelayForAttempt pow policy attempts =
     backoff pow (dp_InitialRetryDelay policy) (dp_BackoffMultiplier policy) (dp_MaxRetryDelay policy) attempts"

definition nextRetryJitter :: "(duration \<Rightarrow> duration) \<Rightarrow> duration \<Rightarrow> duration" where
  "nextRetryJitter jitter maxJitter =
    (if maxJitter \<le> 0 then 0
     else let j = jitter maxJitter in
       if j < 0 then 0 else if maxJitter < j then maxJitter else j)"

text \<open>\<^verbatim>\<open>now.Add(delay + jitter)\<close>: the two durations are added as \<^verbatim>\<open>int64\<close>.\<close>

definition nextRetryAt ::
  "(float64 \<Rightarrow> float64 \<Rightarrow> float64) \<Rightarrow> (duration \<Rightarrow> duration) \<Rightarrow> time \<Rightarrow> delivery_policy \<Rightarrow> int \<Rightarrow> time option" where
  "nextRetryAt pow jitter now policy attempts = (case retryDelayForAttempt pow policy attempts of
     None \<Rightarrow> None
   | Some d \<Rightarrow> Some (now + wrap_int64 (d + nextRetryJitter jitter (dp_RetryJitter policy))))"

definition policyMaxAgeExceeded :: "message \<Rightarrow> delivery_policy \<Rightarrow> time \<Rightarrow> bool" where
  "policyMaxAgeExceeded m policy now =
    (if dp_MaxAge policy \<le> 0 \<or> is_zero (ms_CreatedAt m) then False
     else \<not> after (ms_CreatedAt m + dp_MaxAge policy) now)"

definition ackDeadline :: "message \<Rightarrow> delivery_policy \<Rightarrow> time \<Rightarrow> time" where
  "ackDeadline m policy sentAt =
    (if \<not> ms_AckRequired m \<or> dp_AckTimeout policy \<le> 0 \<or> is_zero sentAt then zero_time
     else sentAt + dp_AckTimeout policy)"

definition ackTimedOut :: "message \<Rightarrow> delivery_policy \<Rightarrow> time \<Rightarrow> bool" where
  "ackTimedOut m policy now =
    (if ms_Status m \<noteq> MessageStatusSent \<or> \<not> ms_AckRequired m then False
     else if is_zero (ms_NextRetryAt m)
     then (if is_zero (ms_SentAt m) \<or> dp_AckTimeout policy \<le> 0 then False
           else \<not> after (ms_SentAt m + dp_AckTimeout policy) now)
     else \<not> after (ms_NextRetryAt m) now)"

section \<open>Bounds\<close>

text \<open>
  Every conversion of the backoff is in range: a delay that passes the guards is positive and, although
  it is compared with the rounded maximum, below the exact one.
\<close>

lemma backoff_bounds:
  assumes "0 < initial" "initial \<le> max_delay" "max_delay \<le> max_int64"
  shows "\<exists>d. backoff pow initial multiplier max_delay attempts = Some d \<and> 0 \<le> d \<and> d \<le> max_delay"
proof -
  define n where "n = (if attempts < 0 then 0 else attempts)"
  define delay where "delay = f_mul (of_int64 initial) (pow multiplier (of_int64 n))"
  have b: "backoff pow initial multiplier max_delay attempts =
      (if is_inf delay \<or> is_nan delay \<or> f_le (of_int64 max_delay) delay then Some max_delay
       else if f_le delay (Fin 0) then Some initial else to_int64 delay)"
    by (simp add: backoff_def Let_def delay_def n_def)
  have mx: "of_int64 max_delay = Fin (round_rat (of_int max_delay))"
    using assms by (intro of_int64_Fin) auto
  have ini: "of_int64 initial = Fin (round_rat (of_int initial))"
    using assms by (intro of_int64_Fin) auto
  show ?thesis
  proof (cases "is_inf delay \<or> is_nan delay \<or> f_le (of_int64 max_delay) delay \<or> f_le delay (Fin 0)")
    case True
    then show ?thesis using assms by (auto simp: b)
  next
    case False
    then obtain r where r: "delay = Fin r" "r < round_rat (of_int max_delay)" "0 < r"
      by (cases delay) (auto simp: is_inf_def is_nan_def mx)
    have "\<exists>x. r = round_rat x"
      using r(1) fl_FinD unfolding delay_def ini
      by (cases "pow multiplier (of_int64 n)") (auto simp: inf_signed_def split: if_splits)
    then obtain x where "r = round_rat x" by blast
    with b64.rnd_below[of x "of_int max_delay"] r(2) have "r < of_int max_delay" by simp
    then have "0 \<le> \<lfloor>r\<rfloor>" "\<lfloor>r\<rfloor> \<le> max_delay"
      using r(3) by (auto simp: floor_le_iff)
    moreover have "\<lfloor>r\<rfloor> \<le> max_int64" using calculation(2) assms(3) by linarith
    then have "to_int64 delay = Some \<lfloor>r\<rfloor>"
      using r(3) by (simp add: r(1) to_int64_def trunc_rat_def Let_def)
    ultimately show ?thesis using False by (auto simp: b)
  qed
qed

lemma nextRetryJitter_bounds: "0 \<le> nextRetryJitter jitter m \<and> nextRetryJitter jitter m \<le> max 0 m"
  by (simp add: nextRetryJitter_def Let_def)

section \<open>Properties\<close>



end
