(* ===== verification/Downlink_Types.thy ===== *)
theory Downlink_Types
  imports Go_Strings Protocol Session Cluster Memory_Store Retry_Timing
begin

text \<open>
  The requests, responses and errors of the downlink service (\<^verbatim>\<open>internal/downlink/service.go\<close>,
  \<^verbatim>\<open>errors.go\<close>, \<^verbatim>\<open>types.go\<close>, \<^verbatim>\<open>peer_client.go\<close>), what the errors say and how the code classifies them.
\<close>

section \<open>Requests, responses and errors\<close>

record peer_push_request =
  pq_OriginNode :: string
  pq_ClientID :: string
  pq_DeviceID :: string
  pq_SessionID :: string
  pq_MsgID :: "32 word"
  pq_MessageID :: string
  pq_TraceID :: string
  pq_AckRequired :: bool
  pq_Body :: bytes

record peer_push_response =
  pp_Code :: string
  pp_Reason :: string
  pp_DeliveryState :: string
  pp_GatewayNode :: string
  pp_ClientID :: string
  pp_DeviceID :: string
  pp_SessionID :: string
  pp_ConnID :: "64 word"
  pp_MessageID :: string
  pp_TraceID :: string

record push_response =
  pu_Code :: string
  pu_Reason :: string
  pu_SubmissionState :: string
  pu_MessageStatus :: message_status
  pu_DeliveryState :: string
  pu_DeliveryPath :: string
  pu_OriginGatewayNode :: string
  pu_TargetGatewayNode :: string
  pu_TargetInternalAddr :: string
  pu_FailureStage :: string
  pu_FailureCode :: string
  pu_CapacityScope :: string
  pu_CapacityLimit :: int
  pu_CapacityPending :: int
  pu_ClientID :: string
  pu_DeviceID :: string
  pu_SessionID :: string
  pu_ConnID :: "64 word"
  pu_MessageID :: string
  pu_TraceID :: string

definition empty_response :: push_response where
  "empty_response = \<lparr>pu_Code = '''', pu_Reason = '''', pu_SubmissionState = '''', pu_MessageStatus = StatusEmpty,
     pu_DeliveryState = '''', pu_DeliveryPath = '''', pu_OriginGatewayNode = '''', pu_TargetGatewayNode = '''',
     pu_TargetInternalAddr = '''', pu_FailureStage = '''', pu_FailureCode = '''', pu_CapacityScope = '''',
     pu_CapacityLimit = 0, pu_CapacityPending = 0, pu_ClientID = '''', pu_DeviceID = '''', pu_SessionID = '''',
     pu_ConnID = 0, pu_MessageID = '''', pu_TraceID = ''''\<rparr>"

definition DeliveryStateSent :: string where "DeliveryStateSent = ''sent''"
definition DeliveryStateQueued :: string where "DeliveryStateQueued = ''queued''"
definition DeliveryPathLocal :: string where "DeliveryPathLocal = ''local''"
definition DeliveryPathClusterPeer :: string where "DeliveryPathClusterPeer = ''cluster_peer''"
definition DeliveryFailureStageSession :: string where "DeliveryFailureStageSession = ''session_lookup''"
definition DeliveryFailureStageRouteLookup :: string where "DeliveryFailureStageRouteLookup = ''route_lookup''"
definition DeliveryFailureStagePeerDispatch :: string where "DeliveryFailureStagePeerDispatch = ''peer_dispatch''"
definition SubmissionStateCreated :: string where "SubmissionStateCreated = ''created''"
definition SubmissionStateExisting :: string where "SubmissionStateExisting = ''existing''"

text \<open>What the service can tell about the error of a peer call: the HTTP failure it wraps, whether it is
  a timeout, and whether it wraps one of the package's own session errors.\<close>

record peer_http_error =
  ph_StatusCode :: int
  ph_Code :: string
  ph_Reason :: string

record peer_err =
  pe_HTTP :: "peer_http_error option"
  pe_NetTimeout :: bool
  pe_DeadlineExceeded :: bool
  pe_SessionNotFound :: bool
  pe_SessionMismatch :: bool
  pe_Text :: string

text \<open>\<open>DlPanic\<close> is a nil dereference, not an error value.  \<^verbatim>\<open>DeliveryFailure\<close> carries the stage, the code, the target node and address, and the cause.\<close>

datatype dl_err =
    DlErrMissingClientID | DlErrMissingDeviceID | DlErrMissingSessionID | DlErrInvalidMsgID
  | DlErrMissingMessageID | DlErrInvalidAckCode | DlErrInvalidStatus | DlErrInvalidTransition
  | DlErrSessionNotFound | DlErrSessionMismatch
  | DlErrConnectionNotFound string
  | DlErrRegistry registry_err
  | DlErrPeerDispatch peer_err
  | DlErrPeerNotConfigured
  | DlErrStore store_err
  | DlErrStoreNotConfigured | DlErrMessageNotFound
  | DlErrMessageIDConflict string
  | DlErrQueueCapacity capacity_scope int int
  | DlErrContext ctx_err
  | DlErrEncode protocol_err
  | DlErrSend string
  | DlPanic
  | DeliveryFailure string string string string dl_err

definition ctx_err_text :: "ctx_err \<Rightarrow> string" where
  "ctx_err_text e = (case e of Canceled \<Rightarrow> ''context canceled'' | DeadlineExceeded \<Rightarrow> ''context deadline exceeded'')"

definition registry_err_text :: "registry_err \<Rightarrow> string" where
  "registry_err_text e = (case e of
     RegistryCtxErr c \<Rightarrow> ctx_err_text c
   | ErrClosed \<Rightarrow> ''cluster: registry is closed''
   | ErrInvalidRouteKey \<Rightarrow> ''cluster: invalid route key''
   | ErrInvalidRouteEntry \<Rightarrow> ''cluster: invalid route entry''
   | ErrRouteNotFound \<Rightarrow> ''cluster: route not found''
   | ErrSessionMismatch \<Rightarrow> ''cluster: session mismatch'')"

definition scope_string :: "capacity_scope \<Rightarrow> string" where
  "scope_string scope = (case scope of QueueCapacityScopeGlobal \<Rightarrow> ''global'' | QueueCapacityScopeDevice \<Rightarrow> ''device'')"

definition capacity_err_text :: "capacity_scope \<Rightarrow> int \<Rightarrow> int \<Rightarrow> string" where
  "capacity_err_text scope pend limit = ''downlink: queue capacity exceeded: scope='' @ scope_string scope
     @ '' pending='' @ dec_int pend @ '' limit='' @ dec_int limit"

definition store_err_text :: "store_err \<Rightarrow> string" where
  "store_err_text e = (case e of
     CtxErr c \<Rightarrow> ctx_err_text c
   | ErrMessageNotFound \<Rightarrow> ''downlink: message not found''
   | QueueCapacityError scope pend limit \<Rightarrow> capacity_err_text scope pend limit)"

text \<open>The two errors \<^verbatim>\<open>Encode\<close> has for a packet.\<close>

definition encode_err_text :: "protocol_err \<Rightarrow> string" where
  "encode_err_text e = (case e of
     ErrFieldTooLarge \<Rightarrow> ''protocol: field too large: string field exceeds 65535 bytes''
   | ErrBodyTooLarge \<Rightarrow> ''protocol: body too large: body exceeds 4294967295 bytes''
   | _ \<Rightarrow> ''protocol: nil packet'')"

fun Error :: "dl_err \<Rightarrow> string" where
  "Error DlErrMissingClientID = ''downlink: missing client_id''"
| "Error DlErrMissingDeviceID = ''downlink: missing device_id''"
| "Error DlErrMissingSessionID = ''downlink: missing session_id''"
| "Error DlErrInvalidMsgID = ''downlink: invalid msg_id''"
| "Error DlErrMissingMessageID = ''downlink: missing message_id''"
| "Error DlErrInvalidAckCode = ''downlink: invalid ack code''"
| "Error DlErrInvalidStatus = ''downlink: invalid message status''"
| "Error DlErrInvalidTransition = ''downlink: invalid message status transition''"
| "Error DlErrSessionNotFound = ''downlink: session not found''"
| "Error DlErrSessionMismatch = ''downlink: session mismatch''"
| "Error (DlErrConnectionNotFound e) = ''downlink: connection not found: '' @ e"
| "Error (DlErrRegistry e) = ''downlink: registry error: '' @ registry_err_text e"
| "Error (DlErrPeerDispatch e) = ''downlink: peer dispatch error: '' @ pe_Text e"
| "Error DlErrPeerNotConfigured = ''downlink: peer dispatcher is not configured''"
| "Error (DlErrStore e) = ''downlink: store error: '' @ store_err_text e"
| "Error DlErrStoreNotConfigured = ''downlink: store is not configured''"
| "Error DlErrMessageNotFound = ''downlink: message not found''"
| "Error (DlErrMessageIDConflict i) = ''downlink: message_id immutable identity conflict: '' @ i"
| "Error (DlErrQueueCapacity scope pend limit) = capacity_err_text scope pend limit"
| "Error (DlErrContext c) = ctx_err_text c"
| "Error (DlErrEncode e) = encode_err_text e"
| "Error (DlErrSend e) = e"
| "Error DlPanic = ''runtime error: invalid memory address or nil pointer dereference''"
| "Error (DeliveryFailure stage code node addr cause) = Error cause"

text \<open>\<^verbatim>\<open>errors.Is\<close> for the sentinels the code asks about.\<close>

fun is_session_not_found :: "dl_err \<Rightarrow> bool" where
  "is_session_not_found DlErrSessionNotFound = True"
| "is_session_not_found (DlErrPeerDispatch e) = pe_SessionNotFound e"
| "is_session_not_found (DeliveryFailure _ _ _ _ cause) = is_session_not_found cause"
| "is_session_not_found _ = False"

fun is_session_mismatch :: "dl_err \<Rightarrow> bool" where
  "is_session_mismatch DlErrSessionMismatch = True"
| "is_session_mismatch (DlErrPeerDispatch e) = pe_SessionMismatch e"
| "is_session_mismatch (DeliveryFailure _ _ _ _ cause) = is_session_mismatch cause"
| "is_session_mismatch _ = False"

fun is_connection_not_found :: "dl_err \<Rightarrow> bool" where
  "is_connection_not_found (DlErrConnectionNotFound _) = True"
| "is_connection_not_found (DeliveryFailure _ _ _ _ cause) = is_connection_not_found cause"
| "is_connection_not_found _ = False"

definition newDeliveryFailure :: "string \<Rightarrow> string \<Rightarrow> route_entry \<Rightarrow> dl_err \<Rightarrow> dl_err" where
  "newDeliveryFailure stage code target cause =
     DeliveryFailure stage code (re_GatewayNode target) (re_InternalAddr target) cause"

text \<open>The failure's stage, code, target node and target address.\<close>

definition deliveryFailureFromError :: "dl_err \<Rightarrow> string \<times> string \<times> string \<times> string" where
  "deliveryFailureFromError err = (case err of
     DeliveryFailure stage code node addr _ \<Rightarrow> (stage, code, node, addr)
   | _ \<Rightarrow>
     if is_session_not_found err then (DeliveryFailureStageSession, ''session_not_found'', '''', '''')
     else if is_session_mismatch err then (DeliveryFailureStageSession, ''session_mismatch'', '''', '''')
     else if is_connection_not_found err then (DeliveryFailureStageSession, ''connection_not_found'', '''', '''')
     else case err of
       DlErrPeerNotConfigured \<Rightarrow> (DeliveryFailureStagePeerDispatch, ''peer_not_configured'', '''', '''')
     | DlErrPeerDispatch _ \<Rightarrow> (DeliveryFailureStagePeerDispatch, ''peer_error'', '''', '''')
     | DlErrRegistry _ \<Rightarrow> (DeliveryFailureStageRouteLookup, ''registry_error'', '''', '''')
     | _ \<Rightarrow> (''unknown'', ''error'', '''', ''''))"

definition nonEmpty :: "string \<Rightarrow> string \<Rightarrow> string" where
  "nonEmpty value fallback = (if value = '''' then fallback else value)"

definition annotatePushResponseFailure :: "push_response \<Rightarrow> dl_err \<Rightarrow> push_response" where
  "annotatePushResponseFailure resp err = (case deliveryFailureFromError err of (stage, code, node, addr) \<Rightarrow>
     resp\<lparr>pu_FailureStage := stage, pu_FailureCode := code,
       pu_TargetGatewayNode := nonEmpty (pu_TargetGatewayNode resp) node,
       pu_TargetInternalAddr := nonEmpty (pu_TargetInternalAddr resp) addr\<rparr>)"

definition annotateQueueCapacityResponse :: "push_response \<Rightarrow> dl_err \<Rightarrow> push_response" where
  "annotateQueueCapacityResponse resp err = (case err of
     DlErrQueueCapacity scope pend limit \<Rightarrow>
       resp\<lparr>pu_CapacityScope := scope_string scope, pu_CapacityLimit := limit, pu_CapacityPending := pend\<rparr>
   | _ \<Rightarrow> resp)"

definition classifyPeerFailureCode :: "peer_err \<Rightarrow> string" where
  "classifyPeerFailureCode err = (case pe_HTTP err of
     Some h \<Rightarrow>
       if ph_StatusCode h = 401 \<or> ph_StatusCode h = 403 then ''peer_auth_failed''
       else if ph_StatusCode h = 404
       then (if ph_Code h = ''session_not_found'' \<or> ph_Code h = ''session_mismatch'' then ''peer_target_not_found''
             else ''peer_not_found'')
       else if ph_StatusCode h = 409 then ''peer_target_conflict''
       else ''peer_http_error''
   | None \<Rightarrow>
       if pe_NetTimeout err then ''peer_timeout''
       else if pe_DeadlineExceeded err then ''peer_timeout''
       else ''peer_error'')"

definition isStalePeerRouteError :: "peer_err \<Rightarrow> bool" where
  "isStalePeerRouteError err =
    (if pe_SessionNotFound err \<or> pe_SessionMismatch err then True
     else case pe_HTTP err of
       None \<Rightarrow> False
     | Some h \<Rightarrow> ph_StatusCode h = 404 \<and> (ph_Code h = ''session_not_found'' \<or> ph_Code h = ''session_mismatch''))"

definition pushRequestFromPeerPushRequest :: "peer_push_request \<Rightarrow> push_request" where
  "pushRequestFromPeerPushRequest req =
     \<lparr>rq_ClientID = pq_ClientID req, rq_DeviceID = pq_DeviceID req, rq_MsgID = pq_MsgID req,
      rq_MessageID = pq_MessageID req, rq_TraceID = pq_TraceID req, rq_AckRequired = pq_AckRequired req,
      rq_Body = pq_Body req\<rparr>"

definition peerPushRequestFromPushRequest :: "push_request \<Rightarrow> string \<Rightarrow> string \<Rightarrow> peer_push_request" where
  "peerPushRequestFromPushRequest req originNode sessionID =
     \<lparr>pq_OriginNode = originNode, pq_ClientID = rq_ClientID req, pq_DeviceID = rq_DeviceID req,
      pq_SessionID = sessionID, pq_MsgID = rq_MsgID req, pq_MessageID = rq_MessageID req,
      pq_TraceID = rq_TraceID req, pq_AckRequired = rq_AckRequired req, pq_Body = rq_Body req\<rparr>"

definition validatePushRequest :: "push_request \<Rightarrow> dl_err option" where
  "validatePushRequest req =
    (if rq_ClientID req = '''' then Some DlErrMissingClientID
     else if rq_DeviceID req = '''' then Some DlErrMissingDeviceID
     else if rq_MsgID req = 0 then Some DlErrInvalidMsgID
     else None)"

definition validMessageStatus :: "message_status \<Rightarrow> bool" where
  "validMessageStatus status \<longleftrightarrow> status \<noteq> StatusEmpty"

definition validatePeerPushRequest :: "peer_push_request \<Rightarrow> dl_err option" where
  "validatePeerPushRequest req = (case validatePushRequest (pushRequestFromPeerPushRequest req) of
     Some err \<Rightarrow> Some err
   | None \<Rightarrow> if pq_SessionID req = '''' then Some DlErrMissingSessionID else None)"

end
