(* ===== verification/Downlink_Service.thy ===== *)
theory Downlink_Service
  imports Downlink_Types "HOL-Library.State_Monad"
begin

text \<open>
  The downlink service (\<^verbatim>\<open>internal/downlink/service.go\<close>): pushing a message to a device, at once when it is
  online here or on a peer gateway, retrying it until it is acknowledged or fails terminally, publishing
  terminal events, and cleaning up.

  An operation is a state transformer over the \<open>world\<close> the service works on.  Everything the code
  observes of its surroundings is a reading of the environment \<open>env\<close>, numbered by \<open>w_tick\<close>: the clock, the
  context's error, fresh ids, the random jitter, the result of writing to a connection, of calling a
  peer gateway and of publishing an event.  The store is the memory store, which offers the capacity,
  fairness and terminal interfaces but not the plain claim interface.  Metrics and logs are left out.
\<close>

section \<open>Configuration\<close>

record service =
  sv_retryDelay :: duration
  sv_retryJitter :: duration
  sv_ackTimeout :: duration
  sv_retryClaimOwner :: string
  sv_retryClaimLease :: duration
  sv_retryFairness :: retry_fairness
  sv_maxAttempts :: int
  sv_deliveryPolicies :: "policy_set option"
  sv_queueCapacity :: queue_capacity
  sv_terminalPublisher :: bool
  sv_terminalGatewayNode :: string
  sv_terminalRetryDelay :: duration
  sv_terminalRetryJitter :: duration
  sv_terminalBackoffMultiplier :: float64
  sv_terminalMaxRetryDelay :: duration
  sv_terminalClaimOwner :: string
  sv_terminalClaimLease :: duration
  sv_gatewayNode :: string
  sv_peerDispatcher :: bool

record terminal_publishing_config =
  tc_Publisher :: bool
  tc_GatewayNode :: string
  tc_RetryDelay :: duration
  tc_RetryJitter :: duration
  tc_BackoffMultiplier :: float64
  tc_MaxRetryDelay :: duration
  tc_ClaimOwner :: string
  tc_ClaimLease :: duration

definition minute :: duration where "minute = 60 * second"

type_synonym service_option = "service \<Rightarrow> service"

definition WithRetryDelay :: "duration \<Rightarrow> service_option" where
  "WithRetryDelay d s = (if 0 < d then s\<lparr>sv_retryDelay := d\<rparr> else s)"

definition WithRetryJitter :: "duration \<Rightarrow> service_option" where
  "WithRetryJitter d s = (if 0 < d then s\<lparr>sv_retryJitter := d\<rparr> else s)"

definition WithAckTimeout :: "duration \<Rightarrow> service_option" where
  "WithAckTimeout d s = (if 0 < d then s\<lparr>sv_ackTimeout := d\<rparr> else s)"

definition WithMaxAttempts :: "int \<Rightarrow> service_option" where
  "WithMaxAttempts n s = (if 0 < n then s\<lparr>sv_maxAttempts := n\<rparr> else s)"

definition WithDeliveryPolicies :: "policy_set option \<Rightarrow> service_option" where
  "WithDeliveryPolicies p s = (if p \<noteq> None then s\<lparr>sv_deliveryPolicies := p\<rparr> else s)"

definition WithQueueCapacity :: "queue_capacity \<Rightarrow> service_option" where
  "WithQueueCapacity c s = s\<lparr>sv_queueCapacity := c\<rparr>"

definition WithTerminalPublishing :: "terminal_publishing_config \<Rightarrow> service_option" where
  "WithTerminalPublishing c s =
    (let s = s\<lparr>sv_terminalPublisher := tc_Publisher c, sv_terminalGatewayNode := tc_GatewayNode c\<rparr>;
         s = (if 0 < tc_RetryDelay c then s\<lparr>sv_terminalRetryDelay := tc_RetryDelay c\<rparr> else s);
         s = (if 0 \<le> tc_RetryJitter c then s\<lparr>sv_terminalRetryJitter := tc_RetryJitter c\<rparr> else s);
         s = (if f_le (Fin 1) (tc_BackoffMultiplier c) then s\<lparr>sv_terminalBackoffMultiplier := tc_BackoffMultiplier c\<rparr> else s);
         s = (if 0 < tc_MaxRetryDelay c then s\<lparr>sv_terminalMaxRetryDelay := tc_MaxRetryDelay c\<rparr> else s);
         s = s\<lparr>sv_terminalClaimOwner := tc_ClaimOwner c\<rparr>
     in if 0 < tc_ClaimLease c then s\<lparr>sv_terminalClaimLease := tc_ClaimLease c\<rparr> else s)"

definition WithRetryClaim :: "string \<Rightarrow> duration \<Rightarrow> service_option" where
  "WithRetryClaim owner lease s =
    (let s = s\<lparr>sv_retryClaimOwner := owner\<rparr> in if 0 < lease then s\<lparr>sv_retryClaimLease := lease\<rparr> else s)"

definition WithRetryFairness :: "retry_fairness \<Rightarrow> service_option" where
  "WithRetryFairness f s = s\<lparr>sv_retryFairness := f\<rparr>"

text \<open>The registry itself is part of the world; the option sets the node name and the dispatcher.\<close>

definition WithClusterDelivery :: "string \<Rightarrow> bool \<Rightarrow> service_option" where
  "WithClusterDelivery node dispatcher s = s\<lparr>sv_gatewayNode := node, sv_peerDispatcher := dispatcher\<rparr>"

definition NewService :: "service_option list \<Rightarrow> service" where
  "NewService options = fold (\<lambda>opt. opt) options
     \<lparr>sv_retryDelay = 30 * second, sv_retryJitter = 0, sv_ackTimeout = 30 * second, sv_retryClaimOwner = '''',
      sv_retryClaimLease = 30 * second, sv_retryFairness = \<lparr>rf_Enabled = False, rf_CandidateMultiplier = 0\<rparr>,
      sv_maxAttempts = 5, sv_deliveryPolicies = None, sv_queueCapacity = no_capacity, sv_terminalPublisher = False,
      sv_terminalGatewayNode = '''', sv_terminalRetryDelay = 30 * second, sv_terminalRetryJitter = 0,
      sv_terminalBackoffMultiplier = Fin 2, sv_terminalMaxRetryDelay = 5 * minute, sv_terminalClaimOwner = '''',
      sv_terminalClaimLease = 30 * second, sv_gatewayNode = '''', sv_peerDispatcher = False\<rparr>"

section \<open>The world and the environment\<close>

text \<open>\<open>e_visit\<close> gives the clock readings of a loop over the stored messages.  \<open>w_sent\<close> records the packets that connections accepted, \<open>w_published\<close> the events the publisher
  accepted; the latest comes first.\<close>

record world =
  w_store :: "memory_store option"
  w_sessions :: manager
  w_registry :: "memory_registry option"
  w_sent :: "(64 word \<times> 32 word \<times> bytes) list"
  w_published :: "terminal_event list"
  w_tick :: nat

record env =
  e_now :: "nat \<Rightarrow> time"
  e_visit :: "nat \<Rightarrow> message \<Rightarrow> time"
  e_ctx :: "nat \<Rightarrow> ctx"
  e_new_id :: "nat \<Rightarrow> string"
  e_jitter :: "nat \<Rightarrow> duration \<Rightarrow> duration"
  e_conn :: "nat \<Rightarrow> 64 word \<Rightarrow> string option"
  e_send :: "nat \<Rightarrow> 64 word \<Rightarrow> string option"
  e_peer :: "nat \<Rightarrow> route_entry \<Rightarrow> peer_push_request \<Rightarrow> peer_err + peer_push_response"
  e_publish :: "nat \<Rightarrow> terminal_event \<Rightarrow> string option"
  e_pow :: "float64 \<Rightarrow> float64 \<Rightarrow> float64"
  e_sha256 :: "bytes \<Rightarrow> bytes"

type_synonym 'a act = "(world, 'a) state"

definition reading :: "(nat \<Rightarrow> 'a) \<Rightarrow> 'a act" where
  "reading f = State (\<lambda>w. (f (w_tick w), w\<lparr>w_tick := Suc (w_tick w)\<rparr>))"

text \<open>A call of the store, the registry or the session manager on its current state.\<close>

definition on_store :: "(memory_store \<Rightarrow> 'a \<times> memory_store) \<Rightarrow> 'a \<Rightarrow> 'a act" where
  "on_store f nil = State (\<lambda>w. case w_store w of None \<Rightarrow> (nil, w)
     | Some st \<Rightarrow> case f st of (a, st') \<Rightarrow> (a, w\<lparr>w_store := Some st'\<rparr>))"

definition on_registry :: "(memory_registry \<Rightarrow> 'a \<times> memory_registry) \<Rightarrow> 'a \<Rightarrow> 'a act" where
  "on_registry f nil = State (\<lambda>w. case w_registry w of None \<Rightarrow> (nil, w)
     | Some r \<Rightarrow> case f r of (a, r') \<Rightarrow> (a, w\<lparr>w_registry := Some r'\<rparr>))"

definition gets :: "(world \<Rightarrow> 'a) \<Rightarrow> 'a act" where
  "gets f = State (\<lambda>w. (f w, w))"

definition emit_sent :: "64 word \<times> 32 word \<times> bytes \<Rightarrow> unit act" where
  "emit_sent x = State (\<lambda>w. ((), w\<lparr>w_sent := x # w_sent w\<rparr>))"

definition emit_published :: "terminal_event \<Rightarrow> unit act" where
  "emit_published x = State (\<lambda>w. ((), w\<lparr>w_published := x # w_published w\<rparr>))"
abbreviation ret :: "'a \<Rightarrow> 'a act" where "ret \<equiv> State_Monad.return"

definition now :: "env \<Rightarrow> time act" where "now E = reading (e_now E)"
definition ctx_Err :: "env \<Rightarrow> ctx act" where "ctx_Err E = reading (e_ctx E)"

text \<open>The store interface on the memory store, with the readings each method takes.\<close>

definition store_Get :: "env \<Rightarrow> string \<Rightarrow> (store_err + message option) act" where
  "store_Get E messageID = do { c \<leftarrow> ctx_Err E; on_store (\<lambda>st. (Get c st messageID, st)) (Inr None) }"

definition store_Save :: "env \<Rightarrow> message \<Rightarrow> queue_capacity \<Rightarrow> (store_err + save_result) act" where
  "store_Save E m capacity = do {
     c \<leftarrow> ctx_Err E; t \<leftarrow> now E; i \<leftarrow> reading (e_new_id E);
     on_store (\<lambda>st. SaveWithCapacity (e_sha256 E) i t c st m capacity) (Inl ErrMessageNotFound) }"

definition store_MarkSent :: "env \<Rightarrow> string \<Rightarrow> string \<Rightarrow> time \<Rightarrow> time \<Rightarrow> store_err option act" where
  "store_MarkSent E messageID sessionID sentAt nextRetry = do {
     c \<leftarrow> ctx_Err E; t \<leftarrow> now E; t' \<leftarrow> now E;
     on_store (\<lambda>st. MarkSent t t' c st messageID sessionID sentAt nextRetry) None }"

definition store_MarkDelivered :: "env \<Rightarrow> string \<Rightarrow> string \<Rightarrow> string \<Rightarrow> time \<Rightarrow> store_err option act" where
  "store_MarkDelivered E messageID clientID deviceID deliveredAt = do {
     c \<leftarrow> ctx_Err E; t \<leftarrow> now E;
     on_store (\<lambda>st. MarkDelivered t c st messageID clientID deviceID deliveredAt) None }"

definition store_MarkAttemptFailed :: "env \<Rightarrow> string \<Rightarrow> string \<Rightarrow> time \<Rightarrow> store_err option act" where
  "store_MarkAttemptFailed E messageID reason nextRetry = do {
     c \<leftarrow> ctx_Err E; t \<leftarrow> now E;
     on_store (\<lambda>st. MarkAttemptFailed t c st messageID reason nextRetry) None }"

definition store_MarkFailed :: "env \<Rightarrow> string \<Rightarrow> terminal_transition \<Rightarrow> store_err option act" where
  "store_MarkFailed E messageID transition = do {
     c \<leftarrow> ctx_Err E; t \<leftarrow> now E; on_store (\<lambda>st. MarkFailed t c st messageID transition) None }"

definition store_Requeue :: "env \<Rightarrow> string \<Rightarrow> time \<Rightarrow> queue_capacity \<Rightarrow> store_err option act" where
  "store_Requeue E messageID requeuedAt capacity = do {
     c \<leftarrow> ctx_Err E; t \<leftarrow> now E;
     on_store (\<lambda>st. RequeueWithCapacity t c st messageID requeuedAt capacity) None }"

definition store_Discard :: "env \<Rightarrow> string \<Rightarrow> string \<Rightarrow> terminal_transition \<Rightarrow> store_err option act" where
  "store_Discard E messageID reason transition = do {
     c \<leftarrow> ctx_Err E; t \<leftarrow> now E; on_store (\<lambda>st. Discard t c st messageID reason transition) None }"

definition store_ListByStatusPage :: "env \<Rightarrow> list_query \<Rightarrow> (store_err + list_result) act" where
  "store_ListByStatusPage E query = do {
     c \<leftarrow> ctx_Err E; on_store (\<lambda>st. (ListByStatusPage c st query, st)) (Inl ErrMessageNotFound) }"

definition store_ListDueRetry :: "env \<Rightarrow> time \<Rightarrow> duration \<Rightarrow> int \<Rightarrow> (store_err + message list) act" where
  "store_ListDueRetry E ts ackTimeout limit = do {
     c \<leftarrow> ctx_Err E; t \<leftarrow> now E; on_store (\<lambda>st. (ListDueRetry t c st ts ackTimeout limit, st)) (Inr []) }"

definition store_ListDueRetryFair :: "env \<Rightarrow> time \<Rightarrow> duration \<Rightarrow> int \<Rightarrow> int \<Rightarrow> (store_err + retry_selection) act" where
  "store_ListDueRetryFair E ts ackTimeout limit candidateLimit = do {
     c \<leftarrow> ctx_Err E; t \<leftarrow> now E;
     on_store (\<lambda>st. (ListDueRetryFair t c st ts ackTimeout limit candidateLimit, st)) (Inl ErrMessageNotFound) }"

definition store_ClaimDueRetryFair ::
  "env \<Rightarrow> time \<Rightarrow> duration \<Rightarrow> int \<Rightarrow> int \<Rightarrow> string \<Rightarrow> duration \<Rightarrow> (store_err + retry_selection) act" where
  "store_ClaimDueRetryFair E ts ackTimeout limit candidateLimit owner lease = do {
     c \<leftarrow> ctx_Err E; t \<leftarrow> now E;
     on_store (\<lambda>st. ClaimDueRetryFair t c st ts ackTimeout limit candidateLimit owner lease) (Inl ErrMessageNotFound) }"

definition store_ListPendingByClientDevice :: "env \<Rightarrow> string \<Rightarrow> string \<Rightarrow> int \<Rightarrow> (store_err + message list) act" where
  "store_ListPendingByClientDevice E clientID deviceID limit = do {
     c \<leftarrow> ctx_Err E; t \<leftarrow> reading (e_visit E);
     on_store (\<lambda>st. (ListPendingByClientDevice t c st clientID deviceID limit, st)) (Inr []) }"

definition store_ClaimDueTerminal ::
  "env \<Rightarrow> time \<Rightarrow> int \<Rightarrow> string \<Rightarrow> duration \<Rightarrow> (store_err + terminal_record list) act" where
  "store_ClaimDueTerminal E ts limit owner lease = do {
     c \<leftarrow> ctx_Err E; t \<leftarrow> now E; on_store (\<lambda>st. ClaimDueTerminal t c st ts limit owner lease) (Inr []) }"

definition store_MarkTerminalPublished :: "env \<Rightarrow> string \<Rightarrow> message_status \<Rightarrow> time \<Rightarrow> store_err option act" where
  "store_MarkTerminalPublished E messageID status ts = do {
     c \<leftarrow> ctx_Err E; t \<leftarrow> now E; on_store (\<lambda>st. MarkTerminalPublished t c st messageID status ts) None }"

definition store_MarkTerminalPublishFailed ::
  "env \<Rightarrow> string \<Rightarrow> message_status \<Rightarrow> string \<Rightarrow> time \<Rightarrow> store_err option act" where
  "store_MarkTerminalPublishFailed E messageID status reason ts = do {
     c \<leftarrow> ctx_Err E; on_store (\<lambda>st. MarkTerminalPublishFailed c st messageID status reason ts) None }"

definition store_DeleteExpired :: "env \<Rightarrow> message_status \<Rightarrow> time \<Rightarrow> int \<Rightarrow> (store_err + nat) act" where
  "store_DeleteExpired E status cutoff limit = do {
     c \<leftarrow> ctx_Err E; on_store (\<lambda>st. DeleteExpired c st status cutoff limit) (Inr 0) }"

section \<open>Policies and inspection\<close>

definition HasTerminalPublisher :: "service \<Rightarrow> world \<Rightarrow> bool" where
  "HasTerminalPublisher s w \<longleftrightarrow> sv_terminalPublisher s \<and> w_store w \<noteq> None"

definition DeliveryPolicy :: "service \<Rightarrow> 32 word \<Rightarrow> delivery_policy" where
  "DeliveryPolicy s msgID = (if sv_deliveryPolicies s \<noteq> None then Resolve (sv_deliveryPolicies s) msgID
     else \<lparr>dp_Name = DefaultDeliveryPolicyName, dp_MaxAttempts = sv_maxAttempts s, dp_MaxAge = 0,
       dp_AckTimeout = sv_ackTimeout s, dp_InitialRetryDelay = sv_retryDelay s, dp_BackoffMultiplier = Fin 1,
       dp_MaxRetryDelay = sv_retryDelay s, dp_RetryJitter = sv_retryJitter s\<rparr>)"

definition policyForMessage :: "service \<Rightarrow> message \<Rightarrow> delivery_policy" where
  "policyForMessage s m = (if dp_Name (ms_Policy m) \<noteq> '''' \<and> validateDeliveryPolicy (ms_Policy m) = None
     then ms_Policy m else DeliveryPolicy s (ms_MsgID m))"

definition attachResolvedPolicy :: "service \<Rightarrow> message \<Rightarrow> message" where
  "attachResolvedPolicy s m = m\<lparr>ms_Policy := policyForMessage s m\<rparr>"

definition MessageStatus :: "env \<Rightarrow> service \<Rightarrow> string \<Rightarrow> (dl_err + message option) act" where
  "MessageStatus E s messageID = do {
     st \<leftarrow> gets w_store;
     if messageID = '''' then ret (Inl DlErrMissingMessageID)
     else if st = None then ret (Inl DlErrStoreNotConfigured)
     else do {
       r \<leftarrow> store_Get E messageID;
       case r of Inl err \<Rightarrow> ret (Inl (DlErrStore err))
       | Inr m \<Rightarrow> ret (Inr (map_option (attachResolvedPolicy s) m)) } }"

definition ListMessagesPage :: "env \<Rightarrow> service \<Rightarrow> list_query \<Rightarrow> (dl_err + list_result) act" where
  "ListMessagesPage E s query = do {
     st \<leftarrow> gets w_store;
     if st = None then ret (Inl DlErrStoreNotConfigured)
     else if \<not> validMessageStatus (lq_Status query) then ret (Inl DlErrInvalidStatus)
     else do {
       r \<leftarrow> store_ListByStatusPage E query;
       case r of Inl err \<Rightarrow> ret (Inl (DlErrStore err))
       | Inr res \<Rightarrow> ret (Inr (res\<lparr>lr_Messages := map (attachResolvedPolicy s) (lr_Messages res)\<rparr>)) } }"

definition ListMessages :: "env \<Rightarrow> service \<Rightarrow> message_status \<Rightarrow> int \<Rightarrow> (dl_err + message list) act" where
  "ListMessages E s status limit = do {
     r \<leftarrow> ListMessagesPage E s \<lparr>lq_Status = status, lq_Limit = limit, lq_Cursor = zero_cursor\<rparr>;
     ret (map_sum id lr_Messages r) }"

section \<open>Delivery to an online device\<close>

definition unix_epoch :: time where "unix_epoch = 62135596800 * second"

definition UnixMilli :: "time \<Rightarrow> 64 word" where
  "UnixMilli t = word_of_int ((t - unix_epoch) div millisecond)"

definition downlink_packet :: "push_request \<Rightarrow> session \<Rightarrow> time \<Rightarrow> packet" where
  "downlink_packet req found ts =
    (let packet = (NewPacket (rq_MsgID req) (rq_Body req))\<lparr>pkt_ClientID := ss_ClientID found,
           pkt_DeviceID := ss_DeviceID found, pkt_SessionID := ss_SessionID found,
           pkt_MessageID := rq_MessageID req, pkt_TraceID := rq_TraceID req, pkt_Timestamp := UnixMilli ts\<rparr>
     in if rq_AckRequired req then packet\<lparr>pkt_Flags := or (pkt_Flags packet) FlagAckRequired\<rparr> else packet)"

definition pushOnlineWithSession :: "env \<Rightarrow> service \<Rightarrow> push_request \<Rightarrow> string \<Rightarrow> (dl_err + push_response) act" where
  "pushOnlineWithSession E s req expectedSessionID = do {
     sessions \<leftarrow> gets w_sessions;
     case GetByClientDevice sessions (rq_ClientID req) (rq_DeviceID req) of
       (_, False) \<Rightarrow> ret (Inl DlErrSessionNotFound)
     | (None, True) \<Rightarrow> ret (Inl DlPanic)
     | (Some found, True) \<Rightarrow>
       if expectedSessionID \<noteq> '''' \<and> ss_SessionID found \<noteq> expectedSessionID then ret (Inl DlErrSessionMismatch)
       else do {
         conn \<leftarrow> reading (\<lambda>n. e_conn E n (ss_ConnID found));
         case conn of Some err \<Rightarrow> ret (Inl (DlErrConnectionNotFound err))
         | None \<Rightarrow> do {
           ts \<leftarrow> now E;
           case Encode (Some (downlink_packet req found ts)) of
             Inl err \<Rightarrow> ret (Inl (DlErrEncode err))
           | Inr (data, packet) \<Rightarrow> do {
               res \<leftarrow> reading (\<lambda>n. e_send E n (ss_ConnID found));
               case res of Some err \<Rightarrow> ret (Inl (DlErrSend err))
               | None \<Rightarrow> do {
                 _ \<leftarrow> emit_sent (ss_ConnID found, pkt_MsgID packet, data);
                 ret (Inr (empty_response\<lparr>pu_Code := ''ok'', pu_DeliveryState := DeliveryStateSent,
                   pu_DeliveryPath := DeliveryPathLocal,
                   pu_TargetGatewayNode := nonEmpty (ss_GatewayNode found) (sv_gatewayNode s),
                   pu_ClientID := ss_ClientID found, pu_DeviceID := ss_DeviceID found,
                   pu_SessionID := ss_SessionID found, pu_ConnID := ss_ConnID found,
                   pu_MessageID := rq_MessageID req, pu_TraceID := rq_TraceID req\<rparr>)) } } } } }"

definition pushOnline :: "env \<Rightarrow> service \<Rightarrow> push_request \<Rightarrow> (dl_err + push_response) act" where
  "pushOnline E s req = pushOnlineWithSession E s req ''''"

definition registry_Lookup :: "env \<Rightarrow> route_key \<Rightarrow> (registry_err + route_entry option) act" where
  "registry_Lookup E key = do {
     c \<leftarrow> ctx_Err E; t \<leftarrow> now E; on_registry (\<lambda>r. RegistryLookup t c r key) (Inr None) }"

definition registry_Unbind :: "env \<Rightarrow> route_key \<Rightarrow> string \<Rightarrow> registry_err option act" where
  "registry_Unbind E key sessionID = do {
     c \<leftarrow> ctx_Err E; t \<leftarrow> now E; on_registry (\<lambda>r. RegistryUnbind t c r key sessionID) None }"

definition no_route :: "push_request \<Rightarrow> route_entry" where
  "no_route req = \<lparr>re_ClientID = rq_ClientID req, re_DeviceID = rq_DeviceID req, re_SessionID = '''',
     re_GatewayNode = '''', re_InternalAddr = '''', re_TokenID = '''', re_UpdatedAt = zero_time, re_ExpiresAt = zero_time\<rparr>"

definition push_to_peer :: "env \<Rightarrow> service \<Rightarrow> push_request \<Rightarrow> route_key \<Rightarrow> route_entry \<Rightarrow> (dl_err + push_response) act" where
  "push_to_peer E s req key entry = do {
     r \<leftarrow> reading (\<lambda>n. e_peer E n entry (peerPushRequestFromPushRequest req (sv_gatewayNode s) (re_SessionID entry)));
     case r of
       Inl err \<Rightarrow> do {
         _ \<leftarrow> (if isStalePeerRouteError err then registry_Unbind E key (re_SessionID entry) else ret None);
         ret (Inl (newDeliveryFailure DeliveryFailureStagePeerDispatch (classifyPeerFailureCode err) entry
           (DlErrPeerDispatch err))) }
     | Inr resp \<Rightarrow>
         ret (Inr (empty_response\<lparr>pu_Code := nonEmpty (pp_Code resp) ''ok'', pu_DeliveryState := DeliveryStateSent,
           pu_DeliveryPath := DeliveryPathClusterPeer, pu_OriginGatewayNode := sv_gatewayNode s,
           pu_TargetGatewayNode := re_GatewayNode entry, pu_TargetInternalAddr := re_InternalAddr entry,
           pu_ClientID := nonEmpty (pp_ClientID resp) (rq_ClientID req),
           pu_DeviceID := nonEmpty (pp_DeviceID resp) (rq_DeviceID req),
           pu_SessionID := (if pp_SessionID resp = '''' then re_SessionID entry else pp_SessionID resp),
           pu_ConnID := pp_ConnID resp, pu_MessageID := rq_MessageID req, pu_TraceID := rq_TraceID req\<rparr>)) }"

definition pushCluster :: "env \<Rightarrow> service \<Rightarrow> push_request \<Rightarrow> (dl_err + push_response) act" where
  "pushCluster E s req = do {
     registry \<leftarrow> gets w_registry;
     if registry = None
     then ret (Inl (newDeliveryFailure DeliveryFailureStageSession ''session_not_found'' (no_route req) DlErrSessionNotFound))
     else do {
       r \<leftarrow> registry_Lookup E (rq_ClientID req, rq_DeviceID req);
       case r of
         Inl err \<Rightarrow> ret (Inl (newDeliveryFailure DeliveryFailureStageRouteLookup ''registry_error'' (no_route req)
           (DlErrRegistry err)))
       | Inr None \<Rightarrow> ret (Inl (newDeliveryFailure DeliveryFailureStageRouteLookup ''route_not_found'' (no_route req)
           DlErrSessionNotFound))
       | Inr (Some entry) \<Rightarrow>
           if re_GatewayNode entry = sv_gatewayNode s \<or> re_InternalAddr entry = ''''
           then do {
             _ \<leftarrow> registry_Unbind E (rq_ClientID req, rq_DeviceID req) (re_SessionID entry);
             ret (Inl (newDeliveryFailure DeliveryFailureStageRouteLookup ''stale_route'' entry DlErrSessionNotFound)) }
           else if \<not> sv_peerDispatcher s
           then ret (Inl (newDeliveryFailure DeliveryFailureStagePeerDispatch ''peer_not_configured'' entry
             DlErrPeerNotConfigured))
           else push_to_peer E s req (rq_ClientID req, rq_DeviceID req) entry } }"

definition deliverOnline :: "env \<Rightarrow> service \<Rightarrow> push_request \<Rightarrow> (dl_err + push_response) act" where
  "deliverOnline E s req = do {
     r \<leftarrow> pushOnline E s req;
     case r of
       Inr resp \<Rightarrow> ret (Inr resp)
     | Inl err \<Rightarrow> if \<not> is_session_not_found err then ret (Inl err) else pushCluster E s req }"

definition PushPeer :: "env \<Rightarrow> service \<Rightarrow> peer_push_request \<Rightarrow> string \<Rightarrow> (dl_err + peer_push_response) act" where
  "PushPeer E s req gatewayNode = do {
     c \<leftarrow> ctx_Err E;
     case c of Some err \<Rightarrow> ret (Inl (DlErrContext err))
     | None \<Rightarrow>
       case validatePeerPushRequest req of Some err \<Rightarrow> ret (Inl err)
       | None \<Rightarrow> do {
         r \<leftarrow> pushOnlineWithSession E s (pushRequestFromPeerPushRequest req) (pq_SessionID req);
         case r of Inl err \<Rightarrow> ret (Inl err)
         | Inr resp \<Rightarrow> ret (Inr \<lparr>pp_Code = ''ok'', pp_Reason = '''', pp_DeliveryState = DeliveryStateSent,
             pp_GatewayNode = gatewayNode, pp_ClientID = pu_ClientID resp, pp_DeviceID = pu_DeviceID resp,
             pp_SessionID = pu_SessionID resp, pp_ConnID = pu_ConnID resp, pp_MessageID = pu_MessageID resp,
             pp_TraceID = pu_TraceID resp\<rparr>) } }"
section \<open>Pushing a message\<close>

text \<open>A \<^verbatim>\<open>None\<close> of \<^const>\<open>nextRetryAt\<close> would be a conversion out of range; it does not occur.\<close>

definition next_retry :: "env \<Rightarrow> time \<Rightarrow> delivery_policy \<Rightarrow> int \<Rightarrow> time act" where
  "next_retry E ts policy attempts = do {
     jitter \<leftarrow> reading (e_jitter E);
     ret (case nextRetryAt (e_pow E) jitter ts policy attempts of Some t \<Rightarrow> t | None \<Rightarrow> zero_time) }"

definition pushResponseFromStoredMessage :: "message \<Rightarrow> string \<Rightarrow> push_response" where
  "pushResponseFromStoredMessage m submissionState =
     empty_response\<lparr>pu_Code := ''ok'', pu_SubmissionState := submissionState, pu_MessageStatus := ms_Status m,
       pu_DeliveryState := (case ms_Status m of
          MessageStatusPending \<Rightarrow> DeliveryStateQueued
        | MessageStatusSent \<Rightarrow> DeliveryStateSent
        | MessageStatusDelivered \<Rightarrow> DeliveryStateSent
        | _ \<Rightarrow> ''''),
       pu_ClientID := ms_ClientID m, pu_DeviceID := ms_DeviceID m, pu_SessionID := ms_SessionID m,
       pu_MessageID := ms_MessageID m, pu_TraceID := ms_TraceID m\<rparr>"

definition wrap_store_err :: "store_err \<Rightarrow> dl_err" where
  "wrap_store_err e = (case e of
     QueueCapacityError scope pend limit \<Rightarrow> DlErrQueueCapacity scope pend limit | _ \<Rightarrow> DlErrStore e)"

definition new_message :: "service \<Rightarrow> string \<Rightarrow> push_request \<Rightarrow> time \<Rightarrow> message" where
  "new_message s new_id req ts =
    (let m = (messageFromPushRequest new_id req ts)\<lparr>ms_Policy := DeliveryPolicy s (rq_MsgID req)\<rparr>
     in if sv_retryClaimOwner s \<noteq> '''' \<and> 0 < sv_retryClaimLease s
        then m\<lparr>ms_ClaimOwner := sv_retryClaimOwner s, ms_ClaimUntil := ms_CreatedAt m + sv_retryClaimLease s\<rparr>
        else m)"

definition first_attempt :: "env \<Rightarrow> service \<Rightarrow> message \<Rightarrow> (dl_err + push_response) act" where
  "first_attempt E s m = do {
     r \<leftarrow> deliverOnline E s (pushRequestFromMessage m);
     case r of
       Inl err \<Rightarrow> do {
         failedAt \<leftarrow> now E;
         next \<leftarrow> next_retry E failedAt (ms_Policy m) (ms_Attempts m);
         e \<leftarrow> store_MarkAttemptFailed E (ms_MessageID m) (Error err) next;
         case e of Some err' \<Rightarrow> ret (Inl (DlErrStore err'))
         | None \<Rightarrow> ret (Inr (annotatePushResponseFailure
             (empty_response\<lparr>pu_Code := ''ok'', pu_SubmissionState := SubmissionStateCreated,
               pu_MessageStatus := MessageStatusPending, pu_DeliveryState := DeliveryStateQueued,
               pu_ClientID := ms_ClientID m, pu_DeviceID := ms_DeviceID m, pu_MessageID := ms_MessageID m,
               pu_TraceID := ms_TraceID m, pu_Reason := Error err\<rparr>) err)) }
     | Inr sentResp \<Rightarrow> do {
         sentAt \<leftarrow> now E;
         e \<leftarrow> store_MarkSent E (ms_MessageID m) (pu_SessionID sentResp) sentAt (ackDeadline m (ms_Policy m) sentAt);
         case e of Some err' \<Rightarrow> ret (Inl (DlErrStore err'))
         | None \<Rightarrow> ret (Inr (sentResp\<lparr>pu_SubmissionState := SubmissionStateCreated,
             pu_MessageStatus := MessageStatusSent, pu_DeliveryState := DeliveryStateSent\<rparr>)) } }"

definition pushReliable :: "env \<Rightarrow> service \<Rightarrow> push_request \<Rightarrow> (dl_err + push_response) act" where
  "pushReliable E s req = do {
     ts \<leftarrow> now E;
     new_id \<leftarrow> reading (e_new_id E);
     saved \<leftarrow> store_Save E (new_message s new_id req ts)
       (if Enabled (sv_queueCapacity s) then sv_queueCapacity s else no_capacity);
     case saved of
       Inl err \<Rightarrow> ret (Inl (wrap_store_err err))
     | Inr res \<Rightarrow> (case sr_Outcome res of
         SaveOutcomeExisting \<Rightarrow> ret (Inr (pushResponseFromStoredMessage (sr_Message res) SubmissionStateExisting))
       | SaveOutcomeConflict \<Rightarrow> ret (Inl (DlErrMessageIDConflict (ms_MessageID (sr_Message res))))
       | SaveOutcomeCreated \<Rightarrow> first_attempt E s (sr_Message res)) }"

definition Push :: "env \<Rightarrow> service \<Rightarrow> push_request \<Rightarrow> (dl_err + push_response) act" where
  "Push E s req = (case validatePushRequest req of
     Some err \<Rightarrow> ret (Inl err)
   | None \<Rightarrow> do {
       st \<leftarrow> gets w_store;
       if st \<noteq> None then pushReliable E s req else deliverOnline E s req })"

section \<open>Operator actions and acknowledgements\<close>

definition terminalTransition :: "service \<Rightarrow> world \<Rightarrow> string \<Rightarrow> time \<Rightarrow> bool \<Rightarrow> terminal_transition" where
  "terminalTransition s w reason ts attempted =
     \<lparr>tt_Reason = reason, tt_GatewayNode = sv_terminalGatewayNode s, tt_At = ts, tt_Attempted = attempted,
      tt_Publish = HasTerminalPublisher s w\<rparr>"

definition read_back :: "env \<Rightarrow> service \<Rightarrow> string \<Rightarrow> (dl_err + message) act" where
  "read_back E s messageID = do {
     r \<leftarrow> store_Get E messageID;
     case r of Inl err \<Rightarrow> ret (Inl (DlErrStore err))
     | Inr None \<Rightarrow> ret (Inl DlErrMessageNotFound)
     | Inr (Some m) \<Rightarrow> ret (Inr (attachResolvedPolicy s m)) }"

definition ServiceRequeue :: "env \<Rightarrow> service \<Rightarrow> string \<Rightarrow> (dl_err + message) act" where
  "ServiceRequeue E s messageID = do {
     st \<leftarrow> gets w_store;
     if st = None then ret (Inl DlErrStoreNotConfigured)
     else if messageID = '''' then ret (Inl DlErrMissingMessageID)
     else do {
       r \<leftarrow> store_Get E messageID;
       case r of Inl err \<Rightarrow> ret (Inl (DlErrStore err))
       | Inr None \<Rightarrow> ret (Inl DlErrMessageNotFound)
       | Inr (Some m) \<Rightarrow>
           if ms_Status m = MessageStatusDelivered \<or> ms_Status m = MessageStatusDiscarded
           then ret (Inl DlErrInvalidTransition)
           else do {
             requeuedAt \<leftarrow> now E;
             e \<leftarrow> store_Requeue E messageID requeuedAt
               (if Enabled (sv_queueCapacity s) then sv_queueCapacity s else no_capacity);
             case e of Some err \<Rightarrow> ret (Inl (wrap_store_err err))
             | None \<Rightarrow> read_back E s messageID } } }"

text \<open>The message comes along with the error: \<open>zero_message\<close> where the code returns \<^verbatim>\<open>Message{}\<close>.\<close>

definition RequeueFailed :: "env \<Rightarrow> service \<Rightarrow> string \<Rightarrow> (message \<times> dl_err option) act" where
  "RequeueFailed E s messageID = do {
     r \<leftarrow> MessageStatus E s messageID;
     case r of Inl err \<Rightarrow> ret (zero_message, Some err)
     | Inr None \<Rightarrow> ret (zero_message, Some DlErrMessageNotFound)
     | Inr (Some m) \<Rightarrow>
         if ms_Status m \<noteq> MessageStatusFailed then ret (m, Some DlErrInvalidTransition)
         else do {
           q \<leftarrow> ServiceRequeue E s messageID;
           case q of Inl err \<Rightarrow> ret (m, Some err) | Inr requeued \<Rightarrow> ret (requeued, None) } }"

definition ServiceDiscard :: "env \<Rightarrow> service \<Rightarrow> string \<Rightarrow> string \<Rightarrow> (dl_err + message) act" where
  "ServiceDiscard E s messageID reason = do {
     w \<leftarrow> gets id;
     if w_store w = None then ret (Inl DlErrStoreNotConfigured)
     else if messageID = '''' then ret (Inl DlErrMissingMessageID)
     else do {
       r \<leftarrow> store_Get E messageID;
       case r of Inl err \<Rightarrow> ret (Inl (DlErrStore err))
       | Inr None \<Rightarrow> ret (Inl DlErrMessageNotFound)
       | Inr (Some m) \<Rightarrow>
           if ms_Status m = MessageStatusDelivered then ret (Inl DlErrInvalidTransition)
           else do {
             ts \<leftarrow> now E;
             e \<leftarrow> store_Discard E messageID reason (terminalTransition s w TerminalReasonOperatorDiscard ts False);
             case e of Some err \<Rightarrow> ret (Inl (DlErrStore err))
             | None \<Rightarrow> read_back E s messageID } } }"

definition Ack :: "env \<Rightarrow> service \<Rightarrow> string \<Rightarrow> string \<Rightarrow> delivery_ack \<Rightarrow> (dl_err + message) act" where
  "Ack E s clientID deviceID req = do {
     st \<leftarrow> gets w_store;
     if st = None then ret (Inl DlErrStoreNotConfigured)
     else if clientID = '''' then ret (Inl DlErrMissingClientID)
     else if deviceID = '''' then ret (Inl DlErrMissingDeviceID)
     else if da_MessageID req = '''' then ret (Inl DlErrMissingMessageID)
     else if da_Code req \<noteq> DeliveryAckDelivered then ret (Inl DlErrInvalidAckCode)
     else do {
       r \<leftarrow> store_Get E (da_MessageID req);
       case r of Inl err \<Rightarrow> ret (Inl (DlErrStore err))
       | Inr None \<Rightarrow> ret (Inl DlErrMessageNotFound)
       | Inr (Some m) \<Rightarrow>
           if ms_ClientID m \<noteq> clientID \<or> ms_DeviceID m \<noteq> deviceID then ret (Inl DlErrMessageNotFound)
           else do {
             deliveredAt \<leftarrow> now E;
             e \<leftarrow> store_MarkDelivered E (da_MessageID req) clientID deviceID deliveredAt;
             case e of Some err \<Rightarrow> ret (Inl (DlErrStore err))
             | None \<Rightarrow> ret (Inr (attachResolvedPolicy s ((clear_claim m)\<lparr>ms_Status := MessageStatusDelivered,
                 ms_LastError := '''', ms_NextRetryAt := zero_time, ms_DeliveredAt := deliveredAt,
                 ms_UpdatedAt := deliveredAt\<rparr>))) } } }"
section \<open>Retries\<close>

record retry_result =
  rt_Scanned :: nat
  rt_Sent :: nat
  rt_Queued :: nat
  rt_Failed :: nat
  rt_SelectionMode :: "selection_mode option"
  rt_SelectedDevices :: nat
  rt_MaxPerDevice :: nat

definition zero_retry_result :: retry_result where
  "zero_retry_result = \<lparr>rt_Scanned = 0, rt_Sent = 0, rt_Queued = 0, rt_Failed = 0, rt_SelectionMode = None,
     rt_SelectedDevices = 0, rt_MaxPerDevice = 0\<rparr>"

definition listRetryMessages :: "env \<Rightarrow> service \<Rightarrow> time \<Rightarrow> int \<Rightarrow> (store_err + retry_selection) act" where
  "listRetryMessages E s ts limit =
    (if rf_Enabled (sv_retryFairness s) then
       let candidateLimit = CandidateLimit (sv_retryFairness s) limit (qc_MaxPendingPerDevice (sv_queueCapacity s)) in
       if sv_retryClaimOwner s \<noteq> ''''
       then store_ClaimDueRetryFair E ts (sv_ackTimeout s) limit candidateLimit (sv_retryClaimOwner s)
              (sv_retryClaimLease s)
       else store_ListDueRetryFair E ts (sv_ackTimeout s) limit candidateLimit
     else do {
       r \<leftarrow> store_ListDueRetry E ts (sv_ackTimeout s) limit;
       ret (map_sum id (\<lambda>ms. retrySelectionFromMessages ms RetrySelectionModeFIFO) r) })"

text \<open>\<open>fail_message\<close>, \<open>retry_failed\<close> and \<open>retry_sent\<close> are the three ways an attempt ends.\<close>

definition fail_message :: "env \<Rightarrow> service \<Rightarrow> message \<Rightarrow> string \<Rightarrow> time \<Rightarrow> bool \<Rightarrow> (dl_err + message_status) act" where
  "fail_message E s m reason ts attempted = do {
     w \<leftarrow> gets id;
     e \<leftarrow> store_MarkFailed E (ms_MessageID m) (terminalTransition s w reason ts attempted);
     case e of Some err \<Rightarrow> ret (Inl (DlErrStore err)) | None \<Rightarrow> ret (Inr MessageStatusFailed) }"

definition retry_failed :: "env \<Rightarrow> service \<Rightarrow> message \<Rightarrow> delivery_policy \<Rightarrow> dl_err \<Rightarrow> (dl_err + message_status) act" where
  "retry_failed E s m policy err = do {
     failedAt \<leftarrow> now E;
     if policyMaxAgeExceeded m policy failedAt then fail_message E s m TerminalReasonMaxAge failedAt True
     else if dp_MaxAttempts policy \<le> ms_Attempts m + 1
     then fail_message E s m TerminalReasonMaxAttempts failedAt True
     else do {
       next \<leftarrow> next_retry E failedAt policy (ms_Attempts m);
       e \<leftarrow> store_MarkAttemptFailed E (ms_MessageID m) (Error err) next;
       case e of Some err' \<Rightarrow> ret (Inl (DlErrStore err')) | None \<Rightarrow> ret (Inr MessageStatusPending) } }"

definition retry_sent :: "env \<Rightarrow> message \<Rightarrow> delivery_policy \<Rightarrow> push_response \<Rightarrow> (dl_err + message_status) act" where
  "retry_sent E m policy sentResp = do {
     sentAt \<leftarrow> now E;
     e \<leftarrow> store_MarkSent E (ms_MessageID m) (pu_SessionID sentResp) sentAt (ackDeadline m policy sentAt);
     case e of Some err \<Rightarrow> ret (Inl (DlErrStore err)) | None \<Rightarrow> ret (Inr MessageStatusSent) }"

definition retryMessage :: "env \<Rightarrow> service \<Rightarrow> message \<Rightarrow> (dl_err + message_status) act" where
  "retryMessage E s m = (let policy = policyForMessage s m in do {
     ts \<leftarrow> now E;
     if policyMaxAgeExceeded m policy ts then fail_message E s m TerminalReasonMaxAge ts False
     else if dp_MaxAttempts policy \<le> ms_Attempts m then fail_message E s m TerminalReasonMaxAttempts ts False
     else if ms_Status m = MessageStatusSent \<and> \<not> ackTimedOut m policy ts then ret (Inr MessageStatusSent)
     else do {
       r \<leftarrow> deliverOnline E s (pushRequestFromMessage m);
       case r of Inl err \<Rightarrow> retry_failed E s m policy err | Inr sentResp \<Rightarrow> retry_sent E m policy sentResp } })"

definition count_status :: "message_status \<Rightarrow> retry_result \<Rightarrow> retry_result" where
  "count_status status res = (case status of
     MessageStatusSent \<Rightarrow> res\<lparr>rt_Sent := rt_Sent res + 1\<rparr>
   | MessageStatusFailed \<Rightarrow> res\<lparr>rt_Failed := rt_Failed res + 1\<rparr>
   | _ \<Rightarrow> res\<lparr>rt_Queued := rt_Queued res + 1\<rparr>)"

fun retry_loop :: "env \<Rightarrow> service \<Rightarrow> retry_result \<Rightarrow> message list \<Rightarrow> (retry_result \<times> dl_err option) act" where
  "retry_loop E s res [] = ret (res, None)"
| "retry_loop E s res (m # ms) = do {
     c \<leftarrow> ctx_Err E;
     case c of Some err \<Rightarrow> ret (res, Some (DlErrContext err))
     | None \<Rightarrow> do {
       r \<leftarrow> retryMessage E s m;
       case r of Inl err \<Rightarrow> ret (res\<lparr>rt_Scanned := rt_Scanned res + 1\<rparr>, Some err)
       | Inr status \<Rightarrow> retry_loop E s (count_status status (res\<lparr>rt_Scanned := rt_Scanned res + 1\<rparr>)) ms } }"

definition retryMessages :: "env \<Rightarrow> service \<Rightarrow> message list \<Rightarrow> (retry_result \<times> dl_err option) act" where
  "retryMessages E s ms = retry_loop E s zero_retry_result ms"

definition RetryDue :: "env \<Rightarrow> service \<Rightarrow> int \<Rightarrow> (retry_result \<times> dl_err option) act" where
  "RetryDue E s limit = do {
     st \<leftarrow> gets w_store;
     if st = None then ret (zero_retry_result, None)
     else do {
       ts \<leftarrow> now E;
       r \<leftarrow> listRetryMessages E s ts limit;
       case r of Inl err \<Rightarrow> ret (zero_retry_result, Some (DlErrStore err))
       | Inr selection \<Rightarrow> do {
           (res, err) \<leftarrow> retryMessages E s (rs_Messages selection);
           ret (res\<lparr>rt_SelectionMode := Some (rs_Mode selection), rt_SelectedDevices := rs_DeviceCount selection,
                 rt_MaxPerDevice := rs_MaxPerDevice selection\<rparr>, err) } } }"

definition FlushClientDevice :: "env \<Rightarrow> service \<Rightarrow> string \<Rightarrow> string \<Rightarrow> int \<Rightarrow> (retry_result \<times> dl_err option) act" where
  "FlushClientDevice E s clientID deviceID limit = do {
     st \<leftarrow> gets w_store;
     if st = None then ret (zero_retry_result, None)
     else if clientID = '''' then ret (zero_retry_result, Some DlErrMissingClientID)
     else if deviceID = '''' then ret (zero_retry_result, Some DlErrMissingDeviceID)
     else do {
       r \<leftarrow> store_ListPendingByClientDevice E clientID deviceID limit;
       case r of Inl err \<Rightarrow> ret (zero_retry_result, Some (DlErrStore err))
       | Inr ms \<Rightarrow> retryMessages E s ms } }"

section \<open>Terminal events and cleanup\<close>

record terminal_publish_result =
  tp_Scanned :: nat
  tp_Published :: nat
  tp_Failed :: nat

definition terminalRetryDelayForAttempt :: "(float64 \<Rightarrow> float64 \<Rightarrow> float64) \<Rightarrow> service \<Rightarrow> int \<Rightarrow> duration option" where
  "terminalRetryDelayForAttempt pow s attempts =
     backoff pow (sv_terminalRetryDelay s) (sv_terminalBackoffMultiplier s) (sv_terminalMaxRetryDelay s) attempts"

definition next_publish :: "env \<Rightarrow> service \<Rightarrow> time \<Rightarrow> int \<Rightarrow> time act" where
  "next_publish E s ts attempts = do {
     jitter \<leftarrow> reading (e_jitter E);
     ret (case terminalRetryDelayForAttempt (e_pow E) s attempts of
       Some d \<Rightarrow> ts + wrap_int64 (d + nextRetryJitter jitter (sv_terminalRetryJitter s)) | None \<Rightarrow> zero_time) }"

text \<open>One event: the publisher is asked, and the store told what it answered.\<close>

definition publish_one :: "env \<Rightarrow> service \<Rightarrow> terminal_record \<Rightarrow> (dl_err + bool) act" where
  "publish_one E s rec = do {
     r \<leftarrow> reading (\<lambda>n. e_publish E n (tr_Event rec));
     case r of
       Some err \<Rightarrow> do {
         failedAt \<leftarrow> now E;
         next \<leftarrow> next_publish E s failedAt (tr_PublishAttempts rec);
         e \<leftarrow> store_MarkTerminalPublishFailed E (te_MessageID (tr_Event rec)) (te_TerminalStatus (tr_Event rec)) err next;
         ret (case e of Some err' \<Rightarrow> Inl (DlErrStore err') | None \<Rightarrow> Inr False) }
     | None \<Rightarrow> do {
         _ \<leftarrow> emit_published (tr_Event rec);
         ts \<leftarrow> now E;
         e \<leftarrow> store_MarkTerminalPublished E (te_MessageID (tr_Event rec)) (te_TerminalStatus (tr_Event rec)) ts;
         ret (case e of Some err' \<Rightarrow> Inl (DlErrStore err') | None \<Rightarrow> Inr True) } }"

fun publish_loop :: "env \<Rightarrow> service \<Rightarrow> terminal_publish_result \<Rightarrow> terminal_record list
     \<Rightarrow> (terminal_publish_result \<times> dl_err option) act" where
  "publish_loop E s res [] = ret (res, None)"
| "publish_loop E s res (rec # recs) = do {
     c \<leftarrow> ctx_Err E;
     case c of Some err \<Rightarrow> ret (res, Some (DlErrContext err))
     | None \<Rightarrow> do {
       r \<leftarrow> publish_one E s rec;
       case r of Inl err \<Rightarrow> ret (res, Some err)
       | Inr True \<Rightarrow> publish_loop E s (res\<lparr>tp_Published := tp_Published res + 1\<rparr>) recs
       | Inr False \<Rightarrow> publish_loop E s (res\<lparr>tp_Failed := tp_Failed res + 1\<rparr>) recs } }"

definition PublishTerminalDue :: "env \<Rightarrow> service \<Rightarrow> int \<Rightarrow> (terminal_publish_result \<times> dl_err option) act" where
  "PublishTerminalDue E s limit = do {
     w \<leftarrow> gets id;
     if \<not> HasTerminalPublisher s w then ret (\<lparr>tp_Scanned = 0, tp_Published = 0, tp_Failed = 0\<rparr>, None)
     else do {
       ts \<leftarrow> now E;
       r \<leftarrow> store_ClaimDueTerminal E ts (if limit \<le> 0 then 100 else limit)
         (if sv_terminalClaimOwner s = '''' then sv_terminalGatewayNode s else sv_terminalClaimOwner s)
         (sv_terminalClaimLease s);
       case r of Inl err \<Rightarrow> ret (\<lparr>tp_Scanned = 0, tp_Published = 0, tp_Failed = 0\<rparr>, Some (DlErrStore err))
       | Inr recs \<Rightarrow> publish_loop E s \<lparr>tp_Scanned = length recs, tp_Published = 0, tp_Failed = 0\<rparr> recs } }"

record retention_policy =
  rp_DeliveredTTL :: duration
  rp_FailedTTL :: duration
  rp_DiscardedTTL :: duration
  rp_Limit :: int

record cleanup_result =
  cl_Delivered :: nat
  cl_Failed :: nat
  cl_Discarded :: nat

definition Total :: "cleanup_result \<Rightarrow> nat" where
  "Total r = cl_Delivered r + cl_Failed r + cl_Discarded r"

definition assign_count :: "message_status \<Rightarrow> nat \<Rightarrow> cleanup_result \<Rightarrow> cleanup_result" where
  "assign_count status n res = (case status of
     MessageStatusDelivered \<Rightarrow> res\<lparr>cl_Delivered := n\<rparr>
   | MessageStatusFailed \<Rightarrow> res\<lparr>cl_Failed := n\<rparr>
   | _ \<Rightarrow> res\<lparr>cl_Discarded := n\<rparr>)"

fun cleanup_loop :: "env \<Rightarrow> time \<Rightarrow> int \<Rightarrow> cleanup_result \<Rightarrow> (message_status \<times> duration) list
     \<Rightarrow> (cleanup_result \<times> dl_err option) act" where
  "cleanup_loop E ts limit res [] = ret (res, None)"
| "cleanup_loop E ts limit res ((status, ttl) # targets) =
    (if ttl \<le> 0 then cleanup_loop E ts limit res targets
     else do {
       r \<leftarrow> store_DeleteExpired E status (ts - ttl) limit;
       case r of Inl err \<Rightarrow> ret (res, Some (DlErrStore err))
       | Inr deleted \<Rightarrow> cleanup_loop E ts limit (assign_count status deleted res) targets })"

definition CleanupExpired :: "env \<Rightarrow> retention_policy \<Rightarrow> (cleanup_result \<times> dl_err option) act" where
  "CleanupExpired E policy = do {
     st \<leftarrow> gets w_store;
     if st = None then ret (\<lparr>cl_Delivered = 0, cl_Failed = 0, cl_Discarded = 0\<rparr>, None)
     else do {
       ts \<leftarrow> now E;
       cleanup_loop E ts (if rp_Limit policy \<le> 0 then 1000 else rp_Limit policy)
         \<lparr>cl_Delivered = 0, cl_Failed = 0, cl_Discarded = 0\<rparr>
         [(MessageStatusDelivered, rp_DeliveredTTL policy), (MessageStatusFailed, rp_FailedTTL policy),
          (MessageStatusDiscarded, rp_DiscardedTTL policy)] } }"

end
