(* ===== verification/Downlink_Logic.thy ===== *)
theory Downlink_Logic
  imports Downlink_Service Store_Theorems
begin

text \<open>
  Reasoning about the operations of the downlink service: relations between the world before and after
  that every step respects, as a locale, and the relation that says that the store moves only by its own
  operations.
\<close>

section \<open>Relations that actions respect\<close>

lemma run_reading [simp]: "run_state (reading f) w = (f (w_tick w), w\<lparr>w_tick := Suc (w_tick w)\<rparr>)"
  by (simp add: reading_def)

lemma run_gets [simp]: "run_state (gets f) w = (f w, w)"
  by (simp add: gets_def)

lemma run_emit [simp]:
  "run_state (emit_sent x) w = ((), w\<lparr>w_sent := x # w_sent w\<rparr>)"
  "run_state (emit_published e) w = ((), w\<lparr>w_published := e # w_published w\<rparr>)"
  by (simp_all add: emit_sent_def emit_published_def)

lemma run_on_store:
  "run_state (on_store f nil) w = (case w_store w of None \<Rightarrow> (nil, w)
     | Some st \<Rightarrow> (fst (f st), w\<lparr>w_store := Some (snd (f st))\<rparr>))"
  by (simp add: on_store_def case_prod_beta split: option.split)

lemma run_on_registry:
  "run_state (on_registry f nil) w = (case w_registry w of None \<Rightarrow> (nil, w)
     | Some r \<Rightarrow> (fst (f r), w\<lparr>w_registry := Some (snd (f r))\<rparr>))"
  by (simp add: on_registry_def case_prod_beta split: option.split)

locale world_rel =
  fixes R :: "world \<Rightarrow> world \<Rightarrow> bool"
  assumes refl: "R w w"
    and trans: "R u v \<Longrightarrow> R v w \<Longrightarrow> R u w"
    and tick: "R w (w\<lparr>w_tick := n\<rparr>)"
begin

definition resp :: "'a act \<Rightarrow> bool" where
  "resp m \<longleftrightarrow> (\<forall>w. R w (snd (run_state m w)))"

lemma resp_ret [intro!]: "resp (ret x)"
  by (simp add: resp_def refl)

lemma resp_gets [intro!]: "resp (gets f)"
  by (simp add: resp_def refl)

lemma resp_reading [intro!]: "resp (reading f)"
  by (simp add: resp_def tick)

lemma resp_bind [intro!]: "resp m \<Longrightarrow> (\<And>a. resp (f a)) \<Longrightarrow> resp (State_Monad.bind m f)"
  by (auto simp: resp_def case_prod_beta intro: trans)

lemma resp_if [intro!]: "(b \<Longrightarrow> resp m) \<Longrightarrow> (\<not> b \<Longrightarrow> resp m') \<Longrightarrow> resp (if b then m else m')"
  by simp

lemma resp_option [intro!]:
  "(x = None \<Longrightarrow> resp m) \<Longrightarrow> (\<And>a. x = Some a \<Longrightarrow> resp (f a)) \<Longrightarrow> resp (case x of None \<Rightarrow> m | Some a \<Rightarrow> f a)"
  by (cases x) simp_all

lemma resp_sum [intro!]:
  "(\<And>a. x = Inl a \<Longrightarrow> resp (f a)) \<Longrightarrow> (\<And>b. x = Inr b \<Longrightarrow> resp (g b)) \<Longrightarrow> resp (case x of Inl a \<Rightarrow> f a | Inr b \<Rightarrow> g b)"
  by (cases x) simp_all

lemma resp_prod [intro!]: "(\<And>a b. x = (a, b) \<Longrightarrow> resp (f a b)) \<Longrightarrow> resp (case x of (a, b) \<Rightarrow> f a b)"
  by (cases x) simp

lemma resp_bool [intro!]: "(x \<Longrightarrow> resp m) \<Longrightarrow> (\<not> x \<Longrightarrow> resp m') \<Longrightarrow> resp (case x of True \<Rightarrow> m | False \<Rightarrow> m')"
  by (cases x) simp_all

lemma resp_now [intro!]: "resp (now E)"
  by (auto simp: now_def)

lemma resp_ctx [intro!]: "resp (ctx_Err E)"
  by (auto simp: ctx_Err_def)

lemma resp_next_retry [intro!]: "resp (next_retry E ts p n)" "resp (next_publish E s ts n)"
  by (auto simp: next_retry_def next_publish_def)

end

section \<open>The store evolves by its own operations\<close>

definition evolves :: "(bytes \<Rightarrow> bytes) \<Rightarrow> (store_op \<Rightarrow> bool) \<Rightarrow> world \<Rightarrow> world \<Rightarrow> bool" where
  "evolves sha256 P w w' \<longleftrightarrow> w_sessions w' = w_sessions w
     \<and> (case w_store w of None \<Rightarrow> w_store w' = None
        | Some st \<Rightarrow> \<exists>ops. (\<forall>x\<in>set ops. P (snd x)) \<and> w_store w' = Some (store_run sha256 ops st))"

lemma store_run_append: "store_run sha256 (xs @ ys) s = store_run sha256 ys (store_run sha256 xs s)"
  by (simp add: store_run_def)

lemma evolves_refl: "evolves sha256 P w w"
  by (auto simp: evolves_def split: option.split intro!: exI[of _ "[]"])

lemma evolves_trans:
  assumes "evolves sha256 P u v" "evolves sha256 P v w"
  shows "evolves sha256 P u w"
proof (cases "w_store u")
  case None
  then show ?thesis using assms by (simp add: evolves_def)
next
  case (Some st)
  then obtain xs where xs: "\<forall>x\<in>set xs. P (snd x)" "w_store v = Some (store_run sha256 xs st)"
    using assms(1) by (auto simp: evolves_def)
  then obtain ys where ys: "\<forall>x\<in>set ys. P (snd x)" "w_store w = Some (store_run sha256 ys (store_run sha256 xs st))"
    using assms(2) by (auto simp: evolves_def)
  have "\<forall>x\<in>set (xs @ ys). P (snd x)" "w_store w = Some (store_run sha256 (xs @ ys) st)" "w_sessions w = w_sessions u"
    using xs ys assms by (auto simp: evolves_def store_run_append)
  then show ?thesis
    unfolding evolves_def Some option.case by blast
qed

interpretation evo: world_rel "evolves sha256 P" for sha256 P
proof (unfold_locales, goal_cases)
  case (2 u v w)
  then show ?case by (rule evolves_trans)
next
  case (3 w n)
  then show ?case by (auto simp: evolves_def split: option.split intro!: exI[of _ "[]"])
qed (rule evolves_refl)

lemma evo_on_store:
  assumes "\<And>st. \<exists>ops. (\<forall>x\<in>set ops. P (snd x)) \<and> snd (f st) = store_run sha256 ops st"
  shows "evo.resp sha256 P (on_store f nil)"
  unfolding evo.resp_def
proof
  fix w
  show "evolves sha256 P w (snd (run_state (on_store f nil) w))"
  proof (cases "w_store w")
    case (Some st)
    with assms[of st] show ?thesis by (auto simp: evolves_def run_on_store)
  qed (simp add: run_on_store evolves_refl)
qed

lemma evo_on_registry [intro!]: "evo.resp sha256 P (on_registry f nil)"
  unfolding evo.resp_def
  by (auto simp: run_on_registry evolves_def split: option.split intro!: exI[of _ "[]"])

lemma evo_emit [intro!]: "evo.resp sha256 P (emit_sent x)" "evo.resp sha256 P (emit_published e)"
  by (auto simp: evo.resp_def evolves_def split: option.split intro!: exI[of _ "[]"])

lemma evo_read [intro!]: "evo.resp sha256 P (on_store (\<lambda>st. (g st, st)) nil)"
  by (rule evo_on_store) (auto intro!: exI[of _ "[]"])

lemma evo_step:
  "P oper \<Longrightarrow> (\<And>st. snd (f st) = store_step sha256 ctx oper st) \<Longrightarrow> evo.resp sha256 P (on_store f nil)"
  by (rule evo_on_store) (auto intro!: exI[of _ "[(ctx, oper)]"])

lemma evo_reads [intro!]:
  "evo.resp sha256 P (store_Get E k)" "evo.resp sha256 P (store_ListByStatusPage E q)"
  "evo.resp sha256 P (store_ListDueRetry E ts a l)" "evo.resp sha256 P (store_ListDueRetryFair E ts a l cl)"
  "evo.resp sha256 P (store_ListPendingByClientDevice E c d l)"
  by (auto simp: store_Get_def store_ListByStatusPage_def store_ListDueRetry_def store_ListDueRetryFair_def
      store_ListPendingByClientDevice_def)

lemma evo_Save: "(\<And>i t. P (OpSave i t m cap)) \<Longrightarrow> evo.resp (e_sha256 E) P (store_Save E m cap)"
  by (auto simp: store_Save_def intro!: evo_step[where oper = "OpSave i t m cap" for i t])

lemma evo_MarkSent: "(\<And>t t'. P (OpSent t t' k sid ts next)) \<Longrightarrow> evo.resp sha256 P (store_MarkSent E k sid ts next)"
  by (auto simp: store_MarkSent_def intro!: evo_step[where oper = "OpSent t t' k sid ts next" for t t'])

lemma evo_MarkDelivered: "(\<And>t. P (OpDelivered t k c d ts)) \<Longrightarrow> evo.resp sha256 P (store_MarkDelivered E k c d ts)"
  by (auto simp: store_MarkDelivered_def intro!: evo_step[where oper = "OpDelivered t k c d ts" for t])

lemma evo_MarkAttemptFailed:
  "(\<And>t. P (OpAttemptFailed t k reason next)) \<Longrightarrow> evo.resp sha256 P (store_MarkAttemptFailed E k reason next)"
  by (auto simp: store_MarkAttemptFailed_def intro!: evo_step[where oper = "OpAttemptFailed t k reason next" for t])

lemma evo_MarkFailed: "(\<And>t. P (OpFailed t k tr)) \<Longrightarrow> evo.resp sha256 P (store_MarkFailed E k tr)"
  by (auto simp: store_MarkFailed_def intro!: evo_step[where oper = "OpFailed t k tr" for t])

lemma evo_Requeue: "(\<And>t. P (OpRequeue t k ts cap)) \<Longrightarrow> evo.resp sha256 P (store_Requeue E k ts cap)"
  by (auto simp: store_Requeue_def intro!: evo_step[where oper = "OpRequeue t k ts cap" for t])

lemma evo_Discard: "(\<And>t. P (OpDiscard t k reason tr)) \<Longrightarrow> evo.resp sha256 P (store_Discard E k reason tr)"
  by (auto simp: store_Discard_def intro!: evo_step[where oper = "OpDiscard t k reason tr" for t])

lemma evo_Claim:
  "(\<And>t. P (OpClaim t ts a l cl owner lease)) \<Longrightarrow> evo.resp sha256 P (store_ClaimDueRetryFair E ts a l cl owner lease)"
  by (auto simp: store_ClaimDueRetryFair_def intro!: evo_step[where oper = "OpClaim t ts a l cl owner lease" for t])

lemma evo_ClaimTerminal:
  "(\<And>t. P (OpClaimTerminal t ts l owner lease)) \<Longrightarrow> evo.resp sha256 P (store_ClaimDueTerminal E ts l owner lease)"
  by (auto simp: store_ClaimDueTerminal_def intro!: evo_step[where oper = "OpClaimTerminal t ts l owner lease" for t])

lemma evo_Published:
  "(\<And>t. P (OpPublished t k st ts)) \<Longrightarrow> evo.resp sha256 P (store_MarkTerminalPublished E k st ts)"
  by (auto simp: store_MarkTerminalPublished_def intro!: evo_step[where oper = "OpPublished t k st ts" for t])

lemma evo_PublishFailed:
  "P (OpPublishFailed k st reason ts) \<Longrightarrow> evo.resp sha256 P (store_MarkTerminalPublishFailed E k st reason ts)"
  by (auto simp: store_MarkTerminalPublishFailed_def intro!: evo_step[where oper = "OpPublishFailed k st reason ts"])

lemma evo_Delete: "P (OpDelete st cutoff l) \<Longrightarrow> evo.resp sha256 P (store_DeleteExpired E st cutoff l)"
  by (auto simp: store_DeleteExpired_def intro!: evo_step[where oper = "OpDelete st cutoff l"])

lemmas evo_writes = evo_Save evo_MarkSent evo_MarkDelivered evo_MarkAttemptFailed evo_MarkFailed evo_Requeue
  evo_Discard evo_Claim evo_ClaimTerminal evo_Published evo_PublishFailed evo_Delete
section \<open>The service as a transition system\<close>

datatype service_op =
    SPush push_request
  | SPushPeer peer_push_request string
  | SMessageStatus string
  | SListMessagesPage list_query
  | SRequeue string
  | SRequeueFailed string
  | SDiscard string string
  | SAck string string delivery_ack
  | SRetryDue int
  | SFlush string string int
  | SPublishTerminalDue int
  | SCleanup retention_policy

fun service_step :: "env \<Rightarrow> service \<Rightarrow> service_op \<Rightarrow> world \<Rightarrow> world" where
  "service_step E s (SPush req) w = snd (run_state (Push E s req) w)"
| "service_step E s (SPushPeer req node) w = snd (run_state (PushPeer E s req node) w)"
| "service_step E s (SMessageStatus k) w = snd (run_state (MessageStatus E s k) w)"
| "service_step E s (SListMessagesPage q) w = snd (run_state (ListMessagesPage E s q) w)"
| "service_step E s (SRequeue k) w = snd (run_state (ServiceRequeue E s k) w)"
| "service_step E s (SRequeueFailed k) w = snd (run_state (RequeueFailed E s k) w)"
| "service_step E s (SDiscard k reason) w = snd (run_state (ServiceDiscard E s k reason) w)"
| "service_step E s (SAck c d req) w = snd (run_state (Ack E s c d req) w)"
| "service_step E s (SRetryDue limit) w = snd (run_state (RetryDue E s limit) w)"
| "service_step E s (SFlush c d limit) w = snd (run_state (FlushClientDevice E s c d limit) w)"
| "service_step E s (SPublishTerminalDue limit) w = snd (run_state (PublishTerminalDue E s limit) w)"
| "service_step E s (SCleanup policy) w = snd (run_state (CleanupExpired E policy) w)"

lemma evo_pushOnline [intro!]: "evo.resp sha256 P (pushOnlineWithSession E s req sid)"
  by (auto simp: pushOnlineWithSession_def)

lemma evo_deliverOnline [intro!]: "evo.resp sha256 P (deliverOnline E s req)"
  by (auto simp: deliverOnline_def pushOnline_def pushCluster_def registry_Lookup_def registry_Unbind_def push_to_peer_def)

lemma evo_PushPeer [intro!]: "evo.resp sha256 P (PushPeer E s req node)"
  by (auto simp: PushPeer_def)

lemma evo_inspect [intro!]: "evo.resp sha256 P (MessageStatus E s k)" "evo.resp sha256 P (ListMessagesPage E s q)"
    "evo.resp sha256 P (read_back E s k)"
  by (auto simp: MessageStatus_def ListMessagesPage_def read_back_def)

lemma evo_Push:
  assumes "\<And>x. automatic x \<Longrightarrow> P x"
  shows "evo.resp (e_sha256 E) P (Push E s req)"
  by (auto simp: Push_def pushReliable_def first_attempt_def split: save_outcome.split intro!: evo_writes assms)

lemma evo_ServiceRequeue:
  assumes "\<And>t ts cap. P (OpRequeue t k ts cap)"
  shows "evo.resp sha256 P (ServiceRequeue E s k)" "evo.resp sha256 P (RequeueFailed E s k)"
  by (auto simp: ServiceRequeue_def RequeueFailed_def intro!: evo_writes assms)

lemma evo_ServiceDiscard: "(\<And>t tr. P (OpDiscard t k reason tr)) \<Longrightarrow> evo.resp sha256 P (ServiceDiscard E s k reason)"
  by (auto simp: ServiceDiscard_def intro!: evo_writes)

lemma evo_Ack: "(\<And>t ts. P (OpDelivered t (da_MessageID req) c d ts)) \<Longrightarrow> evo.resp sha256 P (Ack E s c d req)"
  by (auto simp: Ack_def intro!: evo_writes)

lemma evo_retryMessage:
  assumes "\<And>x. automatic x \<Longrightarrow> P x"
  shows "evo.resp sha256 P (retryMessage E s m)"
  by (auto simp: retryMessage_def Let_def fail_message_def retry_failed_def retry_sent_def intro!: evo_writes assms)

lemma evo_retry_loop:
  assumes "\<And>x. automatic x \<Longrightarrow> P x"
  shows "evo.resp sha256 P (retry_loop E s res ms)"
  by (induction ms arbitrary: res) (auto intro!: evo_retryMessage assms)

lemma evo_RetryDue:
  assumes "\<And>x. automatic x \<Longrightarrow> P x"
  shows "evo.resp sha256 P (RetryDue E s limit)" "evo.resp sha256 P (FlushClientDevice E s c d limit)"
  by (auto simp: RetryDue_def FlushClientDevice_def retryMessages_def listRetryMessages_def Let_def
      intro!: evo_retry_loop evo_writes assms)

lemma evo_publish_loop:
  assumes "\<And>x. automatic x \<Longrightarrow> P x"
  shows "evo.resp sha256 P (publish_loop E s res recs)"
  by (induction recs arbitrary: res) (auto simp: publish_one_def intro!: evo_writes assms)

lemma evo_PublishTerminalDue:
  assumes "\<And>x. automatic x \<Longrightarrow> P x"
  shows "evo.resp sha256 P (PublishTerminalDue E s limit)"
  by (auto simp: PublishTerminalDue_def intro!: evo_publish_loop evo_writes assms)

lemma evo_cleanup_loop:
  assumes "\<And>st cutoff l. st \<in> fst ` set targets \<Longrightarrow> P (OpDelete st cutoff l)"
  shows "evo.resp sha256 P (cleanup_loop E ts limit res targets)"
  using assms by (induction E ts limit res targets rule: cleanup_loop.induct) (auto intro!: evo_writes)

lemma evo_CleanupExpired:
  assumes "\<And>st cutoff l. st \<in> {MessageStatusDelivered, MessageStatusFailed, MessageStatusDiscarded} \<Longrightarrow> P (OpDelete st cutoff l)"
  shows "evo.resp sha256 P (CleanupExpired E policy)"
  by (auto simp: CleanupExpired_def intro!: evo_cleanup_loop assms)

text \<open>The store operations a service operation may lead to.\<close>

fun allowed :: "service_op \<Rightarrow> store_op \<Rightarrow> bool" where
  "allowed (SRequeue k) (OpRequeue _ k' _ _) \<longleftrightarrow> k' = k"
| "allowed (SRequeueFailed k) (OpRequeue _ k' _ _) \<longleftrightarrow> k' = k"
| "allowed (SDiscard k _) (OpDiscard _ k' _ _) \<longleftrightarrow> k' = k"
| "allowed (SAck c d req) (OpDelivered _ k c' d' _) \<longleftrightarrow> k = da_MessageID req \<and> c' = c \<and> d' = d"
| "allowed (SCleanup _) (OpDelete st _ _) \<longleftrightarrow>
     st = MessageStatusDelivered \<or> st = MessageStatusFailed \<or> st = MessageStatusDiscarded"
| "allowed _ x \<longleftrightarrow> automatic x"

lemma evoD: "evo.resp sha256 P m \<Longrightarrow> evolves sha256 P w (snd (run_state m w))"
  by (simp add: evo.resp_def)

lemma automatic_allowed: "automatic x \<Longrightarrow> allowed oper x"
  by (cases oper; cases x) auto

lemma service_step_evolves: "evolves (e_sha256 E) (allowed oper) w (service_step E s oper w)"
proof (cases oper)
  case (SPush req)
  show ?thesis unfolding SPush service_step.simps by (rule evoD) (rule evo_Push[OF automatic_allowed])
next
  case (SPushPeer req node)
  show ?thesis unfolding SPushPeer service_step.simps by (rule evoD) (rule evo_PushPeer)
next
  case (SMessageStatus k)
  show ?thesis unfolding SMessageStatus service_step.simps by (rule evoD) (rule evo_inspect)
next
  case (SListMessagesPage q)
  show ?thesis unfolding SListMessagesPage service_step.simps by (rule evoD) (rule evo_inspect)
next
  case (SRequeue k)
  show ?thesis unfolding SRequeue service_step.simps by (rule evoD) (rule evo_ServiceRequeue, simp)
next
  case (SRequeueFailed k)
  show ?thesis unfolding SRequeueFailed service_step.simps by (rule evoD) (rule evo_ServiceRequeue, simp)
next
  case (SDiscard k reason)
  show ?thesis unfolding SDiscard service_step.simps by (rule evoD) (rule evo_ServiceDiscard, simp)
next
  case (SAck c d req)
  show ?thesis unfolding SAck service_step.simps by (rule evoD) (rule evo_Ack, simp)
next
  case (SRetryDue limit)
  show ?thesis unfolding SRetryDue service_step.simps by (rule evoD) (rule evo_RetryDue[OF automatic_allowed])
next
  case (SFlush c d limit)
  show ?thesis unfolding SFlush service_step.simps by (rule evoD) (rule evo_RetryDue[OF automatic_allowed])
next
  case (SPublishTerminalDue limit)
  show ?thesis unfolding SPublishTerminalDue service_step.simps
    by (rule evoD) (rule evo_PublishTerminalDue[OF automatic_allowed])
next
  case (SCleanup policy)
  show ?thesis unfolding SCleanup service_step.simps by (rule evoD) (rule evo_CleanupExpired, auto)
qed

end
