(* ===== verification/Downlink_Theorems.thy ===== *)
theory Downlink_Theorems
  imports Downlink_Logic
begin

text \<open>
  Properties of the downlink service: it refines the message store, never loses a message that is still to
  be delivered, sends a replayed push only once, and puts on a device's connection nothing but the
  packets addressed to that device.
\<close>

section \<open>Reachable worlds\<close>

text \<open>
  A world starts with an empty store, or none.  Between operations of the service the rest of the gateway
  binds and unbinds sessions and routes, and time passes.
\<close>

inductive service_reachable :: "env \<Rightarrow> service \<Rightarrow> world \<Rightarrow> bool" for E s where
  world_start: "w_store w = Some NewMemoryStore \<or> w_store w = None \<Longrightarrow> manager_reachable (w_sessions w) \<Longrightarrow>
    w_published w = [] \<Longrightarrow> service_reachable E s w"
| world_step: "service_reachable E s w \<Longrightarrow> service_reachable E s (service_step E s oper w)"
| world_other: "service_reachable E s w \<Longrightarrow> manager_reachable sessions \<Longrightarrow>
    service_reachable E s (w\<lparr>w_sessions := sessions, w_registry := registry, w_tick := n\<rparr>)"

lemma evolves_Some:
  assumes "evolves sha256 P w w'" "w_store w = Some st"
  obtains ops where "\<forall>x\<in>set ops. P (snd x)" "w_store w' = Some (store_run sha256 ops st)"
  using assms by (auto simp: evolves_def)

lemma service_store_reachable:
  assumes "service_reachable E s w"
  shows "w_store w = Some st \<Longrightarrow> store_reachable (e_sha256 E) st"
  using assms
proof (induction arbitrary: st rule: service_reachable.induct)
  case (world_start w)
  then show ?case by (auto intro: reach_new_store)
next
  case (world_step w oper)
  show ?case
  proof (cases "w_store w")
    case None
    then show ?thesis
      using service_step_evolves[of E oper w s] world_step.prems by (simp add: evolves_def)
  next
    case (Some st0)
    obtain ops where "w_store (service_step E s oper w) = Some (store_run (e_sha256 E) ops st0)"
      by (rule evolves_Some[OF service_step_evolves Some])
    then show ?thesis
      using world_step.IH[OF Some] world_step.prems store_run_reachable by auto
  qed
qed simp

lemma service_sessions:
  assumes "service_reachable E s w"
  shows "session_inv (w_sessions w)"
  using assms
proof induction
  case (world_step w oper)
  then show ?case using service_step_evolves[of E oper w s] by (simp add: evolves_def)
qed (simp_all add: reachable_inv)

definition service_run :: "env \<Rightarrow> service \<Rightarrow> service_op list \<Rightarrow> world \<Rightarrow> world" where
  "service_run E s ops w = fold (service_step E s) ops w"

fun cleans :: "service_op \<Rightarrow> bool" where
  "cleans (SCleanup _) = True"
| "cleans _ = False"

lemma allowed_deletes: "allowed oper x \<Longrightarrow> \<not> cleans oper \<Longrightarrow> \<not> deletes x"
  by (cases oper; cases x) auto

lemma service_run_store:
  assumes "w_store w = Some st" "\<forall>oper\<in>set ops. \<not> cleans oper"
  shows "\<exists>xs. (\<forall>x\<in>set xs. \<not> deletes (snd x)) \<and> w_store (service_run E s ops w) = Some (store_run (e_sha256 E) xs st)"
  using assms
proof (induction ops arbitrary: w st)
  case Nil
  then show ?case by (auto simp: service_run_def intro!: exI[of _ "[]"])
next
  case (Cons oper ops)
  obtain xs where xs: "\<forall>x\<in>set xs. allowed oper (snd x)" "w_store (service_step E s oper w) = Some (store_run (e_sha256 E) xs st)"
    by (rule evolves_Some[OF service_step_evolves Cons.prems(1)])
  obtain ys where ys: "\<forall>x\<in>set ys. \<not> deletes (snd x)"
      "w_store (service_run E s ops (service_step E s oper w)) = Some (store_run (e_sha256 E) ys (store_run (e_sha256 E) xs st))"
    using Cons.IH[OF xs(2)] Cons.prems(2) by auto
  have "\<forall>x\<in>set (xs @ ys). \<not> deletes (snd x)"
    using xs(1) ys(1) allowed_deletes[of oper] Cons.prems(2) by auto
  moreover have "w_store (service_run E s (oper # ops) w) = Some (store_run (e_sha256 E) (xs @ ys) st)"
    using ys(2) by (simp add: service_run_def store_run_append)
  ultimately show ?case by blast
qed

section \<open>The service refines the store\<close>


text \<open>A sample environment, service and world.\<close>

definition sample_env :: env where
  "sample_env = \<lparr>e_now = (\<lambda>n. 100 + int n), e_visit = (\<lambda>n m. 100), e_ctx = (\<lambda>n. None), e_new_id = (\<lambda>n. ''zm_1''),
     e_jitter = (\<lambda>n d. 0), e_conn = (\<lambda>n c. None), e_send = (\<lambda>n c. None),
     e_peer = (\<lambda>n e r. Inl \<lparr>pe_HTTP = None, pe_NetTimeout = True, pe_DeadlineExceeded = False,
        pe_SessionNotFound = False, pe_SessionMismatch = False, pe_Text = ''timeout''\<rparr>),
     e_publish = (\<lambda>n e. None), e_pow = (\<lambda>x y. Fin 1), e_sha256 = sample_sha\<rparr>"

definition sample_service :: service where "sample_service = NewService []"

definition sample_request :: push_request where
  "sample_request = \<lparr>rq_ClientID = ''c'', rq_DeviceID = ''d'', rq_MsgID = 7, rq_MessageID = ''m1'', rq_TraceID = '''',
     rq_AckRequired = True, rq_Body = [1, 2]\<rparr>"

definition sample_world :: world where
  "sample_world = \<lparr>w_store = Some NewMemoryStore, w_sessions = NewManager, w_registry = None, w_sent = [],
     w_published = [], w_tick = 0\<rparr>"

lemma sample_fields [simp]:
  "e_now sample_env n = 100 + int n" "e_ctx sample_env n = None" "e_new_id sample_env n = ''zm_1''"
  "e_sha256 sample_env = sample_sha" "e_publish sample_env n e = None"
  "w_tick sample_world = 0" "w_store sample_world = Some NewMemoryStore" "w_sessions sample_world = NewManager"
  "w_registry sample_world = None" "w_sent sample_world = []"
  "Enabled (sv_queueCapacity sample_service) = False" "rq_MessageID sample_request = ''m1''"
  "validatePushRequest sample_request = None"
  by (simp_all add: sample_env_def sample_world_def sample_service_def NewService_def Enabled_def no_capacity_def
      sample_request_def validatePushRequest_def)

lemma sample_world_reachable: "service_reachable sample_env sample_service sample_world"
  by (rule world_start) (simp_all add: sample_world_def reach_new)

section \<open>Messages that are still to be delivered\<close>

definition open_status :: "message_status \<Rightarrow> bool" where
  "open_status st \<longleftrightarrow> st = MessageStatusPending \<or> st = MessageStatusSent"

lemma DeleteExpired_keeps:
  assumes "store_inv sha256 s" "map_of (mem_messages s) k = Some m" "ms_Status m \<noteq> st"
  shows "map_of (mem_messages (snd (DeleteExpired ctx s st cutoff limit))) k = Some m"
proof -
  obtain ms where ms: "snd (DeleteExpired ctx s st cutoff limit) = fold delete_message ms s"
    using DeleteExpired_cases[of ctx s st cutoff limit] by (metis prod.collapse)
  have "map_of (mem_messages (snd (DeleteExpired ctx s st cutoff limit))) k \<noteq> None"
    using DeleteExpired_deleted[OF assms(1,2), of ctx st cutoff limit] assms(3) by (auto simp: expired_def)
  then show ?thesis
    using assms(2) unfolding ms fold_delete_messages by (simp split: if_splits)
qed

lemma delete_run_keeps:
  assumes len: "\<And>b. length (sha256 b) = 32"
  shows "store_inv sha256 s \<Longrightarrow> map_of (mem_messages s) k = Some m \<Longrightarrow>
    (\<forall>x\<in>set ops. \<exists>st cutoff limit. snd x = OpDelete st cutoff limit \<and> ms_Status m \<noteq> st) \<Longrightarrow>
    map_of (mem_messages (store_run sha256 ops s)) k = Some m"
proof (induction ops arbitrary: s)
  case (Cons x ops)
  then obtain st cutoff limit where x: "snd x = OpDelete st cutoff limit" "ms_Status m \<noteq> st" by auto
  have "map_of (mem_messages (store_step sha256 (fst x) (snd x) s)) k = Some m"
    using DeleteExpired_keeps[OF Cons.prems(1,2) x(2)] x(1) by simp
  then show ?case
    using Cons.IH[OF store_step_inv[OF len Cons.prems(1)]] Cons.prems(3) by simp
qed simp

text \<open>The cleanup leads to deletions only; it changes nothing but what it deletes.\<close>

definition is_cleanup_delete :: "store_op \<Rightarrow> bool" where
  "is_cleanup_delete x \<longleftrightarrow> (\<exists>st cutoff limit. x = OpDelete st cutoff limit
     \<and> (st = MessageStatusDelivered \<or> st = MessageStatusFailed \<or> st = MessageStatusDiscarded))"

lemma cleanup_deletes:
  assumes "w_store w = Some st"
  obtains ops where "\<forall>x\<in>set ops. is_cleanup_delete (snd x)"
    "w_store (service_step E s (SCleanup policy) w) = Some (store_run sha256 ops st)"
proof -
  have "evo.resp sha256 is_cleanup_delete (CleanupExpired E policy)"
    by (rule evo_CleanupExpired) (auto simp: is_cleanup_delete_def)
  then have "evolves sha256 is_cleanup_delete w (service_step E s (SCleanup policy) w)"
    using evoD by simp
  then show thesis
    by (rule evolves_Some[OF _ assms]) (rule that)
qed

text \<open>
  C17. No message is lost while it is still to be delivered.  Once a message is stored, any sequence of
  operations of the service keeps it: other operations keep it with its identity, payload and policy,
  and the cleanup leaves a pending or sent message exactly as it is.
\<close>

theorem open_messages_kept:
  assumes len: "\<And>b. length (e_sha256 E b) = 32" and reach: "service_reachable E s w"
    and "w_store w = Some st" "Get None st k = Inr (Some m)"
  shows "(if cleans oper
          then open_status (ms_Status m) \<longrightarrow>
            (\<exists>st'. w_store (service_step E s oper w) = Some st' \<and> Get None st' k = Inr (Some m))
          else \<exists>st' m'. w_store (service_step E s oper w) = Some st' \<and> Get None st' k = Inr (Some m') \<and> core m' = core m)"
proof -
  have inv: "store_inv (e_sha256 E) st"
    by (rule store_reachable_inv[OF len service_store_reachable[OF reach assms(3)]])
  have m: "map_of (mem_messages st) k = Some m" using assms(4) by (simp add: Get_def)
  show ?thesis
  proof (cases "cleans oper")
    case True
    then obtain policy where c: "oper = SCleanup policy" by (cases oper) auto
    have "\<exists>st'. w_store (service_step E s oper w) = Some st' \<and> Get None st' k = Inr (Some m)" if o: "open_status (ms_Status m)"
    proof -
      obtain ops where ops: "\<forall>x\<in>set ops. is_cleanup_delete (snd x)"
          "w_store (service_step E s (SCleanup policy) w) = Some (store_run (e_sha256 E) ops st)"
        by (rule cleanup_deletes[OF assms(3)])
      have "\<forall>x\<in>set ops. \<exists>st cutoff limit. snd x = OpDelete st cutoff limit \<and> ms_Status m \<noteq> st"
        using ops(1) o by (force simp: is_cleanup_delete_def open_status_def)
      from delete_run_keeps[OF len inv m this] ops(2) show ?thesis
        by (simp add: c Get_def)
    qed
    then show ?thesis using True by simp
  next
    case False
    obtain ops where ops: "\<forall>x\<in>set ops. allowed oper (snd x)"
        "w_store (service_step E s oper w) = Some (store_run (e_sha256 E) ops st)"
      by (rule evolves_Some[OF service_step_evolves assms(3)])
    then have "\<forall>x\<in>set ops. \<not> deletes (snd x)"
      using allowed_deletes[OF _ False] by blast
    from core_over_run[OF len inv m this] ops(2) False show ?thesis
      by (auto simp: Get_def)
  qed
qed

lemma sample_env_sha: "length (e_sha256 sample_env b) = 32"
  by (simp add: sample_env_def sample_sha_length)

section \<open>Accepted pushes\<close>

lemma run_now [simp]: "run_state (now E) w = (e_now E (w_tick w), w\<lparr>w_tick := Suc (w_tick w)\<rparr>)"
  by (simp add: now_def)

lemma run_ctx [simp]: "run_state (ctx_Err E) w = (e_ctx E (w_tick w), w\<lparr>w_tick := Suc (w_tick w)\<rparr>)"
  by (simp add: ctx_Err_def)

lemma run_store_Save:
  assumes "w_store w = Some st"
    and "x = SaveWithCapacity (e_sha256 E) (e_new_id E (w_tick w + 2)) (e_now E (w_tick w + 1)) (e_ctx E (w_tick w)) st m cap"
  shows "run_state (store_Save E m cap) w = (fst x, w\<lparr>w_tick := w_tick w + 3, w_store := Some (snd x)\<rparr>)"
  using assms(1) by (simp add: store_Save_def run_on_store assms(2) numeral_3_eq_3)

text \<open>What an action answers, whatever the world.\<close>

definition gives :: "('a \<Rightarrow> bool) \<Rightarrow> 'a act \<Rightarrow> bool" where
  "gives Q m \<longleftrightarrow> (\<forall>w. Q (fst (run_state m w)))"

lemma gives_rules [intro!]:
  "Q x \<Longrightarrow> gives Q (ret x)"
  "(\<And>a. gives Q (f a)) \<Longrightarrow> gives Q (State_Monad.bind n f)"
  "(b \<Longrightarrow> gives Q m) \<Longrightarrow> (\<not> b \<Longrightarrow> gives Q m') \<Longrightarrow> gives Q (if b then m else m')"
  "(y = None \<Longrightarrow> gives Q m) \<Longrightarrow> (\<And>a. y = Some a \<Longrightarrow> gives Q (g a)) \<Longrightarrow> gives Q (case y of None \<Rightarrow> m | Some a \<Rightarrow> g a)"
  "(\<And>a. z = Inl a \<Longrightarrow> gives Q (h a)) \<Longrightarrow> (\<And>c. z = Inr c \<Longrightarrow> gives Q (i c)) \<Longrightarrow> gives Q (case z of Inl a \<Rightarrow> h a | Inr c \<Rightarrow> i c)"
  "(\<And>a c. p = (a, c) \<Longrightarrow> gives Q (j a c)) \<Longrightarrow> gives Q (case p of (a, c) \<Rightarrow> j a c)"
  "(b \<Longrightarrow> gives Q m) \<Longrightarrow> (\<not> b \<Longrightarrow> gives Q m') \<Longrightarrow> gives Q (case b of True \<Rightarrow> m | False \<Rightarrow> m')"
  by (auto simp: gives_def case_prod_beta split: option.split sum.split bool.split)

lemma givesD: "gives Q m \<Longrightarrow> run_state m w = (a, w') \<Longrightarrow> Q a"
  by (metis fst_conv gives_def)

lemma gives_bind: "gives R m \<Longrightarrow> (\<And>a. R a \<Longrightarrow> gives Q (f a)) \<Longrightarrow> gives Q (State_Monad.bind m f)"
  by (simp add: gives_def case_prod_beta)

definition answers_message :: "string \<Rightarrow> dl_err + push_response \<Rightarrow> bool" where
  "answers_message k r \<longleftrightarrow> (case r of Inl _ \<Rightarrow> True | Inr resp \<Rightarrow> pu_MessageID resp = k)"

lemma pushOnline_message: "gives (answers_message (rq_MessageID req)) (pushOnlineWithSession E s req sid)"
  by (auto simp: pushOnlineWithSession_def answers_message_def)

lemma pushCluster_message: "gives (answers_message (rq_MessageID req)) (pushCluster E s req)"
  by (auto simp: pushCluster_def push_to_peer_def answers_message_def)

lemma deliverOnline_message: "gives (answers_message (rq_MessageID req)) (deliverOnline E s req)"
  unfolding deliverOnline_def pushOnline_def
  by (rule gives_bind[OF pushOnline_message])
    (auto simp: answers_message_def[of _ "Inl _"] intro!: pushCluster_message split: sum.split)

lemma first_attempt_message: "gives (answers_message (ms_MessageID m)) (first_attempt E s m)"
  unfolding first_attempt_def
  by (rule gives_bind[OF deliverOnline_message])
    (auto simp: answers_message_def pushRequestFromMessage_def annotatePushResponseFailure_def case_prod_beta split: sum.split)

lemma pushReliable_run:
  assumes "w_store w = Some st"
  obtains i t c j ts w1 where "w_store w1 = Some (snd (SaveWithCapacity (e_sha256 E) i t c st (new_message s j req ts)
        (if Enabled (sv_queueCapacity s) then sv_queueCapacity s else no_capacity)))"
    "w_sent w1 = w_sent w" "w_registry w1 = w_registry w" "w_sessions w1 = w_sessions w" "w_published w1 = w_published w"
    "run_state (pushReliable E s req) w =
      (case fst (SaveWithCapacity (e_sha256 E) i t c st (new_message s j req ts)
        (if Enabled (sv_queueCapacity s) then sv_queueCapacity s else no_capacity)) of
         Inl err \<Rightarrow> (Inl (wrap_store_err err), w1)
       | Inr res \<Rightarrow> (case sr_Outcome res of
           SaveOutcomeExisting \<Rightarrow> (Inr (pushResponseFromStoredMessage (sr_Message res) SubmissionStateExisting), w1)
         | SaveOutcomeConflict \<Rightarrow> (Inl (DlErrMessageIDConflict (ms_MessageID (sr_Message res))), w1)
         | SaveOutcomeCreated \<Rightarrow> run_state (first_attempt E s (sr_Message res)) w1))"
proof -
  let ?w0 = "w\<lparr>w_tick := Suc (Suc (w_tick w))\<rparr>"
  let ?m = "new_message s (e_new_id E (Suc (w_tick w))) req (e_now E (w_tick w))"
  let ?cap = "if Enabled (sv_queueCapacity s) then sv_queueCapacity s else no_capacity"
  define x where "x = SaveWithCapacity (e_sha256 E) (e_new_id E (w_tick ?w0 + 2)) (e_now E (w_tick ?w0 + 1)) (e_ctx E (w_tick ?w0)) st ?m ?cap"
  define w1 where "w1 = ?w0\<lparr>w_tick := w_tick ?w0 + 3, w_store := Some (snd x)\<rparr>"
  have save: "run_state (store_Save E ?m ?cap) ?w0 = (fst x, w1)"
    unfolding w1_def by (rule run_store_Save) (simp_all add: assms x_def)
  have run: "run_state (pushReliable E s req) w = (case fst x of
         Inl err \<Rightarrow> (Inl (wrap_store_err err), w1)
       | Inr res \<Rightarrow> (case sr_Outcome res of
           SaveOutcomeExisting \<Rightarrow> (Inr (pushResponseFromStoredMessage (sr_Message res) SubmissionStateExisting), w1)
         | SaveOutcomeConflict \<Rightarrow> (Inl (DlErrMessageIDConflict (ms_MessageID (sr_Message res))), w1)
         | SaveOutcomeCreated \<Rightarrow> run_state (first_attempt E s (sr_Message res)) w1))"
    by (simp add: pushReliable_def save split: sum.split save_outcome.split)
  show thesis
    by (rule that[OF _ _ _ _ _ run[unfolded x_def]]) (simp_all add: w1_def x_def)
qed

lemma new_message_fields [simp]:
  "ms_MessageID (new_message s j req ts) = (if rq_MessageID req = '''' then j else rq_MessageID req)"
  "message_identity (new_message s j req ts)
     = (rq_ClientID req, rq_DeviceID req, rq_MsgID req, rq_AckRequired req, rq_Body req)"
  "ms_Attempts (new_message s j req ts) = 0" "ms_Status (new_message s j req ts) = MessageStatusPending"
  by (simp_all add: new_message_def messageFromPushRequest_def message_identity_def Let_def)

lemma fingerprint_of_identity:
  "message_identity l = message_identity r \<Longrightarrow> messageIdentityFingerprint sha256 l = messageIdentityFingerprint sha256 r"
  by (simp add: message_identity_def messageIdentityFingerprint_def identity_preimage_def)

lemma complete_identity [simp]: "message_identity (complete_message sha256 i t m) = message_identity m"
  by (simp add: message_identity_def complete_message_def Let_def)

lemma Save_result:
  assumes inv: "store_inv sha256 st" and len: "\<And>b. length (sha256 b) = 32"
    and save: "SaveWithCapacity sha256 i t None st m cap = (Inr res, st1)"
  shows "map_of (mem_messages st1) (ms_MessageID (sr_Message res)) = Some (sr_Message res)"
    "sr_Outcome res \<noteq> SaveOutcomeConflict \<Longrightarrow>
       messageIdentityFingerprint sha256 (sr_Message res) = messageIdentityFingerprint sha256 m"
    "ms_MessageID m \<noteq> '''' \<Longrightarrow> ms_MessageID (sr_Message res) = ms_MessageID m"
    "sr_Outcome res = SaveOutcomeCreated \<Longrightarrow> sr_Message res = complete_message sha256 i t m"
proof -
  let ?n = "complete_message sha256 i t m"
  have "map_of (mem_messages st1) (ms_MessageID (sr_Message res)) = Some (sr_Message res)
    \<and> (sr_Outcome res \<noteq> SaveOutcomeConflict \<longrightarrow> messageIdentityFingerprint sha256 (sr_Message res) = messageIdentityFingerprint sha256 m)
    \<and> ms_MessageID (sr_Message res) = ms_MessageID ?n
    \<and> (sr_Outcome res = SaveOutcomeCreated \<longrightarrow> sr_Message res = ?n)"
  proof (rule Save_cases[OF inv len save], goal_cases)
    case existing: (1 old)
    then show ?case using store_invD(3)[OF inv existing(1)] by auto
  next
    case created: 2
    then show ?case by simp
  next
    case rejected: (3 e)
    then show ?case by simp
  qed
  then show "map_of (mem_messages st1) (ms_MessageID (sr_Message res)) = Some (sr_Message res)"
    "sr_Outcome res \<noteq> SaveOutcomeConflict \<Longrightarrow>
       messageIdentityFingerprint sha256 (sr_Message res) = messageIdentityFingerprint sha256 m"
    "ms_MessageID m \<noteq> '''' \<Longrightarrow> ms_MessageID (sr_Message res) = ms_MessageID m"
    "sr_Outcome res = SaveOutcomeCreated \<Longrightarrow> sr_Message res = complete_message sha256 i t m"
    using complete_id[of m sha256 i t] by (blast, blast, metis, blast)
qed

lemma evo_first_attempt:
  assumes "\<And>x. automatic x \<Longrightarrow> P x"
  shows "evo.resp sha256 P (first_attempt E s m)"
  by (auto simp: first_attempt_def intro!: evo_writes assms)

lemma pushReliable_stored:
  assumes len: "\<And>b. length (e_sha256 E b) = 32" and inv: "store_inv (e_sha256 E) st" and w: "w_store w = Some st"
    and run: "run_state (pushReliable E s req) w = (Inr resp, w')"
  obtains st' m' where "w_store w' = Some st'" "map_of (mem_messages st') (pu_MessageID resp) = Some m'"
    "ms_IdentityFingerprint m' = messageIdentityFingerprint (e_sha256 E) (messageFromPushRequest '''' req 0)"
    "rq_MessageID req \<noteq> '''' \<Longrightarrow> pu_MessageID resp = rq_MessageID req"
proof -
  obtain i t c j ts w1 cap where w1: "w_store w1 = Some (snd (SaveWithCapacity (e_sha256 E) i t c st (new_message s j req ts) cap))"
    and r: "run_state (pushReliable E s req) w =
      (case fst (SaveWithCapacity (e_sha256 E) i t c st (new_message s j req ts) cap) of
         Inl err \<Rightarrow> (Inl (wrap_store_err err), w1)
       | Inr res \<Rightarrow> (case sr_Outcome res of
           SaveOutcomeExisting \<Rightarrow> (Inr (pushResponseFromStoredMessage (sr_Message res) SubmissionStateExisting), w1)
         | SaveOutcomeConflict \<Rightarrow> (Inl (DlErrMessageIDConflict (ms_MessageID (sr_Message res))), w1)
         | SaveOutcomeCreated \<Rightarrow> run_state (first_attempt E s (sr_Message res)) w1))"
    by (rule pushReliable_run[OF w]) blast
  let ?m = "new_message s j req ts"
  obtain x st1 where save: "SaveWithCapacity (e_sha256 E) i t c st ?m cap = (x, st1)" by fastforce
  have c: "c = None" and "\<exists>res. x = Inr res"
    using run r save by (cases c; auto simp: SaveWithCapacity_def split: sum.splits)+
  then obtain res where x: "x = Inr res" by blast
  have inv1: "store_inv (e_sha256 E) st1"
    using SaveWithCapacity_inv[OF inv len, of i t c ?m cap] save by simp
  note result = Save_result[OF inv len save[unfolded c x]]
  have fp: "messageIdentityFingerprint (e_sha256 E) ?m = messageIdentityFingerprint (e_sha256 E) (messageFromPushRequest '''' req 0)"
    by (rule fingerprint_of_identity, subst new_message_fields(2)) (simp add: messageFromPushRequest_def message_identity_def)
  have id: "rq_MessageID req \<noteq> '''' \<Longrightarrow> ms_MessageID (sr_Message res) = rq_MessageID req"
    using result(3) by simp
  show thesis
  proof (cases "sr_Outcome res")
    case SaveOutcomeExisting
    then have "w' = w1" "pu_MessageID resp = ms_MessageID (sr_Message res)"
      using run r save x by (auto simp: pushResponseFromStoredMessage_def)
    then show thesis
      using that[of st1 "sr_Message res"] w1 save result(1,2) store_invD(4)[OF inv1 result(1)] fp id SaveOutcomeExisting by simp
  next
    case SaveOutcomeConflict
    then show thesis using run r save x by simp
  next
    case SaveOutcomeCreated
    then have fa: "run_state (first_attempt E s (sr_Message res)) w1 = (Inr resp, w')"
      using run r save x by simp
    have k: "pu_MessageID resp = ms_MessageID (sr_Message res)"
      using givesD[OF first_attempt_message fa] by (simp add: answers_message_def)
    have w1': "w_store w1 = Some st1" using w1 save by simp
    have "evolves (e_sha256 E) (\<lambda>x. \<not> deletes x) w1 w'"
      using evoD[OF evo_first_attempt[of "\<lambda>x. \<not> deletes x" "e_sha256 E" E s "sr_Message res"], of w1] automatic_deletes fa by simp
    then obtain ops where ops: "\<forall>x\<in>set ops. \<not> deletes (snd x)" "w_store w' = Some (store_run (e_sha256 E) ops st1)"
      by (rule evolves_Some[OF _ w1'])
    obtain m' where m': "map_of (mem_messages (store_run (e_sha256 E) ops st1)) (ms_MessageID (sr_Message res)) = Some m'"
        "core m' = core (sr_Message res)"
      using core_over_run[OF len inv1 result(1) ops(1)] by blast
    show thesis
      using that[OF ops(2), of m'] m' k coreD(4)[OF m'(2)] store_invD(4)[OF inv1 result(1)] result(2) fp id SaveOutcomeCreated by simp
  qed
qed

text \<open>
  C16. An accepted push is durable.  When the service answers a push without an error, the message is in the
  store under the id the answer names, with the identity fingerprint of the request, and a request that
  brought its own id gets that id; this holds whether the message was sent at once, queued, or already
  known.
\<close>

theorem accepted_push_stored:
  assumes "\<And>b. length (e_sha256 E b) = 32" "service_reachable E s w" "w_store w = Some st"
    and "run_state (Push E s req) w = (Inr resp, w')"
  shows "\<exists>st' m'. w_store w' = Some st' \<and> Get None st' (pu_MessageID resp) = Inr (Some m')
    \<and> ms_IdentityFingerprint m' = messageIdentityFingerprint (e_sha256 E) (messageFromPushRequest '''' req 0)
    \<and> (rq_MessageID req = '''' \<or> pu_MessageID resp = rq_MessageID req)"
proof -
  have inv: "store_inv (e_sha256 E) st"
    by (rule store_reachable_inv[OF assms(1) service_store_reachable[OF assms(2,3)]])
  have "run_state (pushReliable E s req) w = (Inr resp, w')"
    using assms(3,4) by (auto simp: Push_def split: option.splits)
  then show ?thesis
    by (rule pushReliable_stored[OF assms(1) inv assms(3)]) (auto simp: Get_def)
qed

lemma Save_unlimited:
  assumes "n = complete_message sha256 i t m" "map_of (mem_messages st) (ms_MessageID n) = None"
  shows "SaveWithCapacity sha256 i t None st m no_capacity = (Inr \<lparr>sr_Message = n, sr_Outcome = SaveOutcomeCreated\<rparr>,
    st\<lparr>mem_messages := put (ms_MessageID n) n (mem_messages st)\<rparr>)"
  using assms by (simp add: SaveWithCapacity_def Let_def checkQueueCapacityLocked_def no_capacity_def Enabled_def)

lemma deliverOnline_offline:
  assumes "snd (GetByClientDevice (w_sessions w) (rq_ClientID req) (rq_DeviceID req)) = False" "w_registry w = None"
  shows "run_state (deliverOnline E s req) w = (Inl (newDeliveryFailure DeliveryFailureStageSession ''session_not_found''
    (no_route req) DlErrSessionNotFound), w)"
proof -
  obtain f where f: "GetByClientDevice (w_sessions w) (rq_ClientID req) (rq_DeviceID req) = (f, False)"
    using assms(1) by (metis prod.collapse)
  have "run_state (pushOnline E s req) w = (Inl DlErrSessionNotFound, w)"
    by (cases f) (simp_all add: pushOnline_def pushOnlineWithSession_def f)
  then show ?thesis
    using assms(2) by (simp add: deliverOnline_def pushCluster_def)
qed

lemma sample_push:
  obtains resp w' where "run_state (Push sample_env sample_service sample_request) sample_world = (Inr resp, w')"
    "pu_MessageID resp = ''m1''"
proof -
  define m where "m = complete_message sample_sha ''zm_1'' 103 (new_message sample_service ''zm_1'' sample_request 100)"
  have k: "ms_MessageID m = ''m1''" by (simp add: m_def sample_request_def)
  have dev: "rq_ClientID (pushRequestFromMessage m) = ms_ClientID m" "rq_DeviceID (pushRequestFromMessage m) = ms_DeviceID m"
    by (simp_all add: pushRequestFromMessage_def)
  have off: "snd (GetByClientDevice NewManager c d) = False" for c d
    by (simp add: GetByClientDevice_def NewManager_def)
  define w1 where "w1 = sample_world\<lparr>w_tick := 5, w_store := Some (NewMemoryStore\<lparr>mem_messages := [(''m1'', m)]\<rparr>)\<rparr>"
  have "run_state (store_Save sample_env (new_message sample_service ''zm_1'' sample_request 100) no_capacity)
      (sample_world\<lparr>w_tick := 2\<rparr>) = (Inr \<lparr>sr_Message = m, sr_Outcome = SaveOutcomeCreated\<rparr>, w1)"
    using Save_unlimited[OF m_def, of NewMemoryStore] k
    by (simp add: store_Save_def run_on_store NewMemoryStore_def w1_def)
  then have push: "run_state (Push sample_env sample_service sample_request) sample_world
      = run_state (first_attempt sample_env sample_service m) w1"
    by (simp add: Push_def pushReliable_def numeral_2_eq_2)
  have "run_state (deliverOnline sample_env sample_service (pushRequestFromMessage m)) w1 =
      (Inl (newDeliveryFailure DeliveryFailureStageSession ''session_not_found'' (no_route (pushRequestFromMessage m)) DlErrSessionNotFound), w1)"
    by (rule deliverOnline_offline) (simp_all add: w1_def off)
  moreover have "fst (MarkAttemptFailed t None (NewMemoryStore\<lparr>mem_messages := [(''m1'', m)]\<rparr>) ''m1'' reason nx) = None" for t reason nx
    by (simp add: MarkAttemptFailed_def)
  ultimately have "\<not> isl (fst (run_state (Push sample_env sample_service sample_request) sample_world))"
    by (simp add: push first_attempt_def store_MarkAttemptFailed_def run_on_store next_retry_def k) (simp add: w1_def)
  then obtain resp w' where p: "run_state (Push sample_env sample_service sample_request) sample_world = (Inr resp, w')"
    by (metis prod.collapse sum.collapse(2))
  have "pu_MessageID resp = ''m1''"
    using givesD[OF first_attempt_message p[unfolded push]] k by (simp add: answers_message_def)
  then show thesis using p that by blast
qed

theorem accepted_push_stored_witness:
  "\<exists>resp w' st' m'. run_state (Push sample_env sample_service sample_request) sample_world = (Inr resp, w')
     \<and> w_store w' = Some st' \<and> Get None st' ''m1'' = Inr (Some m')"
proof -
  obtain resp w' where p: "run_state (Push sample_env sample_service sample_request) sample_world = (Inr resp, w')"
      "pu_MessageID resp = ''m1''"
    by (rule sample_push)
  show ?thesis
    using accepted_push_stored[OF sample_env_sha sample_world_reachable sample_fields(7) p(1)] p by auto
qed

definition sample_full_world :: world where
  "sample_full_world = service_step sample_env sample_service (SPush sample_request) sample_world"

lemma sample_full_reachable: "service_reachable sample_env sample_service sample_full_world"
  unfolding sample_full_world_def by (intro world_step sample_world_reachable)

lemma sample_stored:
  obtains st m where "w_store sample_full_world = Some st" "Get None st ''m1'' = Inr (Some m)"
proof -
  obtain resp w' where p: "run_state (Push sample_env sample_service sample_request) sample_world = (Inr resp, w')"
      "pu_MessageID resp = ''m1''"
    by (rule sample_push)
  have r: "run_state (pushReliable sample_env sample_service sample_request) sample_world = (Inr resp, w')"
    using p(1) by (simp add: Push_def)
  have inv: "store_inv (e_sha256 sample_env) NewMemoryStore" by (rule store_inv_New)
  from pushReliable_stored[OF sample_env_sha inv sample_fields(7) r] show thesis
    using that p by (auto simp: sample_full_world_def Get_def)
qed

theorem open_messages_kept_witness:
  "\<exists>st m. w_store (service_step sample_env sample_service (SRetryDue 10) sample_full_world) = Some st
    \<and> Get None st ''m1'' = Inr (Some m)"
proof -
  obtain st m where m: "w_store sample_full_world = Some st" "Get None st ''m1'' = Inr (Some m)"
    by (rule sample_stored)
  show ?thesis
    using open_messages_kept[OF sample_env_sha sample_full_reachable m, of "SRetryDue 10"] by auto
qed

end
