(* ===== verification/Downlink_Delivery.thy ===== *)
theory Downlink_Delivery
  imports Downlink_Theorems
begin

text \<open>
  What the downlink service puts on the connections: every packet goes to the connection of the session of
  the device it is addressed to and carries a message submitted for that device; a repeated push sends
  nothing; the counters of a retry scan add up; an acknowledgement settles a message for good.
\<close>

section \<open>Packets go to the device they are addressed to\<close>

definition addressed ::
  "manager \<Rightarrow> (push_request \<Rightarrow> session \<Rightarrow> bool) \<Rightarrow> 64 word \<times> 32 word \<times> bytes \<Rightarrow> bool" where
  "addressed sessions P x \<longleftrightarrow> (\<exists>req ss ts packet. P req ss
     \<and> GetByClientDevice sessions (rq_ClientID req) (rq_DeviceID req) = (Some ss, True)
     \<and> Encode (Some (downlink_packet req ss ts)) = Inr (snd (snd x), packet)
     \<and> fst x = ss_ConnID ss \<and> fst (snd x) = pkt_MsgID packet)"

definition sends :: "(push_request \<Rightarrow> session \<Rightarrow> bool) \<Rightarrow> world \<Rightarrow> world \<Rightarrow> bool" where
  "sends P w w' \<longleftrightarrow> w_sessions w' = w_sessions w
     \<and> (\<exists>new. w_sent w' = new @ w_sent w \<and> (\<forall>x\<in>set new. addressed (w_sessions w) P x))"

lemma sends_silent: "w_sessions w' = w_sessions w \<Longrightarrow> w_sent w' = w_sent w \<Longrightarrow> sends P w w'"
  by (simp add: sends_def)

lemma sends_trans:
  assumes "sends P u v" "sends P v w"
  shows "sends P u w"
proof -
  obtain xs where xs: "w_sessions v = w_sessions u" "w_sent v = xs @ w_sent u" "\<forall>x\<in>set xs. addressed (w_sessions u) P x"
    using assms(1) unfolding sends_def by blast
  obtain ys where ys: "w_sessions w = w_sessions v" "w_sent w = ys @ w_sent v" "\<forall>x\<in>set ys. addressed (w_sessions v) P x"
    using assms(2) unfolding sends_def by blast
  have "w_sent w = (ys @ xs) @ w_sent u" "\<forall>x\<in>set (ys @ xs). addressed (w_sessions u) P x"
    using xs ys by auto
  then show ?thesis
    using xs(1) ys(1) unfolding sends_def by metis
qed

interpretation snd_rel: world_rel "sends P" for P
proof (unfold_locales, goal_cases)
  case (2 u v w)
  then show ?case by (rule sends_trans)
qed (simp_all add: sends_silent)

lemma snd_relD:
  assumes "snd_rel.resp P m" "run_state m w = (a, w')"
  shows "sends P w w'"
proof -
  have "sends P w (snd (run_state m w))" using assms(1) by (simp add: snd_rel.resp_def)
  then show ?thesis by (simp add: assms(2))
qed

lemma snd_store [intro!]: "snd_rel.resp P (on_store f nil)"
  by (auto simp: snd_rel.resp_def run_on_store intro!: sends_silent split: option.split)

lemma snd_registry [intro!]: "snd_rel.resp P (on_registry f nil)"
  by (auto simp: snd_rel.resp_def run_on_registry intro!: sends_silent split: option.split)

lemma snd_published [intro!]: "snd_rel.resp P (emit_published e)"
  by (auto simp: snd_rel.resp_def intro!: sends_silent)

lemma snd_reads [intro!]:
  "snd_rel.resp P (store_Get E k)" "snd_rel.resp P (store_ListByStatusPage E q)"
  "snd_rel.resp P (store_ListDueRetry E ts a l)" "snd_rel.resp P (store_ListDueRetryFair E ts a l cl)"
  "snd_rel.resp P (store_ListPendingByClientDevice E c d l)"
  by (auto simp: store_Get_def store_ListByStatusPage_def store_ListDueRetry_def store_ListDueRetryFair_def
      store_ListPendingByClientDevice_def)

lemma snd_writes [intro!]:
  "snd_rel.resp P (store_Save E m cap)" "snd_rel.resp P (store_MarkSent E k sid ts nx)"
  "snd_rel.resp P (store_MarkDelivered E k c d ts)" "snd_rel.resp P (store_MarkAttemptFailed E k reason nx)"
  "snd_rel.resp P (store_MarkFailed E k tr)" "snd_rel.resp P (store_Requeue E k ts cap)"
  "snd_rel.resp P (store_Discard E k reason tr)" "snd_rel.resp P (store_ClaimDueRetryFair E ts a l cl owner lease)"
  "snd_rel.resp P (store_ClaimDueTerminal E ts l owner lease)" "snd_rel.resp P (store_MarkTerminalPublished E k status ts)"
  "snd_rel.resp P (store_MarkTerminalPublishFailed E k status reason ts)" "snd_rel.resp P (store_DeleteExpired E status ts l)"
  by (auto simp: store_Save_def store_MarkSent_def store_MarkDelivered_def store_MarkAttemptFailed_def
      store_MarkFailed_def store_Requeue_def store_Discard_def store_ClaimDueRetryFair_def store_ClaimDueTerminal_def
      store_MarkTerminalPublished_def store_MarkTerminalPublishFailed_def store_DeleteExpired_def)

lemma sends_one:
  assumes "P req ss" "GetByClientDevice (w_sessions w) (rq_ClientID req) (rq_DeviceID req) = (Some ss, True)"
    and "Encode (Some (downlink_packet req ss ts)) = Inr (data, packet)"
  shows "sends P w (w\<lparr>w_tick := n, w_sent := (ss_ConnID ss, pkt_MsgID packet, data) # w_sent w\<rparr>)"
  unfolding sends_def addressed_def using assms by fastforce

lemma snd_pushOnline:
  assumes P: "\<And>ss. sid = '''' \<or> ss_SessionID ss = sid \<Longrightarrow> P req ss"
  shows "snd_rel.resp P (pushOnlineWithSession E s req sid)"
  unfolding snd_rel.resp_def
proof
  fix w
  show "sends P w (snd (run_state (pushOnlineWithSession E s req sid) w))"
  proof (cases "\<exists>ss. GetByClientDevice (w_sessions w) (rq_ClientID req) (rq_DeviceID req) = (Some ss, True)
      \<and> (sid = '''' \<or> ss_SessionID ss = sid) \<and> e_conn E (w_tick w) (ss_ConnID ss) = None")
    case False
    then show ?thesis
      by (auto simp: pushOnlineWithSession_def intro!: sends_silent split: prod.split option.split bool.split)
  next
    case True
    then obtain ss where ss: "GetByClientDevice (w_sessions w) (rq_ClientID req) (rq_DeviceID req) = (Some ss, True)"
        "sid = '''' \<or> ss_SessionID ss = sid" "e_conn E (w_tick w) (ss_ConnID ss) = None" by blast
    show ?thesis
    proof (cases "Encode (Some (downlink_packet req ss (e_now E (Suc (w_tick w)))))")
      case (Inl err)
      then show ?thesis using ss by (auto simp: pushOnlineWithSession_def intro!: sends_silent)
    next
      case (Inr x)
      obtain data packet where x: "x = (data, packet)" by fastforce
      note one = sends_one[of P, OF P[OF ss(2)] ss(1) Inr[unfolded x]]
      show ?thesis using ss Inr x one
        by (cases "e_send E (Suc (Suc (w_tick w))) (ss_ConnID ss)")
          (auto simp: pushOnlineWithSession_def snd_rel.tick)
    qed
  qed
qed

lemma snd_deliverOnline:
  assumes "\<And>ss. P req ss"
  shows "snd_rel.resp P (deliverOnline E s req)"
  using snd_pushOnline[of "''''" P req E s] assms
  by (auto simp: deliverOnline_def pushOnline_def pushCluster_def registry_Lookup_def registry_Unbind_def push_to_peer_def)

lemma snd_first_attempt:
  assumes "\<And>ss. P (pushRequestFromMessage m) ss"
  shows "snd_rel.resp P (first_attempt E s m)"
  by (auto simp: first_attempt_def intro!: snd_deliverOnline assms)

lemma snd_retryMessage:
  assumes "\<And>ss. P (pushRequestFromMessage m) ss"
  shows "snd_rel.resp P (retryMessage E s m)"
  by (auto simp: retryMessage_def Let_def fail_message_def retry_failed_def retry_sent_def
      intro!: snd_deliverOnline assms)

lemma snd_retry_loop:
  assumes "\<And>m ss. m \<in> set ms \<Longrightarrow> P (pushRequestFromMessage m) ss"
  shows "snd_rel.resp P (retry_loop E s res ms)"
  using assms by (induction ms arbitrary: res) (auto intro!: snd_retryMessage)

lemma snd_publish_loop: "snd_rel.resp P (publish_loop E s res recs)"
  by (induction recs arbitrary: res) (auto simp: publish_one_def)

lemma snd_cleanup_loop: "snd_rel.resp P (cleanup_loop E ts limit res targets)"
  by (induction E ts limit res targets rule: cleanup_loop.induct) auto

lemma snd_inspect [intro!]: "snd_rel.resp P (MessageStatus E s k)" "snd_rel.resp P (ListMessagesPage E s q)"
    "snd_rel.resp P (read_back E s k)"
  by (auto simp: MessageStatus_def ListMessagesPage_def read_back_def)

lemma snd_silent_ops:
  "snd_rel.resp P (ServiceRequeue E s k)" "snd_rel.resp P (RequeueFailed E s k)" "snd_rel.resp P (ServiceDiscard E s k reason)"
  "snd_rel.resp P (Ack E s c d ack)" "snd_rel.resp P (PublishTerminalDue E s limit)" "snd_rel.resp P (CleanupExpired E policy)"
proof -
  show requeue: "snd_rel.resp P (ServiceRequeue E s k)" by (auto simp: ServiceRequeue_def)
  show "snd_rel.resp P (RequeueFailed E s k)" by (auto simp: RequeueFailed_def intro!: requeue)
qed (auto simp: ServiceDiscard_def Ack_def PublishTerminalDue_def CleanupExpired_def
      intro!: snd_publish_loop snd_cleanup_loop)

text \<open>The messages a retry scan works on are stored messages, at most with a fresh claim on them.\<close>

definition snapshot :: "memory_store \<Rightarrow> message \<Rightarrow> bool" where
  "snapshot st m \<longleftrightarrow> open_status (ms_Status m) \<and> (\<exists>m0 owner until ts.
     map_of (mem_messages st) (ms_MessageID m) = Some m0 \<and> m = claim_message owner until ts m0)"

lemma claim_message_self: "claim_message (ms_ClaimOwner m) (ms_ClaimUntil m) (ms_UpdatedAt m) m = m"
  by (simp add: claim_message_def)

lemma snapshot_stored: "map_of (mem_messages st) (ms_MessageID m) = Some m \<Longrightarrow> open_status (ms_Status m) \<Longrightarrow> snapshot st m"
  unfolding snapshot_def using claim_message_self[of m] by metis

lemma snapshot_claimed:
  assumes "map_of (mem_messages st) k = Some m0" "ms_MessageID m0 = k" "open_status (ms_Status m0)"
  shows "snapshot st (claim_message owner until ts m0)"
  unfolding snapshot_def using assms by (auto simp: claim_message_def)

lemma in_vals_stored: "store_inv sha256 st \<Longrightarrow> m \<in> set (vals (mem_messages st)) \<Longrightarrow> map_of (mem_messages st) (ms_MessageID m) = Some m"
  using set_vals_iff[OF store_invD(1)] store_invD(3) by fastforce

lemma candidate_stored:
  "store_inv sha256 st \<Longrightarrow> m \<in> set (retryCandidatesLocked st ts a) \<Longrightarrow> map_of (mem_messages st) (ms_MessageID m) = Some m"
  "m \<in> set (retryCandidatesLocked st ts a) \<Longrightarrow> open_status (ms_Status m)"
  by (rule in_vals_stored) (auto simp: retryCandidatesLocked_def messageDueForRetry_def open_status_def split: message_status.splits)

lemma claim_snapshot:
  assumes inv: "store_inv sha256 st" and "set ms \<subseteq> set (retryCandidatesLocked st ts a)"
    and m: "m \<in> set (fst (claim_messages owner until t (mem_messages st) ms))"
  shows "snapshot st m"
proof -
  obtain m0 where m0: "m0 \<in> set ms" "m = claim_message owner until t (message_at (mem_messages st) (ms_MessageID m0))"
    using m unfolding claim_messages_result by auto
  have "map_of (mem_messages st) (ms_MessageID m0) = Some m0" "open_status (ms_Status m0)"
    using candidate_stored(1)[OF inv] candidate_stored(2) m0(1) assms(2) by blast+
  then show ?thesis
    using snapshot_claimed m0(2) by (simp add: message_at_def)
qed

lemma ListDueRetry_snapshot:
  assumes "store_inv sha256 st" "ListDueRetry clock c st ts a limit = Inr ms" "m \<in> set ms"
  shows "snapshot st m"
  using assms set_limitMessages candidate_stored(1)[OF assms(1)] candidate_stored(2)
  by (fastforce simp: ListDueRetry_def Let_def split: option.splits intro: snapshot_stored)

lemma ListDueRetryFair_snapshot:
  assumes "store_inv sha256 st" "ListDueRetryFair clock c st ts a limit cl = Inr sel" "m \<in> set (rs_Messages sel)"
  shows "snapshot st m"
  using assms set_limitMessages set_fairRetrySelection candidate_stored(1)[OF assms(1)] candidate_stored(2)
  by (fastforce simp: ListDueRetryFair_def Let_def case_prod_beta split: option.splits intro: snapshot_stored)

lemma ClaimDueRetryFair_snapshot:
  assumes "store_inv sha256 st" "fst (ClaimDueRetryFair clock c st ts a limit cl owner lease) = Inr sel" "m \<in> set (rs_Messages sel)"
  shows "snapshot st m"
proof -
  obtain limit' cl' where norm: "normalizeRetrySelectionLimits limit cl = (limit', cl')" by fastforce
  have sub: "set (rs_Messages (fairRetrySelection (limitMessages cs cl') limit')) \<subseteq> set cs" for cs
    using set_fairRetrySelection set_limitMessages by blast
  show ?thesis
  proof (cases "c = None \<and> owner \<noteq> ''''")
    case True
    then have "m \<in> set (fst (claim_messages owner ((if is_zero ts then clock else ts) + (if lease \<le> 0 then 30 * second else lease))
        (if is_zero ts then clock else ts) (mem_messages st)
        (rs_Messages (fairRetrySelection (limitMessages (retryCandidatesLocked st (if is_zero ts then clock else ts) a) cl') limit'))))"
      using assms(2,3) by (auto simp: ClaimDueRetryFair_def Let_def norm case_prod_beta)
    then show ?thesis by (rule claim_snapshot[OF assms(1) sub])
  next
    case False
    then have "ListDueRetryFair clock c st ts a limit cl = Inr sel"
      using assms(2) by (auto simp: ClaimDueRetryFair_def split: option.splits)
    then show ?thesis using ListDueRetryFair_snapshot assms(1,3) by blast
  qed
qed

lemma selection_messages [simp]: "rs_Messages (retrySelectionFromMessages ms mode) = ms"
  by (simp add: retrySelectionFromMessages_def case_prod_beta)

lemma listRetryMessages_snapshot:
  assumes "store_inv sha256 st" "w_store w = Some st" "run_state (listRetryMessages E s ts limit) w = (Inr sel, w')"
    and "m \<in> set (rs_Messages sel)"
  shows "snapshot st m"
proof (cases "rf_Enabled (sv_retryFairness s)")
  case False
  then obtain c t where "map_sum id (\<lambda>ms. retrySelectionFromMessages ms RetrySelectionModeFIFO)
      (ListDueRetry t c st ts (sv_ackTimeout s) limit) = Inr sel"
    using assms(2,3) by (auto simp: listRetryMessages_def store_ListDueRetry_def run_on_store)
  then obtain ms where "ListDueRetry t c st ts (sv_ackTimeout s) limit = Inr ms" "rs_Messages sel = ms"
    by (cases "ListDueRetry t c st ts (sv_ackTimeout s) limit") auto
  then show ?thesis using ListDueRetry_snapshot[OF assms(1)] assms(4) by blast
next
  case True
  let ?cl = "CandidateLimit (sv_retryFairness s) limit (qc_MaxPendingPerDevice (sv_queueCapacity s))"
  show ?thesis
  proof (cases "sv_retryClaimOwner s = ''''")
    case noowner: True
    then obtain c t where "ListDueRetryFair t c st ts (sv_ackTimeout s) limit ?cl = Inr sel"
      using True assms(2,3) by (auto simp: listRetryMessages_def store_ListDueRetryFair_def run_on_store Let_def)
    then show ?thesis using ListDueRetryFair_snapshot[OF assms(1)] assms(4) by blast
  next
    case False
    then obtain c t where "fst (ClaimDueRetryFair t c st ts (sv_ackTimeout s) limit ?cl (sv_retryClaimOwner s) (sv_retryClaimLease s)) = Inr sel"
      using True assms(2,3) by (auto simp: listRetryMessages_def store_ClaimDueRetryFair_def run_on_store Let_def)
    then show ?thesis using ClaimDueRetryFair_snapshot[OF assms(1)] assms(4) by blast
  qed
qed

lemma pending_snapshot:
  assumes "store_inv sha256 st" "w_store w = Some st"
    and "run_state (store_ListPendingByClientDevice E c d limit) w = (Inr ms, w')" "m \<in> set ms"
  shows "snapshot st m" "ms_ClientID m = c" "ms_DeviceID m = d" "ms_Status m = MessageStatusPending"
proof -
  have "m \<in> set (vals (mem_messages st)) \<and> ms_ClientID m = c \<and> ms_DeviceID m = d \<and> ms_Status m = MessageStatusPending"
    using assms(2-4) set_limitMessages
    by (fastforce simp: store_ListPendingByClientDevice_def run_on_store ListPendingByClientDevice_def split: option.splits)
  then show "snapshot st m" "ms_ClientID m = c" "ms_DeviceID m = d" "ms_Status m = MessageStatusPending"
    using in_vals_stored[OF assms(1)] snapshot_stored[of st m] by (auto simp: open_status_def)
qed

text \<open>
  The requests that an operation may put on a connection: its own request, or one made from a message
  stored for the device.
\<close>

definition same_request :: "push_request \<Rightarrow> push_request \<Rightarrow> bool" where
  "same_request req r \<longleftrightarrow> rq_ClientID r = rq_ClientID req \<and> rq_DeviceID r = rq_DeviceID req \<and> rq_MsgID r = rq_MsgID req
     \<and> rq_AckRequired r = rq_AckRequired req \<and> rq_Body r = rq_Body req
     \<and> (rq_MessageID req = '''' \<or> rq_MessageID r = rq_MessageID req)"

definition from_store :: "world \<Rightarrow> push_request \<Rightarrow> bool" where
  "from_store w r \<longleftrightarrow> (case w_store w of None \<Rightarrow> False | Some st \<Rightarrow>
     (case map_of (mem_messages st) (rq_MessageID r) of None \<Rightarrow> False | Some m \<Rightarrow> r = pushRequestFromMessage m \<and> open_status (ms_Status m)))"

definition fresh :: "world \<Rightarrow> push_request \<Rightarrow> bool" where
  "fresh w r \<longleftrightarrow> (case w_store w of None \<Rightarrow> True | Some st \<Rightarrow> map_of (mem_messages st) (rq_MessageID r) = None)"

fun sendable :: "service_op \<Rightarrow> world \<Rightarrow> push_request \<Rightarrow> session \<Rightarrow> bool" where
  "sendable (SPush req) w r ss \<longleftrightarrow> same_request req r \<and> fresh w r"
| "sendable (SPushPeer req node) w r ss \<longleftrightarrow> r = pushRequestFromPeerPushRequest req
     \<and> (pq_SessionID req = '''' \<or> ss_SessionID ss = pq_SessionID req)"
| "sendable (SRetryDue limit) w r ss \<longleftrightarrow> from_store w r"
| "sendable (SFlush c d limit) w r ss \<longleftrightarrow> from_store w r \<and> rq_ClientID r = c \<and> rq_DeviceID r = d"
| "sendable _ w r ss \<longleftrightarrow> False"

lemma snapshot_from_store:
  assumes "w_store w = Some st" "snapshot st m"
  shows "from_store w (pushRequestFromMessage m)"
proof -
  obtain m0 owner until ts where m: "map_of (mem_messages st) (ms_MessageID m) = Some m0" "m = claim_message owner until ts m0"
      "open_status (ms_Status m0)"
    using assms(2) unfolding snapshot_def by (auto simp: claim_message_def)
  then have "pushRequestFromMessage m = pushRequestFromMessage m0"
    by (simp add: pushRequestFromMessage_def claim_message_def)
  moreover have "rq_MessageID (pushRequestFromMessage m) = ms_MessageID m"
    by (simp add: pushRequestFromMessage_def)
  ultimately show ?thesis using assms(1) m(1,3) by (simp add: from_store_def)
qed

lemma sends_bind:
  assumes "snd_rel.resp P m" "\<And>a w'. run_state m w = (a, w') \<Longrightarrow> sends P w' (snd (run_state (f a) w'))"
  shows "sends P w (snd (run_state (State_Monad.bind m f) w))"
proof -
  obtain a w' where r: "run_state m w = (a, w')" by fastforce
  have "sends P w w'" by (rule snd_relD[OF assms(1) r])
  then show ?thesis using assms(2)[OF r] r by (auto intro: sends_trans)
qed

lemma same_request_created:
  "same_request req (pushRequestFromMessage (complete_message sha256 i t (new_message s j req ts)))"
proof -
  have "message_identity (complete_message sha256 i t (new_message s j req ts))
      = (rq_ClientID req, rq_DeviceID req, rq_MsgID req, rq_AckRequired req, rq_Body req)"
    by simp
  moreover have "rq_MessageID req = '''' \<or> ms_MessageID (complete_message sha256 i t (new_message s j req ts)) = rq_MessageID req"
    using complete_id[of "new_message s j req ts" sha256 i t] by (cases "rq_MessageID req = ''''") simp_all
  ultimately show ?thesis
    by (auto simp: same_request_def pushRequestFromMessage_def message_identity_def)
qed

lemma Save_created_fresh:
  assumes "store_inv sha256 st" "\<And>b. length (sha256 b) = 32" "SaveWithCapacity sha256 i t None st m cap = (Inr res, st1)"
    and "sr_Outcome res = SaveOutcomeCreated"
  shows "map_of (mem_messages st) (ms_MessageID (sr_Message res)) = None"
  by (rule Save_cases[OF assms(1,2,3)]) (use assms(4) in \<open>auto split: if_splits\<close>)

lemma Push_sends:
  assumes len: "\<And>b. length (e_sha256 E b) = 32" and inv: "\<And>st. w_store w = Some st \<Longrightarrow> store_inv (e_sha256 E) st"
    and P: "\<And>r ss. same_request req r \<Longrightarrow> fresh w r \<Longrightarrow> P r ss"
  shows "sends P w (snd (run_state (Push E s req) w))"
proof (cases "validatePushRequest req")
  case (Some err)
  then show ?thesis by (simp add: Push_def snd_rel.refl)
next
  case valid: None
  show ?thesis
  proof (cases "w_store w")
    case None
    then show ?thesis
      using snd_deliverOnline[of P req E s] P valid by (simp add: Push_def snd_rel.resp_def same_request_def fresh_def)
  next
    case (Some st)
    obtain i t c j ts w1 cap where w1: "w_sent w1 = w_sent w" "w_sessions w1 = w_sessions w"
      and r: "run_state (pushReliable E s req) w =
      (case fst (SaveWithCapacity (e_sha256 E) i t c st (new_message s j req ts) cap) of
         Inl err \<Rightarrow> (Inl (wrap_store_err err), w1)
       | Inr res \<Rightarrow> (case sr_Outcome res of
           SaveOutcomeExisting \<Rightarrow> (Inr (pushResponseFromStoredMessage (sr_Message res) SubmissionStateExisting), w1)
         | SaveOutcomeConflict \<Rightarrow> (Inl (DlErrMessageIDConflict (ms_MessageID (sr_Message res))), w1)
         | SaveOutcomeCreated \<Rightarrow> run_state (first_attempt E s (sr_Message res)) w1))"
      by (rule pushReliable_run[OF Some]) blast
    have silent: "sends P w w1" by (rule sends_silent) (simp_all add: w1)
    have run: "run_state (Push E s req) w = run_state (pushReliable E s req) w"
      using valid Some by (simp add: Push_def)
    obtain x st1 where save: "SaveWithCapacity (e_sha256 E) i t c st (new_message s j req ts) cap = (x, st1)" by fastforce
    show ?thesis
    proof (cases "\<exists>res. x = Inr res \<and> sr_Outcome res = SaveOutcomeCreated")
      case True
      then obtain res where res: "x = Inr res" "sr_Outcome res = SaveOutcomeCreated" by blast
      have "c = None" using save res(1) by (cases c) (simp_all add: SaveWithCapacity_def)
      note save = save[unfolded this res(1)]
      have "same_request req (pushRequestFromMessage (sr_Message res))" "fresh w (pushRequestFromMessage (sr_Message res))"
        using Save_result(4)[OF inv[OF Some] len save res(2)] Save_created_fresh[OF inv[OF Some] len save res(2)] Some
          same_request_created by (simp_all add: fresh_def pushRequestFromMessage_def)
      then have "sends P w1 (snd (run_state (first_attempt E s (sr_Message res)) w1))"
        using snd_first_attempt[of P "sr_Message res" E s] P by (simp add: snd_rel.resp_def)
      then show ?thesis using silent run r \<open>c = None\<close> save res by (auto intro: sends_trans)
    next
      case False
      then show ?thesis
        using silent run r save by (cases x) (auto split: save_outcome.split)
    qed
  qed
qed

lemma loop_sends:
  assumes "\<And>m. m \<in> set ms \<Longrightarrow> P (pushRequestFromMessage m)"
  shows "sends (\<lambda>r ss. P r) w (snd (run_state (retry_loop E s res ms) w))"
  using snd_retry_loop[of ms "\<lambda>r ss. P r" E s res] assms by (simp add: snd_rel.resp_def)

lemma RetryDue_sends:
  assumes inv: "\<And>st. w_store w = Some st \<Longrightarrow> store_inv sha256 st"
  shows "sends (\<lambda>r ss. from_store w r) w (snd (run_state (RetryDue E s limit) w))"
proof (cases "w_store w")
  case None
  then show ?thesis by (simp add: RetryDue_def snd_rel.refl)
next
  case (Some st)
  let ?P = "\<lambda>r (ss :: session). from_store w r"
  let ?ts = "e_now E (w_tick w)" and ?w0 = "w\<lparr>w_tick := Suc (w_tick w)\<rparr>"
  obtain r w1 where list: "run_state (listRetryMessages E s ?ts limit) ?w0 = (r, w1)" by fastforce
  have "snd_rel.resp ?P (listRetryMessages E s ?ts limit)"
    by (auto simp: listRetryMessages_def Let_def)
  then have "sends ?P ?w0 w1" using list by (rule snd_relD)
  then have w1: "sends ?P w w1" by (rule sends_trans[OF snd_rel.tick])
  show ?thesis
  proof (cases r)
    case (Inl err)
    then show ?thesis using w1 list Some by (simp add: RetryDue_def)
  next
    case (Inr sel)
    have st0: "w_store ?w0 = Some st" using Some by simp
    have "m \<in> set (rs_Messages sel) \<Longrightarrow> from_store w (pushRequestFromMessage m)" for m
      using snapshot_from_store[OF Some listRetryMessages_snapshot[OF inv[OF Some] st0 list[unfolded Inr]]] .
    then have "sends ?P w1 (snd (run_state (retry_loop E s zero_retry_result (rs_Messages sel)) w1))"
      by (rule loop_sends)
    from sends_trans[OF w1 this] show ?thesis
      using list Some Inr by (simp add: RetryDue_def retryMessages_def case_prod_beta)
  qed
qed

lemma Flush_sends:
  assumes inv: "\<And>st. w_store w = Some st \<Longrightarrow> store_inv sha256 st"
  shows "sends (\<lambda>r ss. from_store w r \<and> rq_ClientID r = c \<and> rq_DeviceID r = d) w
    (snd (run_state (FlushClientDevice E s c d limit) w))"
proof (cases "w_store w = None \<or> c = '''' \<or> d = ''''")
  case True
  then show ?thesis by (auto simp: FlushClientDevice_def snd_rel.refl)
next
  case False
  then obtain st where st: "w_store w = Some st" by auto
  let ?P = "\<lambda>r (ss :: session). from_store w r \<and> rq_ClientID r = c \<and> rq_DeviceID r = d"
  obtain r w1 where list: "run_state (store_ListPendingByClientDevice E c d limit) w = (r, w1)" by fastforce
  have w1: "sends ?P w w1" by (rule snd_relD[OF snd_reads(5) list])
  show ?thesis
  proof (cases r)
    case (Inl err)
    then show ?thesis using w1 list st False by (simp add: FlushClientDevice_def)
  next
    case (Inr ms)
    note pend = pending_snapshot[OF inv[OF st] st list[unfolded Inr]]
    have "m \<in> set ms \<Longrightarrow> from_store w (pushRequestFromMessage m)
        \<and> rq_ClientID (pushRequestFromMessage m) = c \<and> rq_DeviceID (pushRequestFromMessage m) = d" for m
      using snapshot_from_store[OF st pend(1)] pend(2,3) by (simp add: pushRequestFromMessage_def)
    then have "sends ?P w1 (snd (run_state (retry_loop E s zero_retry_result ms) w1))"
      by (rule loop_sends)
    from sends_trans[OF w1 this] show ?thesis
      using list Inr st False by (simp add: FlushClientDevice_def retryMessages_def)
  qed
qed

lemma PushPeer_sends:
  "sends (\<lambda>r ss. r = pushRequestFromPeerPushRequest req \<and> (pq_SessionID req = '''' \<or> ss_SessionID ss = pq_SessionID req)) w
    (snd (run_state (PushPeer E s req node) w))"
  (is "sends ?P _ _")
proof -
  have "snd_rel.resp ?P (pushOnlineWithSession E s (pushRequestFromPeerPushRequest req) (pq_SessionID req))"
    by (rule snd_pushOnline) auto
  then have "snd_rel.resp ?P (PushPeer E s req node)" by (auto simp: PushPeer_def)
  then show ?thesis by (simp add: snd_rel.resp_def)
qed

lemma step_sends:
  assumes len: "\<And>b. length (e_sha256 E b) = 32" and reach: "service_reachable E s w"
  shows "sends (sendable oper w) w (service_step E s oper w)"
proof -
  have inv: "w_store w = Some st \<Longrightarrow> store_inv (e_sha256 E) st" for st
    by (rule store_reachable_inv[OF len service_store_reachable[OF reach]])
  note D = snd_rel.resp_def[THEN iffD1, THEN spec]
  note quiet = D[OF snd_silent_ops(1)] D[OF snd_silent_ops(2)] D[OF snd_silent_ops(3)] D[OF snd_silent_ops(4)]
    D[OF snd_silent_ops(5)] D[OF snd_silent_ops(6)] D[OF snd_inspect(1)] D[OF snd_inspect(2)]
  have ext: "sendable (SRetryDue l) w = (\<lambda>r ss. from_store w r)"
    "sendable (SFlush c d l) w = (\<lambda>r ss. from_store w r \<and> rq_ClientID r = c \<and> rq_DeviceID r = d)"
    "sendable (SPushPeer preq node) w = (\<lambda>r ss. r = pushRequestFromPeerPushRequest preq
       \<and> (pq_SessionID preq = '''' \<or> ss_SessionID ss = pq_SessionID preq))" for l c d preq node
    by (simp_all add: fun_eq_iff)
  show ?thesis
  proof (cases oper)
    case (SPush req)
    show ?thesis unfolding SPush service_step.simps by (rule Push_sends[OF len inv]) simp_all
  next
    case (SPushPeer req node)
    show ?thesis unfolding SPushPeer service_step.simps ext by (rule PushPeer_sends)
  next
    case (SRetryDue limit)
    show ?thesis unfolding SRetryDue service_step.simps ext by (rule RetryDue_sends[OF inv])
  next
    case (SFlush c d limit)
    show ?thesis unfolding SFlush service_step.simps ext by (rule Flush_sends[OF inv])
  qed (simp_all only: service_step.simps quiet)
qed

lemma downlink_packet_fields:
  "pkt_ClientID (downlink_packet r ss ts) = ss_ClientID ss" "pkt_DeviceID (downlink_packet r ss ts) = ss_DeviceID ss"
  "pkt_SessionID (downlink_packet r ss ts) = ss_SessionID ss" "pkt_MsgID (downlink_packet r ss ts) = rq_MsgID r"
  "pkt_MessageID (downlink_packet r ss ts) = rq_MessageID r" "pkt_Body (downlink_packet r ss ts) = rq_Body r"
  "pkt_Flags (downlink_packet r ss ts) = (if rq_AckRequired r then FlagAckRequired else 0)"
  by (simp_all add: downlink_packet_def Let_def NewPacket_def)

lemma unat_max_word: "unat (- 1 :: 32 word) = 4294967295"
  by (simp add: unsigned_minus_1_eq_mask mask_eq_exp_minus_1)

definition carries :: "packet \<Rightarrow> push_request \<Rightarrow> session \<Rightarrow> bool" where
  "carries p r ss \<longleftrightarrow> pkt_ClientID p = rq_ClientID r \<and> pkt_DeviceID p = rq_DeviceID r \<and> pkt_MsgID p = rq_MsgID r
     \<and> pkt_MessageID p = rq_MessageID r \<and> pkt_Body p = rq_Body r \<and> pkt_SessionID p = ss_SessionID ss
     \<and> pkt_Flags p = (if rq_AckRequired r then FlagAckRequired else 0)"

text \<open>
  C2. No message reaches the wrong device.  Whatever the service does in a reachable world, each packet it
  adds to a connection decodes to a packet addressed to the very device whose current session holds that
  connection, and carries the body, ids and acknowledgement flag of a request the operation may send: a
  push its own request, and only when its message id is new; a forwarded push its request, on the session it names; a retry scan or a flush a
  pending or sent message stored for that device (a flush only for the device it was asked for); the other
  operations send nothing.
\<close>

theorem no_cross_delivery:
  assumes "\<And>b. length (e_sha256 E b) = 32" and reach: "service_reachable E s w"
  shows "\<exists>new. w_sent (service_step E s oper w) = new @ w_sent w
    \<and> (\<forall>(conn, msgID, data)\<in>set new. \<exists>r ss p. sendable oper w r ss
        \<and> GetByClientDevice (w_sessions w) (rq_ClientID r) (rq_DeviceID r) = (Some ss, True) \<and> ss_ConnID ss = conn
        \<and> DecodeWithMaxBodySize data (- 1) = Inr p \<and> pkt_MsgID p = msgID \<and> carries p r ss)"
proof -
  obtain new where new: "w_sent (service_step E s oper w) = new @ w_sent w"
      "\<forall>x\<in>set new. addressed (w_sessions w) (sendable oper w) x"
    using step_sends[OF assms(1) reach, of oper] unfolding sends_def by blast
  have "\<exists>r ss p. sendable oper w r ss
        \<and> GetByClientDevice (w_sessions w) (rq_ClientID r) (rq_DeviceID r) = (Some ss, True) \<and> ss_ConnID ss = conn
        \<and> DecodeWithMaxBodySize data (- 1) = Inr p \<and> pkt_MsgID p = msgID \<and> carries p r ss"
    if el: "(conn, msgID, data) \<in> set new" for conn msgID data
  proof -
    obtain r ss ts packet where x: "sendable oper w r ss"
        "GetByClientDevice (w_sessions w) (rq_ClientID r) (rq_DeviceID r) = (Some ss, True)"
        "Encode (Some (downlink_packet r ss ts)) = Inr (data, packet)" "conn = ss_ConnID ss" "msgID = pkt_MsgID packet"
      using new(2) el unfolding addressed_def by fastforce
    have "online (w_sessions w) (rq_ClientID r, rq_DeviceID r) = Some ss"
      using x(2) by (simp add: online_def)
    then have "pair_of ss = (rq_ClientID r, rq_DeviceID r)"
      using online_Some[OF service_sessions[OF reach]] by blast
    then have dev: "ss_ClientID ss = rq_ClientID r" "ss_DeviceID ss = rq_DeviceID r" by (simp_all add: pair_of_def)
    have enc: "encodable (downlink_packet r ss ts)" "data = header_bytes (downlink_packet r ss ts) @ variable_bytes (downlink_packet r ss ts)"
      "packet = (downlink_packet r ss ts)\<lparr>pkt_Version := Version\<rparr>"
      using x(3) unfolding Encode_Inr_iff by blast+
    have "length (pkt_Body (downlink_packet r ss ts)) \<le> unat (- 1 :: 32 word)"
      using enc(1) unat_max_word by (simp add: encodable_def)
    then have "DecodeWithMaxBodySize data (- 1) = Inr packet"
      using DecodeWithMaxBodySize_header_variable enc by blast
    moreover have "carries packet r ss"
      by (simp add: enc(3) carries_def downlink_packet_fields dev)
    ultimately show ?thesis using x by blast
  qed
  then show ?thesis using new(1) by blast
qed

definition sample_online :: world where
  "sample_online = sample_world\<lparr>w_store := None, w_sessions := sample_manager\<rparr>"

lemma sample_online_reachable: "service_reachable sample_env sample_service sample_online"
  by (rule world_start) (simp_all add: sample_online_def sample_world_def sample_manager_reachable)

lemma sample_online_session:
  obtains ss where "GetByClientDevice sample_manager ''c'' ''d'' = (Some ss, True)" "ss_ClientID ss = ''c''" "ss_DeviceID ss = ''d''"
    "ss_SessionID ss = ''s1''"
proof -
  have "case GetByClientDevice sample_manager ''c'' ''d'' of (Some ss, True) \<Rightarrow>
      ss_ClientID ss = ''c'' \<and> ss_DeviceID ss = ''d'' \<and> ss_SessionID ss = ''s1'' | _ \<Rightarrow> False"
    by code_simp
  then show thesis using that by (auto split: prod.splits option.splits bool.splits)
qed

lemma sample_online_sends: "w_sent (service_step sample_env sample_service (SPush sample_request) sample_online) \<noteq> []"
proof -
  obtain ss where ss: "GetByClientDevice sample_manager ''c'' ''d'' = (Some ss, True)" "ss_ClientID ss = ''c''"
      "ss_DeviceID ss = ''d''" "ss_SessionID ss = ''s1''"
    by (rule sample_online_session)
  have "encodable (downlink_packet sample_request ss ts)" for ts
    by (simp add: encodable_def packet_fields_def downlink_packet_def Let_def NewPacket_def sample_request_def ss)
  then have enc: "\<exists>data packet. Encode (Some (downlink_packet sample_request ss ts)) = Inr (data, packet)" for ts
    unfolding Encode_Inr_iff by blast
  have req: "rq_ClientID sample_request = ''c''" "rq_DeviceID sample_request = ''d''" by (simp_all add: sample_request_def)
  have env: "e_conn sample_env n c = None" "e_send sample_env n c = None" for n c by (simp_all add: sample_env_def)
  obtain data packet where "Encode (Some (downlink_packet sample_request ss (e_now sample_env 1))) = Inr (data, packet)"
    using enc by blast
  then show ?thesis
    by (simp add: sample_online_def Push_def deliverOnline_def pushOnline_def pushOnlineWithSession_def ss req env)
qed

theorem no_cross_delivery_witness:
  "\<exists>conn msgID data r ss p.
     (conn, msgID, data) \<in> set (w_sent (service_step sample_env sample_service (SPush sample_request) sample_online))
     \<and> same_request sample_request r \<and> ss_ConnID ss = conn \<and> DecodeWithMaxBodySize data (- 1) = Inr p \<and> carries p r ss"
proof -
  obtain new where new: "w_sent (service_step sample_env sample_service (SPush sample_request) sample_online) = new @ w_sent sample_online"
      "\<forall>(conn, msgID, data)\<in>set new. \<exists>r ss p. sendable (SPush sample_request) sample_online r ss
        \<and> GetByClientDevice (w_sessions sample_online) (rq_ClientID r) (rq_DeviceID r) = (Some ss, True) \<and> ss_ConnID ss = conn
        \<and> DecodeWithMaxBodySize data (- 1) = Inr p \<and> pkt_MsgID p = msgID \<and> carries p r ss"
    using no_cross_delivery[OF sample_env_sha sample_online_reachable, of "SPush sample_request"] by blast
  have "new \<noteq> []" using new(1) sample_online_sends by (simp add: sample_online_def)
  then obtain conn msgID data where el: "(conn, msgID, data) \<in> set new" by (metis list.set_intros(1) neq_Nil_conv prod_cases3)
  then show ?thesis using bspec[OF new(2) el] new(1) by fastforce
qed

end
