(* ===== verification/Downlink_Ack.thy ===== *)
theory Downlink_Ack
  imports Downlink_Delivery
begin

text \<open>
  Repeated submissions and acknowledgements: a push with a known id sends nothing and changes nothing, and
  a message that its device acknowledged stays delivered and is never sent again.
\<close>

section \<open>Repeated pushes\<close>

lemma Save_context: "SaveWithCapacity sha256 i t (Some e) st m cap = (Inl (CtxErr e), st)"
  by (simp add: SaveWithCapacity_def)

lemma pushReliable_existing:
  assumes len: "\<And>b. length (e_sha256 E b) = 32" and inv: "store_inv (e_sha256 E) st" and w: "w_store w = Some st"
    and k: "rq_MessageID req \<noteq> ''''" "map_of (mem_messages st) (rq_MessageID req) = Some m"
    and run: "run_state (pushReliable E s req) w = (r, w')"
  shows "w_store w' = Some st \<and> w_sent w' = w_sent w \<and> w_registry w' = w_registry w \<and> w_published w' = w_published w
    \<and> ((\<exists>e. r = Inl (DlErrStore (CtxErr e)))
       \<or> r = (if ms_IdentityFingerprint m = messageIdentityFingerprint (e_sha256 E) (messageFromPushRequest '''' req 0)
              then Inr (pushResponseFromStoredMessage m SubmissionStateExisting)
              else Inl (DlErrMessageIDConflict (rq_MessageID req))))"
proof -
  obtain i t c j ts w1 cap where w1: "w_store w1 = Some (snd (SaveWithCapacity (e_sha256 E) i t c st (new_message s j req ts) cap))"
      "w_sent w1 = w_sent w" "w_registry w1 = w_registry w" "w_published w1 = w_published w"
    and res: "run_state (pushReliable E s req) w =
      (case fst (SaveWithCapacity (e_sha256 E) i t c st (new_message s j req ts) cap) of
         Inl err \<Rightarrow> (Inl (wrap_store_err err), w1)
       | Inr res \<Rightarrow> (case sr_Outcome res of
           SaveOutcomeExisting \<Rightarrow> (Inr (pushResponseFromStoredMessage (sr_Message res) SubmissionStateExisting), w1)
         | SaveOutcomeConflict \<Rightarrow> (Inl (DlErrMessageIDConflict (ms_MessageID (sr_Message res))), w1)
         | SaveOutcomeCreated \<Rightarrow> run_state (first_attempt E s (sr_Message res)) w1))"
    by (rule pushReliable_run[OF w]) blast
  let ?m = "new_message s j req ts"
  have fp: "messageIdentityFingerprint (e_sha256 E) ?m = messageIdentityFingerprint (e_sha256 E) (messageFromPushRequest '''' req 0)"
    by (rule fingerprint_of_identity, subst new_message_fields(2)) (simp add: messageFromPushRequest_def message_identity_def)
  show ?thesis
  proof (cases c)
    case (Some e)
    then show ?thesis
      using w1 res run by (simp add: Save_context wrap_store_err_def)
  next
    case None
    have "ms_MessageID ?m = rq_MessageID req" using k(1) by simp
    then have save: "SaveWithCapacity (e_sha256 E) i t c st ?m cap = (Inr \<lparr>sr_Message = m, sr_Outcome =
        (if messageIdentityFingerprint (e_sha256 E) m = messageIdentityFingerprint (e_sha256 E) ?m
         then SaveOutcomeExisting else SaveOutcomeConflict)\<rparr>, st)"
      using Save_existing[OF inv len, of ?m m] k None by simp
    have "ms_IdentityFingerprint m = messageIdentityFingerprint (e_sha256 E) m" "ms_MessageID m = rq_MessageID req"
      using store_invD(3,4)[OF inv k(2)] by simp_all
    then show ?thesis
      using w1 res run save fp by (auto split: if_splits)
  qed
qed

text \<open>
  C21. Submitting a message again is harmless.  A push whose message id is already stored leaves the store,
  the routes, the published events and every connection as they are; it answers with the stored message
  when the request has its identity, and with a conflict otherwise (or with the error of a cancelled
  context).
\<close>

theorem push_replay:
  assumes "\<And>b. length (e_sha256 E b) = 32" "service_reachable E s w" "w_store w = Some st" "validatePushRequest req = None"
    and "rq_MessageID req \<noteq> ''''" "Get None st (rq_MessageID req) = Inr (Some m)"
    and "run_state (Push E s req) w = (r, w')"
  shows "w_store w' = Some st \<and> w_sent w' = w_sent w \<and> w_registry w' = w_registry w \<and> w_published w' = w_published w
    \<and> ((\<exists>e. r = Inl (DlErrStore (CtxErr e)))
       \<or> r = (if ms_IdentityFingerprint m = messageIdentityFingerprint (e_sha256 E) (messageFromPushRequest '''' req 0)
              then Inr (pushResponseFromStoredMessage m SubmissionStateExisting)
              else Inl (DlErrMessageIDConflict (rq_MessageID req))))"
proof -
  have "map_of (mem_messages st) (rq_MessageID req) = Some m" using assms(6) by (simp add: Get_def)
  moreover have "run_state (pushReliable E s req) w = (r, w')" using assms(3,4,7) by (simp add: Push_def)
  ultimately show ?thesis
    by (rule pushReliable_existing[OF assms(1) store_reachable_inv[OF assms(1) service_store_reachable[OF assms(2,3)]] assms(3,5)])
qed

theorem push_replay_witness:
  "\<exists>r w'. run_state (Push sample_env sample_service sample_request) sample_full_world = (r, w')
     \<and> w_store w' = w_store sample_full_world \<and> w_sent w' = w_sent sample_full_world"
proof -
  obtain st m where m: "w_store sample_full_world = Some st" "Get None st ''m1'' = Inr (Some m)"
    by (rule sample_stored)
  obtain r w' where run: "run_state (Push sample_env sample_service sample_request) sample_full_world = (r, w')" by fastforce
  have "rq_MessageID sample_request \<noteq> ''''" "Get None st (rq_MessageID sample_request) = Inr (Some m)"
    using m(2) by simp_all
  from push_replay[OF sample_env_sha sample_full_reachable m(1) _ this run] m(1) run show ?thesis by simp
qed

section \<open>Delivered messages stay delivered\<close>

fun harmless :: "string \<Rightarrow> store_op \<Rightarrow> bool" where
  "harmless k (OpDelivered _ _ _ _ _) = True"
| "harmless k (OpRequeue _ k' _ _) = (k' \<noteq> k)"
| "harmless k (OpDiscard _ k' _ _) = (k' \<noteq> k)"
| "harmless k x = automatic x"

lemma automatic_harmless: "automatic x \<Longrightarrow> harmless k x"
  by (cases x) simp_all

lemma harmless_deletes: "harmless k x \<Longrightarrow> \<not> deletes x"
  by (cases x) simp_all

definition delivered_at :: "memory_store \<Rightarrow> string \<Rightarrow> bool" where
  "delivered_at st k \<longleftrightarrow> (\<exists>m. map_of (mem_messages st) k = Some m \<and> ms_Status m = MessageStatusDelivered)"

lemma update_message_lookup:
  "map_of (mem_messages (update_message s k m)) k' = (if k' = k then Some m else map_of (mem_messages s) k')"
  by (simp add: update_message_def)

lemma delivered_step:
  assumes inv: "store_inv sha256 st" and len: "\<And>b. length (sha256 b) = 32" and "harmless k oper" "delivered_at st k"
  shows "delivered_at (store_step sha256 ctx oper st) k"
proof -
  obtain m where m: "map_of (mem_messages st) k = Some m" "ms_Status m = MessageStatusDelivered"
    using assms(4) unfolding delivered_at_def by blast
  show ?thesis
  proof (cases "automatic oper")
    case True
    have "map_of (mem_messages (store_step sha256 ctx oper st)) k \<noteq> None"
      by (rule message_kept[OF automatic_deletes[OF True]]) (simp add: m)
    then show ?thesis
      using settled_kept[OF inv len True, of ctx] m
      by (auto simp: msgs_rel_def settled_rel_def settled_def delivered_at_def)
  next
    case False
    then show ?thesis
      using assms(3) m
      by (cases oper) (auto simp: MarkDelivered_def RequeueWithCapacity_def Discard_def Let_def case_prod_beta
          delivered_at_def update_message_lookup split: option.split)
  qed
qed

lemma delivered_run:
  assumes len: "\<And>b. length (sha256 b) = 32"
  shows "store_inv sha256 st \<Longrightarrow> delivered_at st k \<Longrightarrow> (\<forall>x\<in>set ops. harmless k (snd x)) \<Longrightarrow> delivered_at (store_run sha256 ops st) k"
proof (induction ops arbitrary: st)
  case (Cons x ops)
  then show ?case
    using delivered_step[OF Cons.prems(1) len, of k "snd x" "fst x"] store_step_inv[OF len Cons.prems(1), of "fst x" "snd x"]
    by simp
qed simp

lemma rejected_when_delivered:
  assumes "w_store w = Some st" "map_of (mem_messages st) k = Some m" "ms_Status m = MessageStatusDelivered"
  shows "w_store (snd (run_state (ServiceRequeue E s k) w)) = Some st"
    "w_store (snd (run_state (RequeueFailed E s k) w)) = Some st"
    "w_store (snd (run_state (ServiceDiscard E s k reason) w)) = Some st"
proof -
  note get = store_Get_def run_on_store Get_def
  show "w_store (snd (run_state (ServiceRequeue E s k) w)) = Some st"
    using assms by (cases "e_ctx E (w_tick w)") (auto simp: ServiceRequeue_def get)
  show "w_store (snd (run_state (RequeueFailed E s k) w)) = Some st"
    using assms by (cases "e_ctx E (w_tick w)") (auto simp: RequeueFailed_def MessageStatus_def attachResolvedPolicy_def get)
  show "w_store (snd (run_state (ServiceDiscard E s k reason) w)) = Some st"
    using assms by (cases "e_ctx E (w_tick w)") (auto simp: ServiceDiscard_def get)
qed

definition delivered_in :: "world \<Rightarrow> string \<Rightarrow> bool" where
  "delivered_in w k \<longleftrightarrow> (\<exists>st. w_store w = Some st \<and> delivered_at st k)"

fun operates_on :: "service_op \<Rightarrow> string \<Rightarrow> bool" where
  "operates_on (SRequeue k') k \<longleftrightarrow> k' = k"
| "operates_on (SRequeueFailed k') k \<longleftrightarrow> k' = k"
| "operates_on (SDiscard k' reason) k \<longleftrightarrow> k' = k"
| "operates_on _ k \<longleftrightarrow> False"

lemma allowed_harmless: "allowed oper x \<Longrightarrow> \<not> cleans oper \<Longrightarrow> \<not> operates_on oper k \<Longrightarrow> harmless k x"
  by (cases oper; cases x) simp_all

lemma delivered_service_step:
  assumes len: "\<And>b. length (e_sha256 E b) = 32" and reach: "service_reachable E s w"
    and "delivered_in w k" "\<not> cleans oper"
  shows "delivered_in (service_step E s oper w) k"
proof -
  obtain st where st: "w_store w = Some st" "delivered_at st k" using assms(3) unfolding delivered_in_def by blast
  have inv: "store_inv (e_sha256 E) st" by (rule store_reachable_inv[OF len service_store_reachable[OF reach st(1)]])
  show ?thesis
  proof (cases "operates_on oper k")
    case True
    obtain m where "map_of (mem_messages st) k = Some m" "ms_Status m = MessageStatusDelivered"
      using st(2) unfolding delivered_at_def by blast
    note same = rejected_when_delivered[OF st(1) this]
    have "w_store (service_step E s oper w) = Some st"
      using True same by (cases oper) simp_all
    then show ?thesis using st(2) by (simp add: delivered_in_def)
  next
    case False
    obtain ops where ops: "\<forall>x\<in>set ops. allowed oper (snd x)"
        "w_store (service_step E s oper w) = Some (store_run (e_sha256 E) ops st)"
      by (rule evolves_Some[OF service_step_evolves st(1)])
    have "\<forall>x\<in>set ops. harmless k (snd x)"
      using ops(1) allowed_harmless[OF _ assms(4) False] by blast
    then show ?thesis
      using delivered_run[OF len inv st(2)] ops(2) by (simp add: delivered_in_def)
  qed
qed

text \<open>
  The worlds that follow a world: operations of a given kind, and in between whatever the rest of the
  gateway does to sessions and routes.
\<close>

inductive continues :: "env \<Rightarrow> service \<Rightarrow> (service_op \<Rightarrow> bool) \<Rightarrow> world \<Rightarrow> world \<Rightarrow> bool" for E s P w where
  cont_here: "continues E s P w w"
| cont_step: "continues E s P w w' \<Longrightarrow> P oper \<Longrightarrow> continues E s P w (service_step E s oper w')"
| cont_other: "continues E s P w w' \<Longrightarrow> manager_reachable sessions \<Longrightarrow>
    continues E s P w (w'\<lparr>w_sessions := sessions, w_registry := registry, w_tick := n\<rparr>)"

lemma continues_reachable: "continues E s P w w' \<Longrightarrow> service_reachable E s w \<Longrightarrow> service_reachable E s w'"
  by (induction rule: continues.induct) (auto intro: world_step world_other)

fun forwards :: "string \<Rightarrow> service_op \<Rightarrow> bool" where
  "forwards k (SPushPeer req node) \<longleftrightarrow> pq_MessageID req = k"
| "forwards k _ \<longleftrightarrow> False"

lemma sendable_not_delivered:
  assumes "sendable oper w r ss" "delivered_in w k" "\<not> forwards k oper"
  shows "rq_MessageID r \<noteq> k"
proof -
  obtain st m where "w_store w = Some st" "map_of (mem_messages st) k = Some m" "ms_Status m = MessageStatusDelivered"
    using assms(2) unfolding delivered_in_def delivered_at_def by blast
  then show ?thesis
    using assms(1,3)
    by (cases oper) (auto simp: fresh_def from_store_def open_status_def pushRequestFromPeerPushRequest_def split: option.splits)
qed

text \<open>The message ids on a connection.\<close>

definition sent_id :: "64 word \<times> 32 word \<times> bytes \<Rightarrow> string option" where
  "sent_id x = (case DecodeWithMaxBodySize (snd (snd x)) (- 1) of Inl _ \<Rightarrow> None | Inr p \<Rightarrow> Some (pkt_MessageID p))"

lemma addressed_sent_id:
  assumes "addressed sessions P x" "\<And>r ss. P r ss \<Longrightarrow> rq_MessageID r \<noteq> k"
  shows "sent_id x \<noteq> Some k"
proof -
  obtain r ss ts packet where x: "P r ss" "Encode (Some (downlink_packet r ss ts)) = Inr (snd (snd x), packet)"
    using assms(1) unfolding addressed_def by blast
  have enc: "encodable (downlink_packet r ss ts)"
      "snd (snd x) = header_bytes (downlink_packet r ss ts) @ variable_bytes (downlink_packet r ss ts)"
    using x(2) unfolding Encode_Inr_iff by blast+
  then have "length (pkt_Body (downlink_packet r ss ts)) \<le> unat (- 1 :: 32 word)"
    using unat_max_word by (simp add: encodable_def)
  then have "sent_id x = Some (rq_MessageID r)"
    using DecodeWithMaxBodySize_header_variable[OF enc(1)] enc(2) by (simp add: sent_id_def downlink_packet_fields)
  then show ?thesis using assms(2)[OF x(1)] by simp
qed

lemma delivered_continues:
  assumes len: "\<And>b. length (e_sha256 E b) = 32" and reach: "service_reachable E s w" and "delivered_in w k"
    and "continues E s (\<lambda>oper. \<not> cleans oper \<and> \<not> forwards k oper) w w'"
  shows "delivered_in w' k \<and> (\<exists>new. w_sent w' = new @ w_sent w \<and> (\<forall>x\<in>set new. sent_id x \<noteq> Some k))"
  using assms(4)
proof (induction rule: continues.induct)
  case cont_here
  then show ?case using assms(3) by simp
next
  case (cont_step w' oper)
  have r: "service_reachable E s w'" by (rule continues_reachable[OF cont_step.hyps(1) reach])
  obtain new where new: "w_sent w' = new @ w_sent w" "\<forall>x\<in>set new. sent_id x \<noteq> Some k" and d: "delivered_in w' k"
    using cont_step.IH by blast
  obtain new' where new': "w_sent (service_step E s oper w') = new' @ w_sent w'"
      "\<forall>x\<in>set new'. addressed (w_sessions w') (sendable oper w') x"
    using step_sends[OF len r, of oper] unfolding sends_def by blast
  have "\<forall>x\<in>set new'. sent_id x \<noteq> Some k"
    using new'(2) addressed_sent_id sendable_not_delivered[OF _ d] cont_step.hyps(2) by blast
  then have "\<forall>x\<in>set (new' @ new). sent_id x \<noteq> Some k" "w_sent (service_step E s oper w') = (new' @ new) @ w_sent w"
    using new new'(1) by auto
  then show ?case
    using delivered_service_step[OF len r d] cont_step.hyps(2) by blast
next
  case (cont_other w' sessions registry n)
  then show ?case by (simp add: delivered_in_def)
qed

section \<open>Acknowledgements\<close>

lemma MarkDelivered_owner:
  assumes "map_of (mem_messages st) k = Some m" "ms_ClientID m = c" "ms_DeviceID m = d"
  shows "fst (MarkDelivered t None st k c d ts) = None" "delivered_at (snd (MarkDelivered t None st k c d ts)) k"
  using assms by (simp_all add: MarkDelivered_def Let_def delivered_at_def update_message_def)

lemma Ack_delivers:
  assumes "run_state (Ack E s c d ack) w = (Inr m, w')"
  obtains st m0 where "w_store w = Some st" "map_of (mem_messages st) (da_MessageID ack) = Some m0"
    "ms_ClientID m0 = c" "ms_DeviceID m0 = d" "delivered_in w' (da_MessageID ack)" "w_sent w' = w_sent w"
proof -
  obtain st where st: "w_store w = Some st"
    using assms by (cases "w_store w") (auto simp: Ack_def)
  let ?k = "da_MessageID ack"
  let ?t = "w_tick w"
  have guards: "c \<noteq> ''''" "d \<noteq> ''''" "?k \<noteq> ''''" "da_Code ack = DeliveryAckDelivered" "e_ctx E ?t = None"
    using assms st by (auto simp: Ack_def store_Get_def run_on_store Get_def split: if_splits option.splits)
  obtain m0 where m0: "map_of (mem_messages st) ?k = Some m0"
    using assms st guards by (cases "map_of (mem_messages st) ?k") (auto simp: Ack_def store_Get_def run_on_store Get_def)
  have dev: "ms_ClientID m0 = c" "ms_DeviceID m0 = d"
    using assms st guards m0 by (auto simp: Ack_def store_Get_def run_on_store Get_def split: if_splits)
  have ctx: "e_ctx E (Suc (Suc ?t)) = None"
    using assms st guards m0 dev
    by (auto simp: Ack_def store_Get_def store_MarkDelivered_def run_on_store Get_def MarkDelivered_def split: option.splits)
  have "delivered_in w' ?k \<and> w_sent w' = w_sent w"
    using assms st guards m0 dev ctx MarkDelivered_owner[OF m0 dev]
    by (auto simp: Ack_def store_Get_def store_MarkDelivered_def run_on_store Get_def delivered_in_def)
  then show thesis using that st m0 dev by blast
qed


lemma pushReliable_new:
  assumes len: "\<And>b. length (e_sha256 E b) = 32" and inv: "store_inv (e_sha256 E) st" and w: "w_store w = Some st"
    and k: "rq_MessageID req \<noteq> ''''" "map_of (mem_messages st) (rq_MessageID req) = None"
    and run: "run_state (pushReliable E s req) w = (Inr resp, w')"
  obtains st' m' where "w_store w' = Some st'" "map_of (mem_messages st') (rq_MessageID req) = Some m'"
    "message_identity m' = (rq_ClientID req, rq_DeviceID req, rq_MsgID req, rq_AckRequired req, rq_Body req)"
proof -
  obtain i t c j ts w1 cap where w1: "w_store w1 = Some (snd (SaveWithCapacity (e_sha256 E) i t c st (new_message s j req ts) cap))"
    and r: "run_state (pushReliable E s req) w =
      (case fst (SaveWithCapacity (e_sha256 E) i t c st (new_message s j req ts) cap) of
         Inl err \<Rightarrow> (Inl (wrap_store_err err), w1)
       | Inr res \<Rightarrow> (case sr_Outcome res of
           SaveOutcomeExisting \<Rightarrow> (Inr (pushResponseFromStoredMessage (sr_Message res) SubmissionStateExisting), w1)
         | SaveOutcomeConflict \<Rightarrow> (Inl (DlErrMessageIDConflict (ms_MessageID (sr_Message res))), w1)
         | SaveOutcomeCreated \<Rightarrow> run_state (first_attempt E s (sr_Message res)) w1))"
    by (rule pushReliable_run[OF w]) blast
  let ?m = "new_message s j req ts"
  obtain x st1 where save: "SaveWithCapacity (e_sha256 E) i t c st ?m cap = (x, st1)" by fastforce
  have c: "c = None" and "\<exists>res. x = Inr res"
    using run r save by (cases c; auto simp: SaveWithCapacity_def split: sum.splits)+
  then obtain res where x: "x = Inr res" by blast
  note save' = save[unfolded c x]
  have inv1: "store_inv (e_sha256 E) st1"
    using SaveWithCapacity_inv[OF inv len, of i t c ?m cap] save by simp
  have id: "ms_MessageID (sr_Message res) = rq_MessageID req" using Save_result(3)[OF inv len save'] k(1) by simp
  have created: "sr_Outcome res = SaveOutcomeCreated"
    by (rule Save_cases[OF inv len save']) (use k in auto)
  then have fa: "run_state (first_attempt E s (sr_Message res)) w1 = (Inr resp, w')"
    using run r save x by simp
  have w1': "w_store w1 = Some st1" using w1 save by simp
  have "evolves (e_sha256 E) (\<lambda>x. \<not> deletes x) w1 w'"
    using evoD[OF evo_first_attempt[of "\<lambda>x. \<not> deletes x" "e_sha256 E" E s "sr_Message res"], of w1] automatic_deletes fa by simp
  then obtain ops where ops: "\<forall>x\<in>set ops. \<not> deletes (snd x)" "w_store w' = Some (store_run (e_sha256 E) ops st1)"
    by (rule evolves_Some[OF _ w1'])
  obtain m' where m': "map_of (mem_messages (store_run (e_sha256 E) ops st1)) (ms_MessageID (sr_Message res)) = Some m'"
      "core m' = core (sr_Message res)"
    using core_over_run[OF len inv1 Save_result(1)[OF inv len save'] ops(1)] by blast
  have "message_identity m' = message_identity ?m"
    using m'(2) Save_result(4)[OF inv len save' created] by (simp add: core_def)
  then show thesis using that[OF ops(2)] m'(1) id by simp
qed

lemma sample_message:
  obtains st m where "w_store sample_full_world = Some st" "Get None st ''m1'' = Inr (Some m)" "ms_ClientID m = ''c''" "ms_DeviceID m = ''d''"
proof -
  obtain resp w' where p: "run_state (Push sample_env sample_service sample_request) sample_world = (Inr resp, w')"
    by (rule sample_push)
  have r: "run_state (pushReliable sample_env sample_service sample_request) sample_world = (Inr resp, w')"
    using p(1) by (simp add: Push_def)
  have inv: "store_inv (e_sha256 sample_env) NewMemoryStore" by (rule store_inv_New)
  obtain st' m' where "w_store w' = Some st'" "map_of (mem_messages st') (rq_MessageID sample_request) = Some m'"
      "message_identity m' = (rq_ClientID sample_request, rq_DeviceID sample_request, rq_MsgID sample_request,
         rq_AckRequired sample_request, rq_Body sample_request)"
    by (rule pushReliable_new[OF sample_env_sha inv sample_fields(7) _ _ r]) (simp_all add: NewMemoryStore_def)
  then show thesis
    using that p by (simp add: sample_full_world_def Get_def message_identity_def sample_request_def)
qed

definition sample_ack :: delivery_ack where
  "sample_ack = \<lparr>da_MessageID = ''m1'', da_Code = DeliveryAckDelivered\<rparr>"

lemma sample_acked: "\<exists>m w'. run_state (Ack sample_env sample_service ''c'' ''d'' sample_ack) sample_full_world = (Inr m, w')"
proof -
  obtain st m where m: "w_store sample_full_world = Some st" "Get None st ''m1'' = Inr (Some m)" "ms_ClientID m = ''c''" "ms_DeviceID m = ''d''"
    by (rule sample_message)
  then have "map_of (mem_messages st) ''m1'' = Some m" by (simp add: Get_def)
  from m this MarkDelivered_owner(1)[OF this m(3,4)] show ?thesis
    by (simp add: Ack_def sample_ack_def store_Get_def store_MarkDelivered_def run_on_store Get_def)
qed


end
