(* ===== verification/Downlink_Attempts.thy ===== *)
theory Downlink_Attempts
  imports Downlink_Ack
begin

text \<open>
  Delivery attempts: no message is attempted more often than its policy allows, and a pending message
  whose time has come is sent by the next retry scan when its device is online.
\<close>

section \<open>How operations count attempts\<close>

fun tries :: "store_op \<Rightarrow> string option" where
  "tries (OpSent _ _ k _ _ _) = Some k"
| "tries (OpAttemptFailed _ k _ _) = Some k"
| "tries (OpFailed _ k t) = (if tt_Attempted t then Some k else None)"
| "tries _ = None"

text \<open>Operations that attempt nothing and save only messages that were not attempted yet.\<close>

fun sparing :: "store_op \<Rightarrow> bool" where
  "sparing (OpSave _ _ m _) \<longleftrightarrow> ms_Attempts m = 0"
| "sparing x \<longleftrightarrow> tries x = None"

lemma complete_attempts [simp]: "ms_Attempts (complete_message sha256 i t m) = ms_Attempts m"
  by (simp add: complete_message_def Let_def)

lemma first_transition_attempts [simp]: "ms_Attempts (fst (first_transition s m st t)) = ms_Attempts m"
  by (simp add: first_transition_def applyTerminalRecord_def Let_def split: option.split)

lemma sparing_attempts:
  assumes "store_inv sha256 st" "\<And>b. length (sha256 b) = 32" "sparing oper"
  shows "msgs_rel (\<lambda>m m'. ms_Attempts m' \<le> max 0 (ms_Attempts m)) st (store_step sha256 ctx oper st)"
    (is "msgs_rel ?R _ _")
proof -
  have refl: "?R m m" for m by simp
  note intros = msgs_rel_refl[of ?R, OF refl] msgs_rel_events[of ?R, OF refl] msgs_rel_update[of ?R, OF refl]
  show ?thesis
    using assms(3)
  proof (cases oper)
    case (OpSave i t m cap)
    then show ?thesis using msgs_rel_save[OF assms(1,2), of ?R] by simp
  next
    case (OpDelivered clock k c d ts)
    then show ?thesis by (auto simp: MarkDelivered_def Let_def clear_claim_def split: option.split intro!: intros)
  next
    case (OpFailed clock k t)
    then show ?thesis using assms(3)
      by (auto simp: MarkFailed_def Let_def case_prod_beta clear_claim_def split: option.split if_splits intro!: intros)
  next
    case (OpRequeue clock k ts cap)
    then show ?thesis by (auto simp: RequeueWithCapacity_def Let_def split: option.split intro!: intros)
  next
    case (OpDiscard clock k reason t)
    then show ?thesis
      by (auto simp: Discard_def Let_def case_prod_beta clear_claim_def split: option.split intro!: intros)
  next
    case (OpClaim t ts a l cl owner lease)
    then show ?thesis using msgs_rel_claim[of ?R] by (simp add: claim_message_def)
  next
    case (OpClaimTerminal t ts l owner lease)
    then show ?thesis by (auto simp: ClaimDueTerminal_def Let_def split: option.split intro!: intros)
  next
    case (OpPublished clock k st ts)
    then show ?thesis
      by (auto simp: MarkTerminalPublished_def Let_def applyTerminalRecord_def split: option.split intro!: intros)
  next
    case (OpPublishFailed k st reason ts)
    then show ?thesis
      by (auto simp: MarkTerminalPublishFailed_def Let_def applyTerminalRecord_def split: option.split intro!: intros)
  next
    case (OpDelete status cutoff l)
    then show ?thesis
      using msgs_rel_delete[of ?R] by (auto simp: DeleteExpired_def Let_def split: option.split intro!: intros)
  qed simp_all
qed

text \<open>A message appears in the store only when it is saved.\<close>

lemma appears_saved:
  assumes inv: "store_inv sha256 st" "\<And>b. length (sha256 b) = 32" and "map_of (mem_messages st) k = None"
    and "map_of (mem_messages (store_step sha256 ctx oper st)) k = Some m'"
  obtains i t m cap where "oper = OpSave i t m cap" "m' = complete_message sha256 i t m"
proof (cases oper)
  case (OpSave i t m cap)
  obtain r st' where res: "SaveWithCapacity sha256 i t ctx st m cap = (r, st')" by fastforce
  have "ctx = None" using assms(3,4) OpSave by (cases ctx) (auto simp: SaveWithCapacity_def)
  from Save_cases[OF inv res[unfolded this]] have "m' = complete_message sha256 i t m"
    by cases (use assms(3,4) OpSave res \<open>ctx = None\<close> in \<open>auto split: if_splits\<close>)
  then show thesis using that OpSave by blast
next
  case (OpClaim t ts a l cl owner lease)
  have new: "map_of (snd (claim_messages owner until now store ms)) k = None"
    if "map_of store k = None" "k \<notin> ms_MessageID ` set ms" for owner until now store ms
    using that by (induction ms arbitrary: store) (auto simp: Let_def case_prod_beta)
  obtain l' cl' where norm: "normalizeRetrySelectionLimits l cl = (l', cl')" by fastforce
  let ?ts = "if is_zero ts then t else ts"
  let ?ms = "rs_Messages (fairRetrySelection (limitMessages (retryCandidatesLocked st ?ts a) cl') l')"
  have "k \<notin> ms_MessageID ` set ?ms"
    using due_in_store[OF inv(1), of _ ?ts a cl' l'] assms(3) by auto
  then have "map_of (mem_messages (snd (ClaimDueRetryFair t ctx st ts a l cl owner lease))) k = None"
    using assms(3) new[OF assms(3)] by (cases ctx) (simp_all add: ClaimDueRetryFair_def Let_def norm case_prod_beta)
  then show thesis using assms(4) OpClaim by simp
next
  case (OpDelete status cutoff l)
  obtain ms where "snd (DeleteExpired ctx st status cutoff l) = fold delete_message ms st"
    using DeleteExpired_cases[of ctx st status cutoff l] by (metis prod.collapse)
  then show thesis
    using assms(3,4) OpDelete by (simp add: fold_delete_messages split: if_splits)
qed (use assms(3,4) in \<open>auto simp: MarkSent_def MarkDelivered_def MarkAttemptFailed_def MarkFailed_def RequeueWithCapacity_def
    Discard_def ClaimDueTerminal_def MarkTerminalPublished_def MarkTerminalPublishFailed_def update_message_def Let_def case_prod_beta
    split: option.splits if_splits\<close>)

section \<open>One attempt is one store operation\<close>

fun marks :: "store_op \<Rightarrow> string \<Rightarrow> bool" where
  "marks (OpSent _ _ k' _ _ _) k \<longleftrightarrow> k' = k"
| "marks (OpAttemptFailed _ k' _ _) k \<longleftrightarrow> k' = k"
| "marks (OpFailed _ k' _) k \<longleftrightarrow> k' = k"
| "marks _ k \<longleftrightarrow> False"

lemma marks_other:
  "marks oper k \<Longrightarrow> k' \<noteq> k \<Longrightarrow> map_of (mem_messages (store_step sha256 ctx oper st)) k' = map_of (mem_messages st) k'"
  by (cases oper) (auto simp: MarkSent_def MarkAttemptFailed_def MarkFailed_def update_message_def Let_def case_prod_beta
      split: option.split)

lemma marks_attempts:
  assumes "marks oper k" "map_of (mem_messages st) k = Some m"
  obtains m' where "map_of (mem_messages (store_step sha256 ctx oper st)) k = Some m'" "core m' = core m"
    "ms_Attempts m' \<le> ms_Attempts m + (if tries oper = None then 0 else 1)"
proof (cases "ctx = None \<and> ms_Status m \<noteq> MessageStatusDelivered \<and> ms_Status m \<noteq> MessageStatusDiscarded")
  case False
  then have "store_step sha256 ctx oper st = st"
    using assms by (cases oper; cases ctx) (auto simp: MarkSent_def MarkAttemptFailed_def MarkFailed_def Let_def)
  then show thesis using that assms(2) by simp
next
  case True
  then have ctx: "ctx = None" and stat: "ms_Status m \<noteq> MessageStatusDelivered" "ms_Status m \<noteq> MessageStatusDiscarded" by auto
  note found = that[of "the (map_of (mem_messages (store_step sha256 ctx oper st)) k)"]
  show thesis
  proof (cases oper)
    case (OpSent t t' k' sid ts nx)
    with assms stat show thesis
      by (intro found) (simp_all add: ctx MarkSent_def update_message_def Let_def)
  next
    case (OpAttemptFailed t k' reason nx)
    with assms stat show thesis
      by (intro found) (simp_all add: ctx MarkAttemptFailed_def update_message_def)
  next
    case (OpFailed t k' tr)
    with assms stat show thesis
      by (intro found) (simp_all add: ctx MarkFailed_def update_message_def Let_def case_prod_beta)
  qed (use assms(1) in simp_all)
qed

interpretation keep_rel: world_rel "\<lambda>w w'. w_store w' = w_store w"
  by unfold_locales simp_all

lemma keep_registry [intro!]: "keep_rel.resp (on_registry f nil)"
  by (auto simp: keep_rel.resp_def run_on_registry split: option.split)

lemma keep_emit [intro!]: "keep_rel.resp (emit_sent x)"
  by (simp add: keep_rel.resp_def)

lemma keep_pushOnline [intro!]: "keep_rel.resp (pushOnlineWithSession E s req sid)"
  by (auto simp: pushOnlineWithSession_def)

lemma keep_deliverOnline: "keep_rel.resp (deliverOnline E s req)"
  by (auto simp: deliverOnline_def pushOnline_def pushCluster_def registry_Lookup_def registry_Unbind_def push_to_peer_def)

lemma deliverOnline_store: "run_state (deliverOnline E s req) w = (r, w') \<Longrightarrow> w_store w' = w_store w"
  using keep_deliverOnline[of E s req] unfolding keep_rel.resp_def by (metis snd_conv)

text \<open>The world after an action that ends with one marking of message \<open>k\<close>, or leaves the store alone.\<close>

definition marked :: "env \<Rightarrow> string \<Rightarrow> (store_op \<Rightarrow> bool) \<Rightarrow> memory_store \<Rightarrow> world \<Rightarrow> bool" where
  "marked E k P st w' \<longleftrightarrow> w_store w' = Some st
     \<or> (\<exists>c oper. marks oper k \<and> P oper \<and> w_store w' = Some (store_step (e_sha256 E) c oper st))"

lemma marked_intro: "marks oper k \<Longrightarrow> P oper \<Longrightarrow> w_store w' = Some (store_step (e_sha256 E) c oper st) \<Longrightarrow> marked E k P st w'"
  unfolding marked_def by blast

lemma store_marks:
  assumes "w_store w = Some st"
  shows "\<exists>c t t'. w_store (snd (run_state (store_MarkSent E k sid ts nx) w)) = Some (store_step (e_sha256 E) c (OpSent t t' k sid ts nx) st)"
    "\<exists>c t. w_store (snd (run_state (store_MarkAttemptFailed E k reason nx) w)) = Some (store_step (e_sha256 E) c (OpAttemptFailed t k reason nx) st)"
    "\<exists>c t. w_store (snd (run_state (store_MarkFailed E k tr) w)) = Some (store_step (e_sha256 E) c (OpFailed t k tr) st)"
  using assms by (auto simp: store_MarkSent_def store_MarkAttemptFailed_def store_MarkFailed_def run_on_store)

lemma run_bind: "run_state (State_Monad.bind m f) w = (case run_state m w of (a, w') \<Rightarrow> run_state (f a) w')"
  by (simp add: case_prod_beta)

lemma fail_message_marked:
  assumes "w_store w = Some st" "\<And>t tr. tt_Attempted tr = attempted \<Longrightarrow> P (OpFailed t (ms_MessageID m) tr)"
  shows "marked E (ms_MessageID m) P st (snd (run_state (fail_message E s m reason ts attempted) w))"
proof -
  let ?tr = "terminalTransition s w reason ts attempted"
  obtain c t where "w_store (snd (run_state (store_MarkFailed E (ms_MessageID m) ?tr) w))
      = Some (store_step (e_sha256 E) c (OpFailed t (ms_MessageID m) ?tr) st)"
    using store_marks(3)[OF assms(1)] by blast
  moreover have "w_store (snd (run_state (fail_message E s m reason ts attempted) w))
      = w_store (snd (run_state (store_MarkFailed E (ms_MessageID m) ?tr) w))"
    by (simp add: fail_message_def case_prod_beta split: option.split)
  ultimately show ?thesis
    using assms(2)[of ?tr t] by (auto simp: terminalTransition_def intro!: marked_intro)
qed

lemma retry_failed_marked:
  assumes "w_store w = Some st" "\<And>oper. marks oper (ms_MessageID m) \<Longrightarrow> P oper"
  shows "marked E (ms_MessageID m) P st (snd (run_state (retry_failed E s m policy err) w))"
proof -
  let ?w = "w\<lparr>w_tick := Suc (w_tick w)\<rparr>" and ?t = "e_now E (w_tick w)"
  have st: "w_store ?w = Some st" using assms(1) by simp
  have fail: "marked E (ms_MessageID m) P st (snd (run_state (fail_message E s m reason ?t True) ?w))" for reason
    by (rule fail_message_marked[OF st assms(2)]) simp
  obtain nx w1 where nx: "run_state (next_retry E ?t policy (ms_Attempts m)) ?w = (nx, w1)" "w_store w1 = Some st"
    using assms(1) by (auto simp: next_retry_def)
  obtain c t where "w_store (snd (run_state (store_MarkAttemptFailed E (ms_MessageID m) (Error err) nx) w1))
      = Some (store_step (e_sha256 E) c (OpAttemptFailed t (ms_MessageID m) (Error err) nx) st)"
    using store_marks(2)[OF nx(2)] by blast
  then have "marked E (ms_MessageID m) P st (snd (run_state (store_MarkAttemptFailed E (ms_MessageID m) (Error err) nx) w1))"
    by (rule marked_intro[rotated 2]) (simp_all add: assms(2))
  then show ?thesis
    using fail nx(1) by (auto simp: retry_failed_def case_prod_beta split: option.split)
qed

lemma retry_sent_marked:
  assumes "w_store w = Some st" "\<And>oper. marks oper (ms_MessageID m) \<Longrightarrow> P oper"
  shows "marked E (ms_MessageID m) P st (snd (run_state (retry_sent E m policy resp) w))"
proof -
  let ?w = "w\<lparr>w_tick := Suc (w_tick w)\<rparr>" and ?t = "e_now E (w_tick w)"
  let ?sid = "pu_SessionID resp" and ?nx = "ackDeadline m policy (e_now E (w_tick w))"
  have st: "w_store ?w = Some st" using assms(1) by simp
  obtain c t t' where "w_store (snd (run_state (store_MarkSent E (ms_MessageID m) ?sid ?t ?nx) ?w))
      = Some (store_step (e_sha256 E) c (OpSent t t' (ms_MessageID m) ?sid ?t ?nx) st)"
    using store_marks(1)[OF st] by blast
  then have "marked E (ms_MessageID m) P st (snd (run_state (store_MarkSent E (ms_MessageID m) ?sid ?t ?nx) ?w))"
    by (rule marked_intro[rotated 2]) (simp_all add: assms(2))
  then show ?thesis
    by (simp add: retry_sent_def case_prod_beta split: option.split)
qed

definition within_limit :: "service \<Rightarrow> message \<Rightarrow> store_op \<Rightarrow> bool" where
  "within_limit s m oper \<longleftrightarrow> tries oper = None \<or> ms_Attempts m < dp_MaxAttempts (policyForMessage s m)"

lemma retryMessage_marked:
  assumes "w_store w = Some st"
  shows "marked E (ms_MessageID m) (within_limit s m) st (snd (run_state (retryMessage E s m) w))"
proof -
  let ?p = "policyForMessage s m"
  let ?w = "w\<lparr>w_tick := Suc (w_tick w)\<rparr>" and ?t = "e_now E (w_tick w)"
  have st: "w_store ?w = Some st" using assms by simp
  have fail: "marked E (ms_MessageID m) (within_limit s m) st (snd (run_state (fail_message E s m reason ?t False) ?w))" for reason
    by (rule fail_message_marked[OF st]) (simp add: within_limit_def)
  obtain r w1 where r: "run_state (deliverOnline E s (pushRequestFromMessage m)) ?w = (r, w1)" by fastforce
  have st1: "w_store w1 = Some st" using deliverOnline_store[OF r] st by simp
  have "marked E (ms_MessageID m) (within_limit s m) st (snd (run_state (case r of Inl err \<Rightarrow> retry_failed E s m ?p err
      | Inr resp \<Rightarrow> retry_sent E m ?p resp) w1))" if "ms_Attempts m < dp_MaxAttempts ?p"
    using retry_failed_marked[OF st1, of m "within_limit s m"] retry_sent_marked[OF st1, of m "within_limit s m"] that
    by (cases r) (simp_all add: within_limit_def)
  then show ?thesis
    using fail r st by (simp add: retryMessage_def Let_def marked_def[of _ _ _ _ "?w"] not_le)
qed

section \<open>What a scan selects\<close>

definition current :: "memory_store \<Rightarrow> message list \<Rightarrow> bool" where
  "current st ms \<longleftrightarrow> distinct (map ms_MessageID ms)
     \<and> (\<forall>m\<in>set ms. map_of (mem_messages st) (ms_MessageID m) = Some m \<and> open_status (ms_Status m))"

lemma distinct_limitMessages: "distinct (map ms_MessageID ms) \<Longrightarrow> distinct (map ms_MessageID (limitMessages ms limit))"
  by (simp add: limitMessages_def Let_def take_map[symmetric] distinct_take)

lemma distinct_fairRetrySelection:
  assumes "distinct (map ms_MessageID cs)"
  shows "distinct (map ms_MessageID (rs_Messages (fairRetrySelection cs limit)))"
proof -
  define n where "n = nat (if limit \<le> 0 then 100 else limit)"
  let ?ixs = "take n (deal_order n cs)"
  have ixs: "distinct ?ixs" "set ?ixs \<subseteq> {..<length cs}"
    using distinct_deal_order[of n cs] set_deal_order[of n cs] by (auto dest!: in_set_takeD)
  have inj: "inj_on (\<lambda>i. ms_MessageID (cs ! i)) {..<length cs}"
    using assms by (auto simp: inj_on_def distinct_conv_nth)
  have "distinct (map (\<lambda>i. ms_MessageID (cs ! i)) ?ixs)"
    unfolding distinct_map using ixs inj_on_subset[OF inj ixs(2)] by blast
  then show ?thesis
    unfolding fairRetrySelection_eq[OF n_def] by (simp add: comp_def)
qed

lemma distinct_candidates: "store_inv sha256 st \<Longrightarrow> distinct (map ms_MessageID (retryCandidatesLocked st ts a))"
  unfolding retryCandidatesLocked_def by (intro distinct_map_filter) (rule distinct_ids)

lemma current_candidates:
  assumes "store_inv sha256 st" "set ms \<subseteq> set (retryCandidatesLocked st ts a)" "distinct (map ms_MessageID ms)"
  shows "current st ms"
  unfolding current_def using candidate_stored(1)[OF assms(1)] candidate_stored(2) assms(2,3) by blast

lemma current_claimed:
  assumes inv: "store_inv sha256 st" and "set ms \<subseteq> set (retryCandidatesLocked st ts a)" "distinct (map ms_MessageID ms)"
  shows "current (st\<lparr>mem_messages := snd (claim_messages owner until t (mem_messages st) ms)\<rparr>)
    (fst (claim_messages owner until t (mem_messages st) ms))"
proof -
  have stored: "message_at (mem_messages st) (ms_MessageID m) = m" "open_status (ms_Status m)" if "m \<in> set ms" for m
    using that assms(2) candidate_stored(1)[OF inv, of m ts a] candidate_stored(2)[of m st ts a] by (auto simp: message_at_def)
  then have claimed: "fst (claim_messages owner until t (mem_messages st) ms) = map (claim_message owner until t) ms"
    by (simp add: claim_messages_result)
  have ids: "map ms_MessageID (map (claim_message owner until t) ms) = map ms_MessageID ms"
    by (simp add: claim_message_def)
  have "map_of (snd (claim_messages owner until t (mem_messages st) ms)) (ms_MessageID m) = Some (claim_message owner until t m)"
    if "m \<in> set ms" for m
    using claim_messages_stored[of "ms_MessageID m" ms owner until t "mem_messages st"] stored(1)[OF that] that by simp
  then show ?thesis
    unfolding current_def claimed ids using assms(3) stored(2) by (auto simp: claim_message_def)
qed

lemma ListDueRetryFair_current:
  assumes "store_inv sha256 st" "ListDueRetryFair clock c st ts a limit cl = Inr sel"
  shows "current st (rs_Messages sel)"
proof -
  obtain limit' cl' where norm: "normalizeRetrySelectionLimits limit cl = (limit', cl')" by fastforce
  let ?cs = "retryCandidatesLocked st (if is_zero ts then clock else ts) a"
  have sel: "sel = fairRetrySelection (limitMessages ?cs cl') limit'"
    using assms(2) by (auto simp: ListDueRetryFair_def norm Let_def split: option.splits)
  show ?thesis
    unfolding sel
    by (rule current_candidates[OF assms(1)])
      (use set_fairRetrySelection set_limitMessages in blast,
        intro distinct_fairRetrySelection distinct_limitMessages distinct_candidates[OF assms(1)])
qed

lemma ClaimDueRetryFair_current:
  assumes "store_inv sha256 st" "ClaimDueRetryFair clock c st ts a limit cl owner lease = (Inr sel, st1)"
  shows "current st1 (rs_Messages sel)"
proof (cases "owner = '''' \<or> c \<noteq> None")
  case True
  then show ?thesis
    using assms ListDueRetryFair_current[OF assms(1)] by (auto simp: ClaimDueRetryFair_def split: option.splits if_splits)
next
  case False
  obtain limit' cl' where norm: "normalizeRetrySelectionLimits limit cl = (limit', cl')" by fastforce
  let ?t = "if is_zero ts then clock else ts"
  let ?ms = "rs_Messages (fairRetrySelection (limitMessages (retryCandidatesLocked st ?t a) cl') limit')"
  have sub: "set ?ms \<subseteq> set (retryCandidatesLocked st ?t a)" using set_fairRetrySelection set_limitMessages by blast
  have dist: "distinct (map ms_MessageID ?ms)"
    by (intro distinct_fairRetrySelection distinct_limitMessages distinct_candidates[OF assms(1)])
  let ?u = "?t + (if lease \<le> 0 then 30 * second else lease)"
  have "rs_Messages sel = fst (claim_messages owner ?u ?t (mem_messages st) ?ms)"
    "st1 = st\<lparr>mem_messages := snd (claim_messages owner ?u ?t (mem_messages st) ?ms)\<rparr>"
    using assms(2) False by (auto simp: ClaimDueRetryFair_def Let_def norm case_prod_beta)
  then show ?thesis using current_claimed[OF assms(1) sub dist] by simp
qed

lemma listRetryMessages_current:
  assumes inv: "store_inv sha256 st" and "w_store w = Some st" "run_state (listRetryMessages E s ts limit) w = (Inr sel, w1)"
  obtains st1 where "w_store w1 = Some st1" "current st1 (rs_Messages sel)"
proof (cases "rf_Enabled (sv_retryFairness s)")
  case False
  then obtain c t where r: "map_sum id (\<lambda>ms. retrySelectionFromMessages ms RetrySelectionModeFIFO)
      (ListDueRetry t c st ts (sv_ackTimeout s) limit) = Inr sel" and w1: "w_store w1 = Some st"
    using assms(2,3) by (auto simp: listRetryMessages_def store_ListDueRetry_def run_on_store)
  let ?cs = "retryCandidatesLocked st (if is_zero ts then t else ts) (sv_ackTimeout s)"
  have "rs_Messages sel = limitMessages ?cs limit"
    using r by (auto simp: ListDueRetry_def Let_def split: option.splits)
  then have "current st (rs_Messages sel)"
    using current_candidates[OF inv set_limitMessages distinct_limitMessages[OF distinct_candidates[OF inv]]] by simp
  then show thesis using that w1 by blast
next
  case True
  let ?cl = "CandidateLimit (sv_retryFairness s) limit (qc_MaxPendingPerDevice (sv_queueCapacity s))"
  show thesis
  proof (cases "sv_retryClaimOwner s = ''''")
    case noowner: True
    then obtain c t where "ListDueRetryFair t c st ts (sv_ackTimeout s) limit ?cl = Inr sel" "w_store w1 = Some st"
      using True assms(2,3) by (auto simp: listRetryMessages_def store_ListDueRetryFair_def run_on_store Let_def)
    then show thesis using ListDueRetryFair_current[OF inv] that by blast
  next
    case False
    then obtain c t where "fst (ClaimDueRetryFair t c st ts (sv_ackTimeout s) limit ?cl (sv_retryClaimOwner s) (sv_retryClaimLease s)) = Inr sel"
       "w_store w1 = Some (snd (ClaimDueRetryFair t c st ts (sv_ackTimeout s) limit ?cl (sv_retryClaimOwner s) (sv_retryClaimLease s)))"
      using True assms(2,3) by (auto simp: listRetryMessages_def store_ClaimDueRetryFair_def run_on_store Let_def)
    then show thesis using ClaimDueRetryFair_current[OF inv] that by (metis prod.collapse)
  qed
qed

lemma pending_current:
  assumes inv: "store_inv sha256 st" and "w_store w = Some st"
    and "run_state (store_ListPendingByClientDevice E c d limit) w = (Inr ms, w')"
  shows "w_store w' = Some st" "current st ms"
proof -
  obtain t where t: "ms = limitMessages (filter (\<lambda>m. ms_Status m = MessageStatusPending \<and> \<not> claimActive m (t m)
      \<and> ms_ClientID m = c \<and> ms_DeviceID m = d) (vals (mem_messages st))) limit"
    using assms(2,3) by (auto simp: store_ListPendingByClientDevice_def run_on_store ListPendingByClientDevice_def split: option.splits)
  have "distinct (map ms_MessageID ms)"
    unfolding t by (intro distinct_limitMessages distinct_map_filter distinct_ids[OF inv])
  moreover have "map_of (mem_messages st) (ms_MessageID m) = Some m \<and> open_status (ms_Status m)" if "m \<in> set ms" for m
    using that set_limitMessages in_vals_stored[OF inv] unfolding t by (fastforce simp: open_status_def)
  ultimately show "current st ms" unfolding current_def by blast
  show "w_store w' = Some st"
    using assms(2,3) by (auto simp: store_ListPendingByClientDevice_def run_on_store)
qed

section \<open>The attempt limit\<close>

definition attempt_limit :: "service \<Rightarrow> message \<Rightarrow> int" where
  "attempt_limit s m = max 1 (dp_MaxAttempts (policyForMessage s m))"

definition attempts_ok :: "service \<Rightarrow> memory_store \<Rightarrow> bool" where
  "attempts_ok s st \<longleftrightarrow> (\<forall>k m. map_of (mem_messages st) k = Some m \<longrightarrow> ms_Attempts m \<le> attempt_limit s m)"

definition world_ok :: "env \<Rightarrow> service \<Rightarrow> world \<Rightarrow> bool" where
  "world_ok E s w \<longleftrightarrow> (case w_store w of None \<Rightarrow> True | Some st \<Rightarrow> store_inv (e_sha256 E) st \<and> attempts_ok s st)"

lemma attempt_limit_core: "core m' = core m \<Longrightarrow> attempt_limit s m' = attempt_limit s m"
  by (simp add: attempt_limit_def policyForMessage_def core_def message_identity_def)

lemma sparing_ok:
  assumes inv: "store_inv sha256 st" and len: "\<And>b. length (sha256 b) = 32" and "sparing oper" "attempts_ok s st"
  shows "attempts_ok s (store_step sha256 ctx oper st)"
  unfolding attempts_ok_def
proof (intro allI impI)
  fix k m' assume m': "map_of (mem_messages (store_step sha256 ctx oper st)) k = Some m'"
  show "ms_Attempts m' \<le> attempt_limit s m'"
  proof (cases "map_of (mem_messages st) k")
    case None
    obtain i t m cap where "oper = OpSave i t m cap" "m' = complete_message sha256 i t m"
      by (rule appears_saved[OF inv len None m'])
    then show ?thesis using assms(3) by (simp add: attempt_limit_def)
  next
    case (Some m)
    have "ms_Attempts m' \<le> max 0 (ms_Attempts m)"
      using sparing_attempts[OF inv len assms(3), of ctx] Some m' unfolding msgs_rel_def by blast
    moreover have "core m' = core m"
      using core_kept_step[OF inv len, of ctx oper] Some m' unfolding msgs_rel_def by blast
    moreover have "ms_Attempts m \<le> attempt_limit s m" using assms(4) Some unfolding attempts_ok_def by blast
    ultimately show ?thesis using attempt_limit_core[of m' m s] by (simp add: attempt_limit_def)
  qed
qed

lemma sparing_run_ok:
  assumes len: "\<And>b. length (sha256 b) = 32"
  shows "store_inv sha256 st \<Longrightarrow> attempts_ok s st \<Longrightarrow> (\<forall>x\<in>set ops. sparing (snd x)) \<Longrightarrow> attempts_ok s (store_run sha256 ops st)"
proof (induction ops arbitrary: st)
  case (Cons x ops)
  then show ?case
    using sparing_ok[OF Cons.prems(1) len, of "snd x" s "fst x"] store_step_inv[OF len Cons.prems(1), of "fst x" "snd x"] by simp
qed simp

lemma evolves_ok:
  assumes len: "\<And>b. length (e_sha256 E b) = 32" and "evolves (e_sha256 E) sparing w w'" "world_ok E s w"
  shows "world_ok E s w'"
proof (cases "w_store w")
  case None
  then show ?thesis using assms(2) by (simp add: evolves_def world_ok_def)
next
  case (Some st)
  obtain ops where ops: "\<forall>x\<in>set ops. sparing (snd x)" "w_store w' = Some (store_run (e_sha256 E) ops st)"
    by (rule evolves_Some[OF assms(2) Some])
  have "store_inv (e_sha256 E) st" "attempts_ok s st" using assms(3) Some by (simp_all add: world_ok_def)
  then show ?thesis
    using sparing_run_ok[OF len _ _ ops(1)] store_run_inv[OF len] ops(2) by (simp add: world_ok_def)
qed

text \<open>Marking a message that is still below the limit.\<close>

lemma marked_ok:
  assumes len: "\<And>b. length (e_sha256 E b) = 32" and inv: "store_inv (e_sha256 E) st" and ok: "attempts_ok s st"
    and m: "map_of (mem_messages st) (ms_MessageID m) = Some m" and "marked E (ms_MessageID m) (within_limit s m) st w'"
  obtains st' where "w_store w' = Some st'" "store_inv (e_sha256 E) st'" "attempts_ok s st'"
    "\<forall>k. k \<noteq> ms_MessageID m \<longrightarrow> map_of (mem_messages st') k = map_of (mem_messages st) k"
proof (cases "w_store w' = Some st")
  case True
  then show thesis using that inv ok by blast
next
  case False
  then obtain c oper where op: "marks oper (ms_MessageID m)" "within_limit s m oper" "w_store w' = Some (store_step (e_sha256 E) c oper st)"
    using assms(5) unfolding marked_def by blast
  let ?st = "store_step (e_sha256 E) c oper st"
  obtain m' where m': "map_of (mem_messages ?st) (ms_MessageID m) = Some m'" "core m' = core m"
      "ms_Attempts m' \<le> ms_Attempts m + (if tries oper = None then 0 else 1)"
    by (rule marks_attempts[OF op(1) m])
  have "ms_Attempts m \<le> attempt_limit s m" using ok m unfolding attempts_ok_def by blast
  then have "ms_Attempts m' \<le> attempt_limit s m'"
    using op(2) m'(3) attempt_limit_core[OF m'(2), of s] by (auto simp: within_limit_def attempt_limit_def split: if_splits)
  then have "attempts_ok s ?st"
    using ok marks_other[OF op(1)] m'(1) unfolding attempts_ok_def by (metis option.inject)
  then show thesis
    using that[OF op(3) store_step_inv[OF len inv]] marks_other[OF op(1)] by blast
qed

lemma retry_loop_ok:
  assumes len: "\<And>b. length (e_sha256 E b) = 32"
  shows "w_store w = Some st \<Longrightarrow> store_inv (e_sha256 E) st \<Longrightarrow> attempts_ok s st \<Longrightarrow> current st ms \<Longrightarrow>
    world_ok E s (snd (run_state (retry_loop E s res ms) w))"
proof (induction ms arbitrary: w st res)
  case Nil
  then show ?case by (simp add: world_ok_def)
next
  case (Cons m ms)
  let ?w = "w\<lparr>w_tick := Suc (w_tick w)\<rparr>"
  have st: "w_store ?w = Some st" using Cons.prems(1) by simp
  have m: "map_of (mem_messages st) (ms_MessageID m) = Some m" using Cons.prems(4) by (simp add: current_def)
  obtain r w1 where r: "run_state (retryMessage E s m) ?w = (r, w1)" by fastforce
  have "marked E (ms_MessageID m) (within_limit s m) st w1"
    using retryMessage_marked[OF st, of E m s] r by simp
  then obtain st' where st': "w_store w1 = Some st'" "store_inv (e_sha256 E) st'" "attempts_ok s st'"
      "\<forall>k. k \<noteq> ms_MessageID m \<longrightarrow> map_of (mem_messages st') k = map_of (mem_messages st) k"
    by (rule marked_ok[OF len Cons.prems(2,3) m])
  have "ms_MessageID x \<noteq> ms_MessageID m" if "x \<in> set ms" for x
    using Cons.prems(4) that by (force simp: current_def)
  then have "current st' ms" using Cons.prems(4) st'(4) by (simp add: current_def)
  note IH = Cons.IH[OF st'(1-3) this]
  show ?case
  proof (cases "e_ctx E (w_tick w)")
    case (Some e)
    then show ?thesis using Cons.prems by (simp add: world_ok_def)
  next
    case None
    show ?thesis
      using None r IH st'(1-3) by (cases r) (simp_all add: world_ok_def)
  qed
qed

lemma RetryDue_ok:
  assumes len: "\<And>b. length (e_sha256 E b) = 32" and ok: "world_ok E s w"
  shows "world_ok E s (snd (run_state (RetryDue E s limit) w))"
proof (cases "w_store w")
  case None
  then show ?thesis by (simp add: RetryDue_def world_ok_def)
next
  case (Some st)
  let ?ts = "e_now E (w_tick w)" and ?w0 = "w\<lparr>w_tick := Suc (w_tick w)\<rparr>"
  obtain r w1 where list: "run_state (listRetryMessages E s ?ts limit) ?w0 = (r, w1)" by fastforce
  have "evo.resp (e_sha256 E) sparing (listRetryMessages E s ?ts limit)"
    by (auto simp: listRetryMessages_def Let_def intro!: evo_writes)
  then have "evolves (e_sha256 E) sparing ?w0 w1" using list unfolding evo.resp_def by (metis snd_conv)
  then have ok1: "world_ok E s w1"
    by (rule evolves_ok[OF len]) (use ok in \<open>simp add: world_ok_def\<close>)
  show ?thesis
  proof (cases r)
    case (Inl err)
    then show ?thesis using ok1 list Some by (simp add: RetryDue_def)
  next
    case (Inr sel)
    have inv: "store_inv (e_sha256 E) st" and st0: "w_store ?w0 = Some st" using ok Some by (simp_all add: world_ok_def)
    obtain st1 where st1: "w_store w1 = Some st1" "current st1 (rs_Messages sel)"
      by (rule listRetryMessages_current[OF inv st0 list[unfolded Inr]])
    then have "world_ok E s (snd (run_state (retry_loop E s zero_retry_result (rs_Messages sel)) w1))"
      using retry_loop_ok[OF len st1(1) _ _ st1(2)] ok1 by (simp add: world_ok_def)
    then show ?thesis
      using list Some Inr by (simp add: RetryDue_def retryMessages_def case_prod_beta)
  qed
qed

lemma Flush_ok:
  assumes len: "\<And>b. length (e_sha256 E b) = 32" and ok: "world_ok E s w"
  shows "world_ok E s (snd (run_state (FlushClientDevice E s c d limit) w))"
proof (cases "w_store w = None \<or> c = '''' \<or> d = ''''")
  case True
  then show ?thesis using ok by (auto simp: FlushClientDevice_def)
next
  case False
  then obtain st where st: "w_store w = Some st" by auto
  have inv: "store_inv (e_sha256 E) st" "attempts_ok s st" using ok st by (simp_all add: world_ok_def)
  obtain r w1 where list: "run_state (store_ListPendingByClientDevice E c d limit) w = (r, w1)" by fastforce
  show ?thesis
  proof (cases r)
    case (Inl err)
    have "w_store w1 = Some st" using list st by (auto simp: store_ListPendingByClientDevice_def run_on_store)
    then show ?thesis using list Inl st False inv by (simp add: FlushClientDevice_def world_ok_def)
  next
    case (Inr ms)
    note p = pending_current[OF inv(1) st list[unfolded Inr]]
    show ?thesis
      using retry_loop_ok[OF len p(1) inv p(2)] list Inr st False by (simp add: FlushClientDevice_def retryMessages_def)
  qed
qed

lemma first_attempt_marked:
  assumes "w_store w = Some st"
  shows "marked E (ms_MessageID m) (\<lambda>oper. True) st (snd (run_state (first_attempt E s m) w))"
proof -
  obtain r w1 where r: "run_state (deliverOnline E s (pushRequestFromMessage m)) w = (r, w1)" by fastforce
  have st1: "w_store w1 = Some st" using deliverOnline_store[OF r] assms by simp
  let ?w = "w1\<lparr>w_tick := Suc (w_tick w1)\<rparr>" and ?t = "e_now E (w_tick w1)" and ?k = "ms_MessageID m"
  have st2: "w_store ?w = Some st" using st1 by simp
  show ?thesis
  proof (cases r)
    case (Inl err)
    obtain nx w2 where nx: "run_state (next_retry E ?t (ms_Policy m) (ms_Attempts m)) ?w = (nx, w2)" "w_store w2 = Some st"
      using st1 by (auto simp: next_retry_def)
    obtain c t where "w_store (snd (run_state (store_MarkAttemptFailed E ?k (Error err) nx) w2))
        = Some (store_step (e_sha256 E) c (OpAttemptFailed t ?k (Error err) nx) st)"
      using store_marks(2)[OF nx(2)] by blast
    then have "marked E ?k (\<lambda>oper. True) st (snd (run_state (store_MarkAttemptFailed E ?k (Error err) nx) w2))"
      by (rule marked_intro[rotated 2]) simp_all
    then show ?thesis using r Inl nx(1) by (simp add: first_attempt_def case_prod_beta split: option.split)
  next
    case (Inr resp)
    let ?nx = "ackDeadline m (ms_Policy m) ?t" and ?sid = "pu_SessionID resp"
    obtain c t t' where "w_store (snd (run_state (store_MarkSent E ?k ?sid ?t ?nx) ?w))
        = Some (store_step (e_sha256 E) c (OpSent t t' ?k ?sid ?t ?nx) st)"
      using store_marks(1)[OF st2] by blast
    then have "marked E ?k (\<lambda>oper. True) st (snd (run_state (store_MarkSent E ?k ?sid ?t ?nx) ?w))"
      by (rule marked_intro[rotated 2]) simp_all
    then show ?thesis using r Inr by (simp add: first_attempt_def case_prod_beta split: option.split)
  qed
qed

lemma first_marked_ok:
  assumes len: "\<And>b. length (e_sha256 E b) = 32" and inv: "store_inv (e_sha256 E) st" and ok: "attempts_ok s st"
    and m: "map_of (mem_messages st) k = Some m" "ms_Attempts m = 0" and "marked E k (\<lambda>oper. True) st w'"
  shows "world_ok E s w'"
proof (cases "w_store w' = Some st")
  case True
  then show ?thesis using inv ok by (simp add: world_ok_def)
next
  case False
  then obtain c oper where op: "marks oper k" "w_store w' = Some (store_step (e_sha256 E) c oper st)"
    using assms(6) unfolding marked_def by blast
  let ?st = "store_step (e_sha256 E) c oper st"
  obtain m' where m': "map_of (mem_messages ?st) k = Some m'" "ms_Attempts m' \<le> ms_Attempts m + (if tries oper = None then 0 else 1)"
    by (rule marks_attempts[OF op(1) m(1)])
  then have "ms_Attempts m' \<le> attempt_limit s m'"
    using m(2) by (auto simp: attempt_limit_def split: if_splits)
  then have "attempts_ok s ?st"
    using ok marks_other[OF op(1)] m'(1) unfolding attempts_ok_def by (metis option.inject)
  then show ?thesis using op(2) store_step_inv[OF len inv] by (simp add: world_ok_def)
qed

lemma Push_ok:
  assumes len: "\<And>b. length (e_sha256 E b) = 32" and ok: "world_ok E s w"
  shows "world_ok E s (snd (run_state (Push E s req) w))"
proof (cases "validatePushRequest req = None \<and> w_store w \<noteq> None")
  case False
  have "w_store (snd (run_state (deliverOnline E s req) w)) = w_store w"
    using deliverOnline_store by (metis prod.collapse)
  then show ?thesis using False ok by (cases "validatePushRequest req") (auto simp: Push_def world_ok_def)
next
  case True
  then obtain st where st: "w_store w = Some st" and valid: "validatePushRequest req = None" by auto
  have inv: "store_inv (e_sha256 E) st" "attempts_ok s st" using ok st by (simp_all add: world_ok_def)
  obtain i t c j ts w1 cap where w1: "w_store w1 = Some (snd (SaveWithCapacity (e_sha256 E) i t c st (new_message s j req ts) cap))"
    and r: "run_state (pushReliable E s req) w =
      (case fst (SaveWithCapacity (e_sha256 E) i t c st (new_message s j req ts) cap) of
         Inl err \<Rightarrow> (Inl (wrap_store_err err), w1)
       | Inr res \<Rightarrow> (case sr_Outcome res of
           SaveOutcomeExisting \<Rightarrow> (Inr (pushResponseFromStoredMessage (sr_Message res) SubmissionStateExisting), w1)
         | SaveOutcomeConflict \<Rightarrow> (Inl (DlErrMessageIDConflict (ms_MessageID (sr_Message res))), w1)
         | SaveOutcomeCreated \<Rightarrow> run_state (first_attempt E s (sr_Message res)) w1))"
    by (rule pushReliable_run[OF st]) blast
  let ?m = "new_message s j req ts"
  obtain x st1 where save: "SaveWithCapacity (e_sha256 E) i t c st ?m cap = (x, st1)" by fastforce
  have ok1: "store_inv (e_sha256 E) st1" "attempts_ok s st1" "w_store w1 = Some st1"
    using sparing_ok[OF inv(1) len _ inv(2), of "OpSave i t ?m cap" c] store_step_inv[OF len inv(1), of c "OpSave i t ?m cap"] save w1
    by simp_all
  have run: "run_state (Push E s req) w = run_state (pushReliable E s req) w" using valid st by (simp add: Push_def)
  show ?thesis
  proof (cases "\<exists>res. x = Inr res \<and> sr_Outcome res = SaveOutcomeCreated")
    case True
    then obtain res where res: "x = Inr res" "sr_Outcome res = SaveOutcomeCreated" by blast
    have c: "c = None" using save res(1) by (cases c) (simp_all add: SaveWithCapacity_def)
    note saved = Save_result[OF inv(1) len save[unfolded c res(1)]]
    have "ms_Attempts (sr_Message res) = 0" using saved(4)[OF res(2)] by simp
    from first_marked_ok[OF len ok1(1,2) saved(1) this first_attempt_marked[OF ok1(3)]]
    show ?thesis using run r save res by simp
  next
    case False
    then show ?thesis
      using run r save ok1 by (cases x) (auto simp: world_ok_def split: save_outcome.split)
  qed
qed

lemma sparing_publish_loop: "evo.resp sha256 sparing (publish_loop E s res recs)"
  by (induction recs arbitrary: res) (auto simp: publish_one_def intro!: evo_writes)

lemma sparing_PublishTerminalDue: "evo.resp sha256 sparing (PublishTerminalDue E s limit)"
  by (auto simp: PublishTerminalDue_def intro!: sparing_publish_loop evo_writes)

lemma service_step_ok:
  assumes len: "\<And>b. length (e_sha256 E b) = 32" and ok: "world_ok E s w"
  shows "world_ok E s (service_step E s oper w)"
proof (cases oper)
  case (SPush req)
  show ?thesis unfolding SPush service_step.simps by (rule Push_ok[OF len ok])
next
  case (SPushPeer req node)
  show ?thesis unfolding SPushPeer service_step.simps by (rule evolves_ok[OF len evoD ok]) (rule evo_PushPeer)
next
  case (SMessageStatus k)
  show ?thesis unfolding SMessageStatus service_step.simps by (rule evolves_ok[OF len evoD ok]) (rule evo_inspect)
next
  case (SListMessagesPage q)
  show ?thesis unfolding SListMessagesPage service_step.simps by (rule evolves_ok[OF len evoD ok]) (rule evo_inspect)
next
  case (SRequeue k)
  show ?thesis unfolding SRequeue service_step.simps by (rule evolves_ok[OF len evoD ok]) (rule evo_ServiceRequeue, simp)
next
  case (SRequeueFailed k)
  show ?thesis unfolding SRequeueFailed service_step.simps by (rule evolves_ok[OF len evoD ok]) (rule evo_ServiceRequeue, simp)
next
  case (SDiscard k reason)
  show ?thesis unfolding SDiscard service_step.simps by (rule evolves_ok[OF len evoD ok]) (rule evo_ServiceDiscard, simp)
next
  case (SAck c d req)
  show ?thesis unfolding SAck service_step.simps by (rule evolves_ok[OF len evoD ok]) (rule evo_Ack, simp)
next
  case (SRetryDue limit)
  show ?thesis unfolding SRetryDue service_step.simps by (rule RetryDue_ok[OF len ok])
next
  case (SFlush c d limit)
  show ?thesis unfolding SFlush service_step.simps by (rule Flush_ok[OF len ok])
next
  case (SPublishTerminalDue limit)
  show ?thesis unfolding SPublishTerminalDue service_step.simps
    by (rule evolves_ok[OF len evoD ok]) (rule sparing_PublishTerminalDue)
next
  case (SCleanup policy)
  show ?thesis unfolding SCleanup service_step.simps by (rule evolves_ok[OF len evoD ok]) (rule evo_CleanupExpired, simp)
qed

lemma reachable_ok:
  assumes len: "\<And>b. length (e_sha256 E b) = 32"
  shows "service_reachable E s w \<Longrightarrow> world_ok E s w"
proof (induction rule: service_reachable.induct)
  case (world_start w)
  then show ?case using store_inv_New[of "e_sha256 E"] by (auto simp: world_ok_def attempts_ok_def NewMemoryStore_def)
next
  case (world_step w oper)
  then show ?case using service_step_ok[OF len] by blast
next
  case (world_other w sessions registry n)
  then show ?case by (simp add: world_ok_def)
qed



end
