(* ===== verification/Downlink_Liveness.thy ===== *)
theory Downlink_Liveness
  imports Downlink_Attempts
begin

text \<open>
  Progress of the retry scans: with a live context every selected message is processed, the counters of
  the answer add up, and a pending message whose time has come goes out when its device is online.
\<close>

section \<open>Small scans select every due message\<close>

lemma set_limitMessages_all: "int (length ms) \<le> limit \<Longrightarrow> set (limitMessages ms limit) = set ms"
  by (simp add: limitMessages_def Let_def)

lemma occ_le: "occ cs i \<le> i"
  unfolding occ_def by (metis length_filter_le length_upt minus_nat.diff_0)

lemma set_fairRetrySelection_all:
  assumes "int (length cs) \<le> limit" "cs \<noteq> []"
  shows "set (rs_Messages (fairRetrySelection cs limit)) = set cs"
proof -
  define n where "n = nat (if limit \<le> 0 then 100 else limit)"
  have n: "length cs \<le> n" using assms by (cases cs) (auto simp: n_def)
  have "occ cs i < n" if "i < length cs" for i using occ_le[of cs i] that n by linarith
  then have set: "set (deal_order n cs) = {..<length cs}" by (auto simp: set_deal_order)
  then have "length (deal_order n cs) = length cs"
    using distinct_card[OF distinct_deal_order, of n cs] by simp
  then have "set (take n (deal_order n cs)) = {..<length cs}" using n set by simp
  then show ?thesis
    unfolding fairRetrySelection_eq[OF n_def] set_map by (auto simp: set_conv_nth[of cs])
qed

lemma length_candidates: "length (retryCandidatesLocked st ts a) \<le> length (mem_messages st)"
  unfolding retryCandidatesLocked_def by (metis length_filter_le length_map)

lemma fair_selects:
  assumes "int (length (mem_messages st)) \<le> limit" "m \<in> set (retryCandidatesLocked st ts a)"
    and "normalizeRetrySelectionLimits limit cl = (limit', cl')"
  shows "m \<in> set (rs_Messages (fairRetrySelection (limitMessages (retryCandidatesLocked st ts a) cl') limit'))"
proof -
  let ?cs = "retryCandidatesLocked st ts a"
  have len: "int (length ?cs) \<le> limit" using length_candidates[of st ts a] assms(1) by linarith
  have "0 < length ?cs" using assms(2) by (metis length_pos_if_in_set)
  then have pos: "0 < limit" using len by linarith
  have lim: "limit' = limit" "limit \<le> cl'"
    using assms(3) len pos by (auto simp: normalizeRetrySelectionLimits_def Let_def split: if_splits)
  have all: "set (limitMessages ?cs cl') = set ?cs" by (rule set_limitMessages_all) (use len lim in linarith)
  have "length (limitMessages ?cs cl') \<le> length ?cs" by (simp add: limitMessages_def Let_def)
  then show ?thesis
    using set_fairRetrySelection_all[of "limitMessages ?cs cl'" limit'] all assms(2) len lim(1) by fastforce
qed

text \<open>The message as selected: as it is stored, but for a claim.\<close>

definition reclaimed :: "message \<Rightarrow> message \<Rightarrow> bool" where
  "reclaimed m m' \<longleftrightarrow> (\<exists>owner until ts. m' = claim_message owner until ts m)"

lemma reclaimed_self: "reclaimed m m"
  unfolding reclaimed_def using claim_message_self[of m] by metis

lemma reclaimedD:
  assumes "reclaimed m m'"
  shows "pushRequestFromMessage m' = pushRequestFromMessage m" "ms_Attempts m' = ms_Attempts m" "ms_Status m' = ms_Status m"
    "policyForMessage s m' = policyForMessage s m" "policyMaxAgeExceeded m' p t = policyMaxAgeExceeded m p t"
    "ms_MessageID m' = ms_MessageID m"
  using assms
  by (auto simp: reclaimed_def claim_message_def pushRequestFromMessage_def policyForMessage_def policyMaxAgeExceeded_def)

lemma ListDueRetry_selects:
  assumes "int (length (mem_messages st)) \<le> limit" "\<not> is_zero ts" "m \<in> set (retryCandidatesLocked st ts a)"
  shows "\<exists>ms. ListDueRetry t None st ts a limit = Inr ms \<and> m \<in> set ms"
proof -
  have "int (length (retryCandidatesLocked st ts a)) \<le> limit" using length_candidates[of st ts a] assms(1) by linarith
  from set_limitMessages_all[OF this] show ?thesis using assms(2,3) by (simp add: ListDueRetry_def)
qed

lemma ListDueRetryFair_selects:
  assumes "int (length (mem_messages st)) \<le> limit" "\<not> is_zero ts" "m \<in> set (retryCandidatesLocked st ts a)"
  shows "\<exists>sel. ListDueRetryFair t None st ts a limit cl = Inr sel \<and> m \<in> set (rs_Messages sel)"
proof -
  obtain limit' cl' where norm: "normalizeRetrySelectionLimits limit cl = (limit', cl')" by fastforce
  from fair_selects[OF assms(1,3) norm] show ?thesis using assms(2) by (simp add: ListDueRetryFair_def norm)
qed

lemma ClaimDueRetryFair_selects:
  assumes inv: "store_inv sha256 st" and "int (length (mem_messages st)) \<le> limit" "\<not> is_zero ts"
    and m: "m \<in> set (retryCandidatesLocked st ts a)" and "owner \<noteq> ''''"
  shows "\<exists>sel m'. fst (ClaimDueRetryFair t None st ts a limit cl owner lease) = Inr sel \<and> m' \<in> set (rs_Messages sel) \<and> reclaimed m m'"
proof -
  obtain limit' cl' where norm: "normalizeRetrySelectionLimits limit cl = (limit', cl')" by fastforce
  let ?ms = "rs_Messages (fairRetrySelection (limitMessages (retryCandidatesLocked st ts a) cl') limit')"
  let ?u = "ts + (if lease \<le> 0 then 30 * second else lease)"
  have "message_at (mem_messages st) (ms_MessageID m) = m"
    using candidate_stored(1)[OF inv m] by (simp add: message_at_def)
  then have "claim_message owner ?u ts m \<in> set (fst (claim_messages owner ?u ts (mem_messages st) ?ms))"
    using fair_selects[OF assms(2) m norm] unfolding claim_messages_result by force
  moreover have "\<exists>sel. fst (ClaimDueRetryFair t None st ts a limit cl owner lease) = Inr sel
      \<and> rs_Messages sel = fst (claim_messages owner ?u ts (mem_messages st) ?ms)"
    using assms(3,5) by (simp add: ClaimDueRetryFair_def Let_def norm case_prod_beta)
  moreover have "reclaimed m (claim_message owner ?u ts m)" unfolding reclaimed_def by blast
  ultimately show ?thesis by metis
qed

lemma listRetryMessages_selects:
  assumes inv: "store_inv sha256 st" and st: "w_store w = Some st" and ctx: "\<And>n. e_ctx E n = None"
    and "int (length (mem_messages st)) \<le> limit" "\<not> is_zero ts" "m \<in> set (retryCandidatesLocked st ts (sv_ackTimeout s))"
  obtains sel w1 m' where "run_state (listRetryMessages E s ts limit) w = (Inr sel, w1)" "m' \<in> set (rs_Messages sel)" "reclaimed m m'"
proof (cases "rf_Enabled (sv_retryFairness s)")
  case False
  obtain ms where "ListDueRetry (e_now E (Suc (w_tick w))) None st ts (sv_ackTimeout s) limit = Inr ms" "m \<in> set ms"
    using ListDueRetry_selects[OF assms(4-6)] by blast
  then show thesis
    using that[of "retrySelectionFromMessages ms RetrySelectionModeFIFO" _ m] False st ctx reclaimed_self
    by (auto simp: listRetryMessages_def store_ListDueRetry_def run_on_store)
next
  case True
  let ?cl = "CandidateLimit (sv_retryFairness s) limit (qc_MaxPendingPerDevice (sv_queueCapacity s))"
  show thesis
  proof (cases "sv_retryClaimOwner s = ''''")
    case noowner: True
    obtain sel where "ListDueRetryFair (e_now E (Suc (w_tick w))) None st ts (sv_ackTimeout s) limit ?cl = Inr sel" "m \<in> set (rs_Messages sel)"
      using ListDueRetryFair_selects[OF assms(4-6)] by blast
    then show thesis
      using that[of sel _ m] True noowner st ctx reclaimed_self
      by (auto simp: listRetryMessages_def store_ListDueRetryFair_def run_on_store Let_def)
  next
    case False
    obtain sel m' where "fst (ClaimDueRetryFair (e_now E (Suc (w_tick w))) None st ts (sv_ackTimeout s) limit ?cl (sv_retryClaimOwner s)
        (sv_retryClaimLease s)) = Inr sel" "m' \<in> set (rs_Messages sel)" "reclaimed m m'"
      using ClaimDueRetryFair_selects[OF inv assms(4-6) False] by blast
    then show thesis
      using that[of sel _ m'] True False st ctx
      by (auto simp: listRetryMessages_def store_ClaimDueRetryFair_def run_on_store Let_def)
  qed
qed

section \<open>Every selected message is processed\<close>

lemma marks_succeed:
  assumes "w_store w = Some st" "map_of (mem_messages st) k = Some m" "\<And>n. e_ctx E n = None"
  shows "fst (run_state (store_MarkSent E k sid ts nx) w) = None"
    "fst (run_state (store_MarkAttemptFailed E k reason nx) w) = None"
    "fst (run_state (store_MarkFailed E k tr) w) = None"
  using assms
  by (simp_all add: store_MarkSent_def store_MarkAttemptFailed_def store_MarkFailed_def run_on_store MarkSent_def
      MarkAttemptFailed_def MarkFailed_def Let_def case_prod_beta)

lemma retryMessage_succeeds:
  assumes st: "w_store w = Some st" and m: "map_of (mem_messages st) (ms_MessageID m) = Some m0" and ctx: "\<And>n. e_ctx E n = None"
  shows "\<exists>status. fst (run_state (retryMessage E s m) w) = Inr status"
proof -
  let ?w = "w\<lparr>w_tick := Suc (w_tick w)\<rparr>"
  have st0: "w_store ?w = Some st" using st by simp
  have fail: "fst (run_state (fail_message E s m reason t att) w') = Inr MessageStatusFailed" if "w_store w' = Some st" for reason t att w'
    using marks_succeed(3)[OF that m ctx] by (simp add: fail_message_def case_prod_beta)
  obtain r w1 where r: "run_state (deliverOnline E s (pushRequestFromMessage m)) ?w = (r, w1)" by fastforce
  have st1: "w_store w1 = Some st" using deliverOnline_store[OF r] st0 by simp
  have "\<exists>status. fst (run_state (retry_failed E s m p err) w1) = Inr status" for p err
    using fail marks_succeed(2)[OF _ m ctx] st1 by (simp add: retry_failed_def next_retry_def case_prod_beta)
  moreover have "\<exists>status. fst (run_state (retry_sent E m p resp) w1) = Inr status" for p resp
    using marks_succeed(1)[OF _ m ctx] st1 by (simp add: retry_sent_def case_prod_beta)
  ultimately show ?thesis
    using r fail[OF st0] by (cases r) (auto simp: retryMessage_def Let_def)
qed

lemma retryMessage_frame:
  assumes "w_store w = Some st" "run_state (retryMessage E s m) w = (r, w')"
  obtains st' where "w_store w' = Some st'" "\<forall>k. k \<noteq> ms_MessageID m \<longrightarrow> map_of (mem_messages st') k = map_of (mem_messages st) k"
proof -
  have "marked E (ms_MessageID m) (within_limit s m) st w'"
    using retryMessage_marked[OF assms(1), of E m s] assms(2) by simp
  then show thesis
    using that marks_other unfolding marked_def by blast
qed

lemma retryMessage_sent:
  assumes "run_state (retryMessage E s m) w = (r, w')"
  obtains new where "w_sent w' = new @ w_sent w" "w_sessions w' = w_sessions w"
proof -
  have "sends (\<lambda>_ _. True) w w'"
    by (rule snd_relD[OF snd_retryMessage assms]) simp
  then show thesis using that unfolding sends_def by blast
qed

text \<open>What a device needs to get its message.\<close>

definition deliverable :: "env \<Rightarrow> service \<Rightarrow> manager \<Rightarrow> session \<Rightarrow> message \<Rightarrow> bool" where
  "deliverable E s sessions ss m \<longleftrightarrow> ms_Status m = MessageStatusPending
     \<and> ms_Attempts m < dp_MaxAttempts (policyForMessage s m) \<and> (\<forall>n. \<not> policyMaxAgeExceeded m (policyForMessage s m) (e_now E n))
     \<and> GetByClientDevice sessions (ms_ClientID m) (ms_DeviceID m) = (Some ss, True)
     \<and> (\<forall>ts. encodable (downlink_packet (pushRequestFromMessage m) ss ts))
     \<and> (\<forall>n. e_conn E n (ss_ConnID ss) = None \<and> e_send E n (ss_ConnID ss) = None)"

definition sent_out :: "world \<Rightarrow> message \<Rightarrow> session \<Rightarrow> bool" where
  "sent_out w m ss \<longleftrightarrow> (\<exists>st m'. w_store w = Some st \<and> map_of (mem_messages st) (ms_MessageID m) = Some m'
     \<and> ms_Status m' = MessageStatusSent \<and> ms_Attempts m' = ms_Attempts m + 1)
     \<and> (\<exists>x\<in>set (w_sent w). fst x = ss_ConnID ss \<and> sent_id x = Some (ms_MessageID m))"

lemma deliverOnline_online:
  assumes "deliverable E s (w_sessions w) ss m"
  obtains resp w' data packet ts where "run_state (deliverOnline E s (pushRequestFromMessage m)) w = (Inr resp, w')"
    "w_sent w' = (ss_ConnID ss, pkt_MsgID packet, data) # w_sent w"
    "Encode (Some (downlink_packet (pushRequestFromMessage m) ss ts)) = Inr (data, packet)"
proof -
  let ?r = "pushRequestFromMessage m" and ?ts = "e_now E (Suc (w_tick w))"
  have get: "GetByClientDevice (w_sessions w) (rq_ClientID ?r) (rq_DeviceID ?r) = (Some ss, True)"
    using assms by (simp add: deliverable_def pushRequestFromMessage_def)
  have net: "e_conn E n (ss_ConnID ss) = None" "e_send E n (ss_ConnID ss) = None" for n
    using assms by (simp_all add: deliverable_def)
  obtain data packet where enc: "Encode (Some (downlink_packet ?r ss ?ts)) = Inr (data, packet)"
    using assms unfolding deliverable_def Encode_Inr_iff by blast
  obtain resp w' where "run_state (deliverOnline E s ?r) w = (Inr resp, w')" "w_sent w' = (ss_ConnID ss, pkt_MsgID packet, data) # w_sent w"
    using get net enc by (simp add: deliverOnline_def pushOnline_def pushOnlineWithSession_def)
  then show thesis using that enc by blast
qed

lemma Encode_sent_id:
  assumes "Encode (Some (downlink_packet r ss ts)) = Inr (data, packet)"
  shows "sent_id (c, i, data) = Some (rq_MessageID r)"
proof -
  have enc: "encodable (downlink_packet r ss ts)" "data = header_bytes (downlink_packet r ss ts) @ variable_bytes (downlink_packet r ss ts)"
    using assms unfolding Encode_Inr_iff by blast+
  then have "length (pkt_Body (downlink_packet r ss ts)) \<le> unat (- 1 :: 32 word)"
    using unat_max_word by (simp add: encodable_def)
  then show ?thesis
    using DecodeWithMaxBodySize_header_variable[OF enc(1)] enc(2) by (simp add: sent_id_def downlink_packet_fields)
qed

lemma MarkSent_open:
  assumes "map_of (mem_messages st) k = Some m" "ms_Status m = MessageStatusPending"
  shows "\<exists>m'. map_of (mem_messages (snd (MarkSent t t' None st k sid ts nx))) k = Some m' \<and> ms_Status m' = MessageStatusSent
    \<and> ms_Attempts m' = ms_Attempts m + 1"
  using assms by (simp add: MarkSent_def Let_def update_message_def)

lemma retryMessage_delivers:
  assumes st: "w_store w = Some st" and m: "map_of (mem_messages st) (ms_MessageID m) = Some m" and ctx: "\<And>n. e_ctx E n = None"
    and d: "deliverable E s (w_sessions w) ss m"
  shows "sent_out (snd (run_state (retryMessage E s m) w)) m ss"
proof -
  let ?w = "w\<lparr>w_tick := Suc (w_tick w)\<rparr>" and ?p = "policyForMessage s m"
  have d0: "deliverable E s (w_sessions ?w) ss m" using d by simp
  obtain resp w1 data packet ts where r: "run_state (deliverOnline E s (pushRequestFromMessage m)) ?w = (Inr resp, w1)"
      "w_sent w1 = (ss_ConnID ss, pkt_MsgID packet, data) # w_sent ?w"
      "Encode (Some (downlink_packet (pushRequestFromMessage m) ss ts)) = Inr (data, packet)"
    by (rule deliverOnline_online[OF d0])
  have st1: "w_store w1 = Some st" using deliverOnline_store[OF r(1)] st by simp
  have id: "sent_id (ss_ConnID ss, pkt_MsgID packet, data) = Some (ms_MessageID m)"
    using Encode_sent_id[OF r(3)] by (simp add: pushRequestFromMessage_def)
  have pend: "ms_Status m = MessageStatusPending" using d by (simp add: deliverable_def)
  have "run_state (retryMessage E s m) w = run_state (retry_sent E m ?p resp) w1"
    using d r(1) by (simp add: retryMessage_def Let_def deliverable_def)
  moreover have "sent_out (snd (run_state (retry_sent E m ?p resp) w1)) m ss"
    using MarkSent_open[OF m pend] st1 ctx r(2) id
    by (auto simp: sent_out_def retry_sent_def store_MarkSent_def run_on_store split: option.split)
  ultimately show ?thesis by simp
qed

lemma retry_loop_step:
  assumes ctx: "\<And>n. e_ctx E n = None" and st: "w_store w = Some st" and cur: "current st (m # ms)"
  obtains status w1 st1 new where "run_state (retryMessage E s m) (w\<lparr>w_tick := Suc (w_tick w)\<rparr>) = (Inr status, w1)"
    "run_state (retry_loop E s res (m # ms)) w
       = run_state (retry_loop E s (count_status status (res\<lparr>rt_Scanned := rt_Scanned res + 1\<rparr>)) ms) w1"
    "w_store w1 = Some st1" "\<forall>k. k \<noteq> ms_MessageID m \<longrightarrow> map_of (mem_messages st1) k = map_of (mem_messages st) k"
    "current st1 ms" "w_sent w1 = new @ w_sent w" "w_sessions w1 = w_sessions w"
proof -
  let ?w = "w\<lparr>w_tick := Suc (w_tick w)\<rparr>"
  have st0: "w_store ?w = Some st" using st by simp
  have m: "map_of (mem_messages st) (ms_MessageID m) = Some m" using cur by (simp add: current_def)
  obtain r w1 where run: "run_state (retryMessage E s m) ?w = (r, w1)" by fastforce
  obtain status where status: "r = Inr status" using retryMessage_succeeds[OF st0 m ctx, of s] run by auto
  obtain st1 where st1: "w_store w1 = Some st1" "\<forall>k. k \<noteq> ms_MessageID m \<longrightarrow> map_of (mem_messages st1) k = map_of (mem_messages st) k"
    by (rule retryMessage_frame[OF st0 run])
  have "ms_MessageID x \<noteq> ms_MessageID m" if "x \<in> set ms" for x
    using cur that by (force simp: current_def)
  then have cur1: "current st1 ms" using cur st1(2) by (simp add: current_def)
  obtain new where new: "w_sent w1 = new @ w_sent ?w" "w_sessions w1 = w_sessions ?w"
    by (rule retryMessage_sent[OF run])
  show thesis
    by (rule that[OF run[unfolded status] _ st1 cur1]) (use run status ctx new in simp_all)
qed

lemma retry_loop_frame:
  assumes ctx: "\<And>n. e_ctx E n = None"
  shows "w_store w = Some st \<Longrightarrow> current st ms \<Longrightarrow> \<exists>res' w' st' new. run_state (retry_loop E s res ms) w = ((res', None), w')
    \<and> w_store w' = Some st' \<and> (\<forall>k. k \<notin> ms_MessageID ` set ms \<longrightarrow> map_of (mem_messages st') k = map_of (mem_messages st) k)
    \<and> w_sent w' = new @ w_sent w"
proof (induction ms arbitrary: w st res)
  case (Cons m ms)
  obtain status w1 st1 new where s1: "run_state (retry_loop E s res (m # ms)) w
       = run_state (retry_loop E s (count_status status (res\<lparr>rt_Scanned := rt_Scanned res + 1\<rparr>)) ms) w1"
    "w_store w1 = Some st1" "\<forall>k. k \<noteq> ms_MessageID m \<longrightarrow> map_of (mem_messages st1) k = map_of (mem_messages st) k"
    "current st1 ms" "w_sent w1 = new @ w_sent w"
    by (rule retry_loop_step[OF ctx Cons.prems, of s res])
  from Cons.IH[OF s1(2,4), of "count_status status (res\<lparr>rt_Scanned := rt_Scanned res + 1\<rparr>)"] s1(1,3,5)
  show ?case by fastforce
qed simp

lemma retry_loop_delivers:
  assumes ctx: "\<And>n. e_ctx E n = None"
  shows "w_store w = Some st \<Longrightarrow> current st ms \<Longrightarrow> m \<in> set ms \<Longrightarrow> deliverable E s (w_sessions w) ss m \<Longrightarrow>
    \<exists>res' w'. run_state (retry_loop E s res ms) w = ((res', None), w') \<and> sent_out w' m ss"
proof (induction ms arbitrary: w st res)
  case (Cons x ms)
  let ?w = "w\<lparr>w_tick := Suc (w_tick w)\<rparr>"
  obtain status w1 st1 new where s1: "run_state (retryMessage E s x) ?w = (Inr status, w1)"
      "run_state (retry_loop E s res (x # ms)) w
       = run_state (retry_loop E s (count_status status (res\<lparr>rt_Scanned := rt_Scanned res + 1\<rparr>)) ms) w1"
    "w_store w1 = Some st1" "current st1 ms" "w_sessions w1 = w_sessions w"
    by (rule retry_loop_step[OF ctx Cons.prems(1,2), of s res])
  let ?res = "count_status status (res\<lparr>rt_Scanned := rt_Scanned res + 1\<rparr>)"
  show ?case
  proof (cases "x = m")
    case True
    have "map_of (mem_messages st) (ms_MessageID m) = Some m" using Cons.prems(2) True by (simp add: current_def)
    then have out: "sent_out w1 m ss"
      using retryMessage_delivers[OF _ _ ctx, of ?w st m s ss] Cons.prems(1,4) s1(1) True by simp
    obtain res' w' st' new' where rest: "run_state (retry_loop E s ?res ms) w1 = ((res', None), w')" "w_store w' = Some st'"
        "\<forall>k. k \<notin> ms_MessageID ` set ms \<longrightarrow> map_of (mem_messages st') k = map_of (mem_messages st1) k" "w_sent w' = new' @ w_sent w1"
      using retry_loop_frame[OF ctx s1(3,4)] by blast
    have "ms_MessageID m \<notin> ms_MessageID ` set ms" using Cons.prems(2) True by (simp add: current_def)
    then have "sent_out w' m ss" using out rest s1(3) by (auto simp: sent_out_def)
    then show ?thesis using rest(1) s1(2) by auto
  next
    case False
    then have "m \<in> set ms" using Cons.prems(3) by simp
    from Cons.IH[OF s1(3,4) this, of ?res] Cons.prems(4) s1(2,5) show ?thesis by simp
  qed
qed simp


text \<open>The sample message, pushed while its device was offline, is pending after one attempt.\<close>

lemma sample_new_fields:
  assumes "m = complete_message sample_sha i t (new_message sample_service j sample_request 100)"
  shows "ms_MessageID m = ''m1''" "ms_Status m = MessageStatusPending" "ms_Attempts m = 0" "ms_ClientID m = ''c''" "ms_DeviceID m = ''d''"
    "ms_MsgID m = 7" "ms_Body m = [1, 2]" "ms_TraceID m = ''''" "ms_Policy m = DeliveryPolicy sample_service 7" "ms_AckRequired m"
proof -
  have "sv_retryClaimOwner sample_service = ''''" by (simp add: sample_service_def NewService_def)
  then have "new_message sample_service j sample_request 100
      = (messageFromPushRequest j sample_request 100)\<lparr>ms_Policy := DeliveryPolicy sample_service 7\<rparr>"
    by (simp add: new_message_def Let_def) (simp add: sample_request_def)
  moreover have "messageFromPushRequest j sample_request 100 = messageFromPushRequest ''m1'' sample_request 100"
    by (simp add: messageFromPushRequest_def)
  ultimately have "m = (let n = (messageFromPushRequest ''m1'' sample_request 100)\<lparr>ms_Policy := DeliveryPolicy sample_service 7\<rparr>
      in n\<lparr>ms_IdentityFingerprint := messageIdentityFingerprint sample_sha n\<rparr>)"
    using assms by (simp add: complete_message_full messageFromPushRequest_def is_zero_def)
  then show "ms_MessageID m = ''m1''" "ms_Status m = MessageStatusPending" "ms_Attempts m = 0" "ms_ClientID m = ''c''" "ms_DeviceID m = ''d''"
    "ms_MsgID m = 7" "ms_Body m = [1, 2]" "ms_TraceID m = ''''" "ms_Policy m = DeliveryPolicy sample_service 7" "ms_AckRequired m"
    by (simp_all add: Let_def messageFromPushRequest_def sample_request_def)
qed

lemma sample_pending:
  obtains st m where "w_store sample_full_world = Some st" "mem_messages st = [(''m1'', m)]" "ms_MessageID m = ''m1''"
    "ms_Status m = MessageStatusPending" "ms_Attempts m = 1" "ms_ClientID m = ''c''" "ms_DeviceID m = ''d''" "ms_MsgID m = 7"
    "ms_Body m = [1, 2]" "ms_TraceID m = ''''" "ms_Policy m = DeliveryPolicy sample_service 7" "ms_ClaimUntil m = zero_time" "ms_AckRequired m"
proof -
  define n where "n = complete_message sample_sha ''zm_1'' 103 (new_message sample_service ''zm_1'' sample_request 100)"
  note f = sample_new_fields[OF n_def]
  have off: "snd (GetByClientDevice NewManager c d) = False" for c d
    by (simp add: GetByClientDevice_def NewManager_def)
  define st1 where "st1 = NewMemoryStore\<lparr>mem_messages := [(''m1'', n)]\<rparr>"
  define w1 where "w1 = sample_world\<lparr>w_tick := 5, w_store := Some st1\<rparr>"
  have "run_state (store_Save sample_env (new_message sample_service ''zm_1'' sample_request 100) no_capacity)
      (sample_world\<lparr>w_tick := 2\<rparr>) = (Inr \<lparr>sr_Message = n, sr_Outcome = SaveOutcomeCreated\<rparr>, w1)"
    using Save_unlimited[OF n_def, of NewMemoryStore] f(1)
    by (simp add: store_Save_def run_on_store NewMemoryStore_def w1_def st1_def)
  then have push: "run_state (Push sample_env sample_service sample_request) sample_world
      = run_state (first_attempt sample_env sample_service n) w1"
    by (simp add: Push_def pushReliable_def numeral_2_eq_2)
  have del: "run_state (deliverOnline sample_env sample_service (pushRequestFromMessage n)) w1 =
      (Inl (newDeliveryFailure DeliveryFailureStageSession ''session_not_found'' (no_route (pushRequestFromMessage n)) DlErrSessionNotFound), w1)"
    by (rule deliverOnline_offline) (simp_all add: w1_def off)
  let ?err = "newDeliveryFailure DeliveryFailureStageSession ''session_not_found'' (no_route (pushRequestFromMessage n)) DlErrSessionNotFound"
  let ?m = "\<lambda>nx t. (clear_claim n)\<lparr>ms_Status := MessageStatusPending, ms_Attempts := 1, ms_LastError := Error ?err, ms_NextRetryAt := nx, ms_UpdatedAt := t\<rparr>"
  have mark: "MarkAttemptFailed t None st1 ''m1'' (Error ?err) nx = (None, st1\<lparr>mem_messages := [(''m1'', ?m nx t)]\<rparr>)" for t nx
    using f(2,3) by (simp add: MarkAttemptFailed_def update_message_def st1_def)
  have "\<exists>nx t. w_store (snd (run_state (first_attempt sample_env sample_service n) w1)) = Some (st1\<lparr>mem_messages := [(''m1'', ?m nx t)]\<rparr>)"
    by (simp add: first_attempt_def del next_retry_def store_MarkAttemptFailed_def run_on_store f(1) mark) (simp add: w1_def mark, blast)
  then obtain nx t where "w_store sample_full_world = Some (st1\<lparr>mem_messages := [(''m1'', ?m nx t)]\<rparr>)"
    unfolding sample_full_world_def service_step.simps push by blast
  from that[OF this] show thesis
    using f by (simp add: clear_claim_def)
qed

definition sample_back :: "nat \<Rightarrow> world" where
  "sample_back n = sample_full_world\<lparr>w_sessions := sample_manager, w_registry := None, w_tick := n\<rparr>"


end
