(* ===== verification/Signing.thy ===== *)
theory Signing
  imports Go_Strings
begin

text \<open>
  Signed internal requests (\<^verbatim>\<open>pkg/sdk/signing\<close>): the canonical string, the signer, the verifier and the
  replay cache for nonces.  HMAC-SHA256 and SHA-256 are the functions \<open>hmac\<close> and \<open>sha256\<close>; the clock
  readings and the random bytes are arguments.
\<close>

section \<open>Requests\<close>

text \<open>
  The parts of an \<^verbatim>\<open>http.Request\<close> that are read: \<open>url_EscapedPath\<close> is what \<^verbatim>\<open>URL.EscapedPath\<close> returns.  Header names
  are kept in the canonical form of \<^verbatim>\<open>net/http\<close>.
\<close>

record url =
  url_EscapedPath :: string
  url_RawQuery :: string

record http_request =
  hr_Method :: string
  hr_URL :: "url option"
  hr_Header :: "(string, string list) gomap"

fun canon_header_from :: "bool \<Rightarrow> string \<Rightarrow> string" where
  "canon_header_from up [] = []"
| "canon_header_from up (c # cs) = (if up then upper_char c else lower_char c) # canon_header_from (c = CHR ''-'') cs"

definition header_Get :: "http_request \<Rightarrow> string \<Rightarrow> string" where
  "header_Get r name = (case map_of (hr_Header r) (canon_header_from True name) of
     None \<Rightarrow> '''' | Some [] \<Rightarrow> '''' | Some (v # _) \<Rightarrow> v)"

definition header_Set :: "string \<Rightarrow> string \<Rightarrow> http_request \<Rightarrow> http_request" where
  "header_Set name v r = r\<lparr>hr_Header := put (canon_header_from True name) [v] (hr_Header r)\<rparr>"

datatype signing_err =
    ErrInvalidConfig | ErrInvalidRequest | ErrMissingSignature | ErrUnknownKey | ErrInvalidTimestamp
  | ErrExpired | ErrInvalidNonce | ErrInvalidSignature | ErrReplay | ErrNonceStoreFull | ErrRandom

definition Algorithm :: string where "Algorithm = ''ZCOURIER-HMAC-SHA256''"
definition HeaderKeyID :: string where "HeaderKeyID = ''X-ZCourier-Key-ID''"
definition HeaderTimestamp :: string where "HeaderTimestamp = ''X-ZCourier-Timestamp''"
definition HeaderNonce :: string where "HeaderNonce = ''X-ZCourier-Nonce''"
definition HeaderSignature :: string where "HeaderSignature = ''X-ZCourier-Signature''"
definition DefaultMaxClockSkew :: duration where "DefaultMaxClockSkew = 30 * second"
definition DefaultNonceTTL :: duration where "DefaultNonceTTL = 60 * second"
definition DefaultMaxNonceEntries :: int where "DefaultMaxNonceEntries = 10000"
definition minimumSecretSize :: nat where "minimumSecretSize = 32"
definition nonceBytes :: nat where "nonceBytes = 18"

section \<open>The canonical string\<close>

definition unreserved :: "char \<Rightarrow> bool" where
  "unreserved c \<longleftrightarrow> (let n = of_char c :: nat in
     97 \<le> n \<and> n \<le> 122 \<or> 65 \<le> n \<and> n \<le> 90 \<or> 48 \<le> n \<and> n \<le> 57
     \<or> c = CHR ''-'' \<or> c = CHR ''.'' \<or> c = CHR ''_'' \<or> c = CHR ''~'')"

definition percentEncode :: "string \<Rightarrow> string" where
  "percentEncode value = concat (map (\<lambda>c. if unreserved c then [c]
     else [CHR ''%'', hex_char True (of_char c div 16), hex_char True (of_char c mod 16)]) value)"

definition pair_lt :: "string \<times> string \<Rightarrow> string \<times> string \<Rightarrow> bool" where
  "pair_lt l r = (if fst l \<noteq> fst r then fst l < fst r else snd l < snd r)"

definition canonicalQuery :: "string \<Rightarrow> string option" where
  "canonicalQuery raw = (case parse_query raw of None \<Rightarrow> None | Some values \<Rightarrow>
     let pairs = concat (map (\<lambda>(key, items). map (\<lambda>v. (percentEncode key, percentEncode v))
           (if items = [] then [''''] else items)) values)
     in Some (join ''&'' (map (\<lambda>(k, v). k @ ''='' @ v) (sort_slice pair_lt pairs))))"

definition newline :: string where "newline = [CHR 0x0A]"

definition CanonicalString ::
  "(bytes \<Rightarrow> bytes) \<Rightarrow> http_request \<Rightarrow> bytes \<Rightarrow> string \<Rightarrow> string \<Rightarrow> signing_err + string" where
  "CanonicalString sha256 request body timestamp nonce = (case hr_URL request of
     None \<Rightarrow> Inl ErrInvalidRequest
   | Some u \<Rightarrow>
       if trim_space (hr_Method request) = '''' then Inl ErrInvalidRequest
       else case canonicalQuery (url_RawQuery u) of
         None \<Rightarrow> Inl ErrInvalidRequest
       | Some query \<Rightarrow>
           Inr (join newline [Algorithm, timestamp, nonce, to_upper (hr_Method request),
             (if url_EscapedPath u = '''' then ''/'' else url_EscapedPath u), query, hex_string (sha256 body)]))"

definition validNonce :: "string \<Rightarrow> bool" where
  "validNonce nonce \<longleftrightarrow> (case b64_decode nonce of None \<Rightarrow> False
     | Some decoded \<Rightarrow> 16 \<le> length decoded \<and> length decoded \<le> 64)"

definition validKeyID :: "string \<Rightarrow> bool" where
  "validKeyID keyID \<longleftrightarrow> 0 < length keyID \<and> length keyID \<le> 128
     \<and> (\<forall>c\<in>set keyID. 0x21 \<le> (of_char c :: nat) \<and> (of_char c :: nat) \<le> 0x7e)"

section \<open>Signer\<close>

record signer =
  sg_keyID :: string
  sg_secret :: bytes

definition NewSigner :: "string \<Rightarrow> bytes \<Rightarrow> signing_err + signer" where
  "NewSigner key secret =
    (let keyID = trim_space key in
     if \<not> validKeyID keyID then Inl ErrInvalidConfig
     else if length secret < minimumSecretSize then Inl ErrInvalidConfig
     else Inr \<lparr>sg_keyID = keyID, sg_secret = secret\<rparr>)"

text \<open>\<open>random\<close> is the outcome of \<^verbatim>\<open>rand.Read\<close>: the bytes, or \<^verbatim>\<open>None\<close> when it fails.\<close>

definition randomNonce :: "bytes option \<Rightarrow> string option" where
  "randomNonce random = map_option b64_encode random"

text \<open>Instants are kept in whole seconds and nanoseconds; the seconds wrap like the \<^verbatim>\<open>int64\<close> that holds them.\<close>

definition unix_zero :: int where "unix_zero = 62135596800"

definition time_Unix :: "int \<Rightarrow> time" where
  "time_Unix sec = wrap_int64 (sec + unix_zero) * second"

definition Unix_of :: "time \<Rightarrow> int" where
  "Unix_of t = wrap_int64 (t div second - unix_zero)"

definition time_Add :: "time \<Rightarrow> duration \<Rightarrow> time" where
  "time_Add t d = wrap_int64 ((t + d) div second) * second + (t + d) mod second"

definition Sign ::
  "(bytes \<Rightarrow> bytes \<Rightarrow> bytes) \<Rightarrow> (bytes \<Rightarrow> bytes) \<Rightarrow> time \<Rightarrow> bytes option \<Rightarrow> signer \<Rightarrow> http_request \<Rightarrow> bytes \<Rightarrow> signing_err + http_request" where
  "Sign hmac sha256 now random s request body = (case hr_URL request of
     None \<Rightarrow> Inl ErrInvalidRequest
   | Some _ \<Rightarrow>
     (case randomNonce random of None \<Rightarrow> Inl ErrRandom
      | Some nonce \<Rightarrow>
        if \<not> validNonce nonce then Inl ErrInvalidNonce
        else let timestamp = dec_int (Unix_of now) in
          case CanonicalString sha256 request body timestamp nonce of
            Inl err \<Rightarrow> Inl err
          | Inr canonical \<Rightarrow>
              Inr (header_Set HeaderSignature (b64_encode (hmac (sg_secret s) (bytes_of canonical)))
                (header_Set HeaderNonce nonce (header_Set HeaderTimestamp timestamp
                  (header_Set HeaderKeyID (sg_keyID s) request))))))"

section \<open>Replay cache\<close>

text \<open>
  The heap of expirations is a priority queue: it is kept in order, and the entry that expires first
  leaves first.
\<close>

record nonce_entry =
  ne_key :: string
  ne_expiresAt :: time

record nonce_store =
  ns_maxEntries :: int
  ns_entries :: "(string, nonce_entry) gomap"
  ns_expirations :: "nonce_entry list"

definition nonce_lt :: "nonce_entry \<Rightarrow> nonce_entry \<Rightarrow> bool" where
  "nonce_lt l r \<longleftrightarrow> before (ne_expiresAt l) (ne_expiresAt r)"

definition NewMemoryNonceStore :: "int \<Rightarrow> signing_err + nonce_store" where
  "NewMemoryNonceStore maxEntries = (if maxEntries \<le> 0 then Inl ErrInvalidConfig
     else Inr \<lparr>ns_maxEntries = maxEntries, ns_entries = [], ns_expirations = []\<rparr>)"

fun drop_expired :: "time \<Rightarrow> nonce_entry list \<Rightarrow> (string, nonce_entry) gomap \<Rightarrow> nonce_entry list \<times> (string, nonce_entry) gomap" where
  "drop_expired now [] entries = ([], entries)"
| "drop_expired now (e # es) entries =
    (if \<not> after (ne_expiresAt e) now then drop_expired now es (del (ne_key e) entries) else (e # es, entries))"

definition cache_key :: "string \<Rightarrow> string \<Rightarrow> string" where
  "cache_key keyID nonce = keyID @ [CHR 0x00] @ nonce"

definition Consume ::
  "nonce_store \<Rightarrow> string \<Rightarrow> string \<Rightarrow> time \<Rightarrow> time \<Rightarrow> signing_err option \<times> nonce_store" where
  "Consume s keyID nonce now expiresAt =
    (let (expirations, entries) = drop_expired now (ns_expirations s) (ns_entries s);
         s = s\<lparr>ns_expirations := expirations, ns_entries := entries\<rparr>;
         cacheKey = cache_key keyID nonce in
     if map_of entries cacheKey \<noteq> None then (Some ErrReplay, s)
     else if ns_maxEntries s \<le> int (length entries) then (Some ErrNonceStoreFull, s)
     else if \<not> after expiresAt now then (Some ErrExpired, s)
     else let entry = \<lparr>ne_key = cacheKey, ne_expiresAt = expiresAt\<rparr> in
       (None, s\<lparr>ns_entries := put cacheKey entry entries, ns_expirations := insert_by nonce_lt entry expirations\<rparr>))"

definition NonceLen :: "nonce_store \<Rightarrow> nat" where
  "NonceLen s = length (ns_entries s)"

section \<open>Verifier\<close>

record verifier_config =
  vc_Keys :: "(string, bytes) gomap"
  vc_MaxClockSkew :: duration
  vc_NonceTTL :: duration
  vc_MaxNonceEntries :: int

record verifier =
  vf_keys :: "(string, bytes) gomap"
  vf_maxClockSkew :: duration
  vf_nonceTTL :: duration
  vf_nonces :: nonce_store

fun check_keys :: "(string, bytes) gomap \<Rightarrow> (string \<times> bytes) list \<Rightarrow> signing_err + (string, bytes) gomap" where
  "check_keys keys [] = Inr keys"
| "check_keys keys ((rawKeyID, secret) # rest) =
    (let keyID = trim_space rawKeyID in
     if \<not> validKeyID keyID then Inl ErrInvalidConfig
     else if length secret < minimumSecretSize then Inl ErrInvalidConfig
     else if map_of keys keyID \<noteq> None then Inl ErrInvalidConfig
     else check_keys (put keyID secret keys) rest)"

text \<open>The verifier with the memory store; \<^verbatim>\<open>NonceStore\<close> of the configuration is \<^verbatim>\<open>nil\<close>.\<close>

definition NewVerifier :: "verifier_config \<Rightarrow> signing_err + verifier" where
  "NewVerifier config =
    (if vc_Keys config = [] then Inl ErrInvalidConfig
     else case check_keys [] (vc_Keys config) of
       Inl err \<Rightarrow> Inl err
     | Inr keys \<Rightarrow>
         if vc_MaxClockSkew config < 0 then Inl ErrInvalidConfig
         else let maxClockSkew = (if vc_MaxClockSkew config = 0 then DefaultMaxClockSkew else vc_MaxClockSkew config) in
         if vc_NonceTTL config < 0 then Inl ErrInvalidConfig
         else let nonceTTL = (if vc_NonceTTL config = 0 then DefaultNonceTTL else vc_NonceTTL config) in
         if nonceTTL < wrap_int64 (2 * maxClockSkew) then Inl ErrInvalidConfig
         else if vc_MaxNonceEntries config < 0 then Inl ErrInvalidConfig
         else case NewMemoryNonceStore (if vc_MaxNonceEntries config = 0 then DefaultMaxNonceEntries else vc_MaxNonceEntries config) of
           Inl err \<Rightarrow> Inl err
         | Inr nonces \<Rightarrow> Inr \<lparr>vf_keys = keys, vf_maxClockSkew = maxClockSkew, vf_nonceTTL = nonceTTL, vf_nonces = nonces\<rparr>)"

text \<open>The distance of the clocks: \<^verbatim>\<open>Time.Sub\<close> saturates, the negation wraps.\<close>

definition clock_delta :: "time \<Rightarrow> time \<Rightarrow> duration" where
  "clock_delta now signedAt = (let d = time_sub now signedAt in if d < 0 then wrap_int64 (- d) else d)"

definition Verify ::
  "(bytes \<Rightarrow> bytes \<Rightarrow> bytes) \<Rightarrow> (bytes \<Rightarrow> bytes) \<Rightarrow> time \<Rightarrow> verifier \<Rightarrow> http_request \<Rightarrow> bytes \<Rightarrow> signing_err option \<times> verifier" where
  "Verify hmac sha256 now v request body =
    (let keyID = header_Get request HeaderKeyID;
         timestamp = header_Get request HeaderTimestamp;
         nonce = header_Get request HeaderNonce;
         encodedSignature = header_Get request HeaderSignature in
     if hr_URL request = None then (Some ErrInvalidRequest, v)
     else if keyID = '''' \<or> timestamp = '''' \<or> nonce = '''' \<or> encodedSignature = '''' then (Some ErrMissingSignature, v)
     else case map_of (vf_keys v) keyID of None \<Rightarrow> (Some ErrUnknownKey, v)
     | Some secret \<Rightarrow>
       (case parse_int timestamp of None \<Rightarrow> (Some ErrInvalidTimestamp, v)
        | Some signedUnix \<Rightarrow>
          let signedAt = time_Unix signedUnix in
          if vf_maxClockSkew v < clock_delta now signedAt then (Some ErrExpired, v)
          else if \<not> validNonce nonce then (Some ErrInvalidNonce, v)
          else case b64_decode encodedSignature of None \<Rightarrow> (Some ErrInvalidSignature, v)
          | Some provided \<Rightarrow>
              if length provided \<noteq> 32 then (Some ErrInvalidSignature, v)
              else case CanonicalString sha256 request body timestamp nonce of Inl err \<Rightarrow> (Some err, v)
              | Inr canonical \<Rightarrow>
                  if provided \<noteq> hmac secret (bytes_of canonical) then (Some ErrInvalidSignature, v)
                  else let (err, nonces) = Consume (vf_nonces v) keyID nonce now (time_Add signedAt (vf_nonceTTL v))
                    in (err, v\<lparr>vf_nonces := nonces\<rparr>)))"

section \<open>The replay cache\<close>

definition nonce_inv :: "nonce_store \<Rightarrow> bool" where
  "nonce_inv s \<longleftrightarrow> distinct (map ne_key (ns_expirations s))
     \<and> (\<forall>e\<in>set (ns_expirations s). map_of (ns_entries s) (ne_key e) = Some e)
     \<and> (\<forall>k e. map_of (ns_entries s) k = Some e \<longrightarrow> e \<in> set (ns_expirations s) \<and> ne_key e = k)"

lemma nonce_invD:
  assumes "nonce_inv s"
  shows "distinct (map ne_key (ns_expirations s))" "e \<in> set (ns_expirations s) \<Longrightarrow> map_of (ns_entries s) (ne_key e) = Some e"
    "map_of (ns_entries s) k = Some e \<Longrightarrow> e \<in> set (ns_expirations s) \<and> ne_key e = k"
  using assms unfolding nonce_inv_def by blast+

lemma nonce_invI:
  assumes "distinct (map ne_key (ns_expirations s))" "\<And>e. e \<in> set (ns_expirations s) \<Longrightarrow> map_of (ns_entries s) (ne_key e) = Some e"
    "\<And>k e. map_of (ns_entries s) k = Some e \<Longrightarrow> e \<in> set (ns_expirations s) \<and> ne_key e = k"
  shows "nonce_inv s"
  using assms unfolding nonce_inv_def by blast

lemma distinct_map_ConsD: "distinct (map f (a # xs)) \<Longrightarrow> x \<in> set xs \<Longrightarrow> f x \<noteq> f a"
  by (metis distinct.simps(2) image_eqI list.set_map list.simps(9))

lemma drop_expired_lookup:
  assumes "drop_expired now es entries = (es', entries')" "distinct (map ne_key es)" "\<forall>e\<in>set es. map_of entries (ne_key e) = Some e"
  shows "(\<exists>gone. es = gone @ es' \<and> (\<forall>e\<in>set gone. \<not> after (ne_expiresAt e) now)
     \<and> map_of entries' = (\<lambda>k. if k \<in> ne_key ` set gone then None else map_of entries k))"
  using assms
proof (induction es arbitrary: entries)
  case (Cons e es)
  show ?case
  proof (cases "after (ne_expiresAt e) now")
    case True
    then show ?thesis using Cons.prems(1) by (intro exI[of _ "[]"]) simp
  next
    case False
    have ne: "ne_key x \<noteq> ne_key e" if "x \<in> set es" for x using distinct_map_ConsD[OF Cons.prems(2) that] .
    then have stored: "\<forall>x\<in>set es. map_of (del (ne_key e) entries) (ne_key x) = Some x"
      using Cons.prems(3) by simp
    have "drop_expired now es (del (ne_key e) entries) = (es', entries')" using Cons.prems(1) False by simp
    from Cons.IH[OF this _ stored] Cons.prems(2) obtain gone where gone: "es = gone @ es'" "\<forall>x\<in>set gone. \<not> after (ne_expiresAt x) now"
        "map_of entries' = (\<lambda>k. if k \<in> ne_key ` set gone then None else map_of (del (ne_key e) entries) k)"
      by auto
    then show ?thesis
      using False by (intro exI[of _ "e # gone"]) (auto simp: fun_eq_iff)
  qed
qed simp

lemma drop_expired_inv:
  assumes "nonce_inv s" "drop_expired now (ns_expirations s) (ns_entries s) = (es, entries)"
  shows "nonce_inv (s\<lparr>ns_expirations := es, ns_entries := entries\<rparr>)"
    "map_of entries k = Some e \<Longrightarrow> map_of (ns_entries s) k = Some e"
    "map_of (ns_entries s) k = Some e \<Longrightarrow> after (ne_expiresAt e) now \<Longrightarrow> map_of entries k = Some e"
proof -
  obtain gone where gone: "ns_expirations s = gone @ es" "\<forall>x\<in>set gone. \<not> after (ne_expiresAt x) now"
      "map_of entries = (\<lambda>k. if k \<in> ne_key ` set gone then None else map_of (ns_entries s) k)"
    using drop_expired_lookup[OF assms(2)] assms(1) unfolding nonce_inv_def by blast
  have d: "distinct (map ne_key (gone @ es))" and stored: "\<forall>e\<in>set (gone @ es). map_of (ns_entries s) (ne_key e) = Some e"
    and heap: "\<And>k e. map_of (ns_entries s) k = Some e \<Longrightarrow> e \<in> set (gone @ es) \<and> ne_key e = k"
    using assms(1) gone(1) by (simp_all add: nonce_inv_def)
  have keep: "map_of entries (ne_key x) = Some x" if "x \<in> set es" for x
  proof -
    have "ne_key x \<notin> ne_key ` set gone" using d that by auto
    then show ?thesis using stored that gone(3) by simp
  qed
  moreover have "x \<in> set es \<and> ne_key x = i" if "map_of entries i = Some x" for i x
  proof -
    have "i \<notin> ne_key ` set gone" "map_of (ns_entries s) i = Some x" using that gone(3) by (simp_all split: if_splits)
    then show ?thesis using heap[of i x] by auto
  qed
  ultimately show "nonce_inv (s\<lparr>ns_expirations := es, ns_entries := entries\<rparr>)"
    using d by (simp add: nonce_inv_def)
  show "map_of entries k = Some e \<Longrightarrow> map_of (ns_entries s) k = Some e"
    using gone(3) by (simp split: if_splits)
  show "map_of (ns_entries s) k = Some e \<Longrightarrow> after (ne_expiresAt e) now \<Longrightarrow> map_of entries k = Some e"
    using heap[of k e] gone(2) keep by auto
qed

lemma set_insert_by [simp]: "set (insert_by lt x ys) = insert x (set ys)"
  by (metis mset_insert_by set_mset_add_mset_insert set_mset_mset)

lemma distinct_insert_by: "distinct (map f (insert_by lt x ys)) \<longleftrightarrow> f x \<notin> f ` set ys \<and> distinct (map f ys)"
  using distinct_map_mset[of "insert_by lt x ys" "x # ys" f] by simp

lemma Consume_cases:
  assumes "Consume s keyID nonce now expiresAt = (err, s')" "nonce_inv s"
  obtains es entries where "drop_expired now (ns_expirations s) (ns_entries s) = (es, entries)" "err \<noteq> None"
      "s' = s\<lparr>ns_expirations := es, ns_entries := entries\<rparr>"
  | es entries e where "drop_expired now (ns_expirations s) (ns_entries s) = (es, entries)" "err = None"
      "map_of entries (cache_key keyID nonce) = None" "after expiresAt now"
      "e = \<lparr>ne_key = cache_key keyID nonce, ne_expiresAt = expiresAt\<rparr>"
      "s' = s\<lparr>ns_expirations := insert_by nonce_lt e es, ns_entries := put (cache_key keyID nonce) e entries\<rparr>"
  using assms(1) by (auto simp: Consume_def Let_def split: prod.splits if_splits)

lemma Consume_inv:
  assumes "nonce_inv s"
  shows "nonce_inv (snd (Consume s keyID nonce now expiresAt))"
proof -
  obtain err s' where c: "Consume s keyID nonce now expiresAt = (err, s')" by fastforce
  show ?thesis
  proof (rule Consume_cases[OF c assms])
    fix es entries
    assume d: "drop_expired now (ns_expirations s) (ns_entries s) = (es, entries)" "s' = s\<lparr>ns_expirations := es, ns_entries := entries\<rparr>"
    then show ?thesis using drop_expired_inv(1)[OF assms d(1)] c by simp
  next
    fix es entries e
    assume d: "drop_expired now (ns_expirations s) (ns_entries s) = (es, entries)" "map_of entries (cache_key keyID nonce) = None"
      "e = \<lparr>ne_key = cache_key keyID nonce, ne_expiresAt = expiresAt\<rparr>"
      "s' = s\<lparr>ns_expirations := insert_by nonce_lt e es, ns_entries := put (cache_key keyID nonce) e entries\<rparr>"
    have inv: "nonce_inv (s\<lparr>ns_expirations := es, ns_entries := entries\<rparr>)" by (rule drop_expired_inv(1)[OF assms d(1)])
    note D = nonce_invD[OF inv, simplified]
    have key: "ne_key e = cache_key keyID nonce" by (simp add: d(3))
    have new: "ne_key x \<noteq> ne_key e" if "x \<in> set es" for x using D(2)[OF that] d(2) key by auto
    have "nonce_inv s'"
    proof (rule nonce_invI)
      show "distinct (map ne_key (ns_expirations s'))"
        unfolding d(4) using D(1) new by (simp add: distinct_insert_by) (metis imageE)
      show "map_of (ns_entries s') (ne_key x) = Some x" if "x \<in> set (ns_expirations s')" for x
        using that D(2) new key unfolding d(4) by (cases "x = e") simp_all
      show "x \<in> set (ns_expirations s') \<and> ne_key x = k" if "map_of (ns_entries s') k = Some x" for k x
        using that D(3)[of k x] key unfolding d(4) by (cases "k = cache_key keyID nonce") simp_all
    qed
    then show ?thesis using c by simp
  qed
qed

text \<open>An entry stays until it expires, and while it is there its nonce is refused.\<close>

lemma Consume_keeps:
  assumes "nonce_inv s" "map_of (ns_entries s) k = Some e" "after (ne_expiresAt e) now"
  shows "map_of (ns_entries (snd (Consume s keyID nonce now expiresAt))) k = Some e"
proof -
  obtain err s' where c: "Consume s keyID nonce now expiresAt = (err, s')" by fastforce
  show ?thesis
  proof (rule Consume_cases[OF c assms(1)])
    fix es entries
    assume d: "drop_expired now (ns_expirations s) (ns_entries s) = (es, entries)" "s' = s\<lparr>ns_expirations := es, ns_entries := entries\<rparr>"
    then show ?thesis using drop_expired_inv(3)[OF assms(1) d(1) assms(2,3)] c by simp
  next
    fix es entries e'
    assume d: "drop_expired now (ns_expirations s) (ns_entries s) = (es, entries)" "map_of entries (cache_key keyID nonce) = None"
      "s' = s\<lparr>ns_expirations := insert_by nonce_lt e' es, ns_entries := put (cache_key keyID nonce) e' entries\<rparr>"
    have "map_of entries k = Some e" by (rule drop_expired_inv(3)[OF assms(1) d(1) assms(2,3)])
    then show ?thesis using c d(2,3) by auto
  qed
qed

lemma Consume_refuses:
  assumes "nonce_inv s" "map_of (ns_entries s) (cache_key keyID nonce) = Some e" "after (ne_expiresAt e) now"
  shows "fst (Consume s keyID nonce now expiresAt) = Some ErrReplay"
proof -
  obtain es entries where d: "drop_expired now (ns_expirations s) (ns_entries s) = (es, entries)" by fastforce
  have "map_of entries (cache_key keyID nonce) = Some e" by (rule drop_expired_inv(3)[OF assms(1) d assms(2,3)])
  then show ?thesis by (simp add: Consume_def d)
qed

lemma Consume_stores:
  assumes "nonce_inv s" "Consume s keyID nonce now expiresAt = (None, s')"
  shows "(\<exists>e. map_of (ns_entries s') (cache_key keyID nonce) = Some e \<and> ne_expiresAt e = expiresAt) \<and> after expiresAt now"
  by (rule Consume_cases[OF assms(2,1)]) simp_all

section \<open>Verification\<close>

text \<open>Every accepted request went through the replay cache.\<close>

lemma Verify_accepted:
  assumes "Verify hmac sha256 now v r body = (None, v')"
  obtains secret signedUnix nonces where "map_of (vf_keys v) (header_Get r HeaderKeyID) = Some secret"
    "parse_int (header_Get r HeaderTimestamp) = Some signedUnix" "clock_delta now (time_Unix signedUnix) \<le> vf_maxClockSkew v"
    "\<exists>canonical. CanonicalString sha256 r body (header_Get r HeaderTimestamp) (header_Get r HeaderNonce) = Inr canonical
       \<and> b64_decode (header_Get r HeaderSignature) = Some (hmac secret (bytes_of canonical))"
    "Consume (vf_nonces v) (header_Get r HeaderKeyID) (header_Get r HeaderNonce) now
       (time_Add (time_Unix signedUnix) (vf_nonceTTL v)) = (None, nonces)" "v' = v\<lparr>vf_nonces := nonces\<rparr>"
  using assms
  by (simp add: Verify_def Let_def not_less split: if_splits option.splits sum.splits prod.splits)

lemma Verify_config:
  assumes "Verify hmac sha256 now v r body = (err, v')"
  obtains "v' = v"
  | keyID nonce expiresAt where "v' = v\<lparr>vf_nonces := snd (Consume (vf_nonces v) keyID nonce now expiresAt)\<rparr>"
  using assms
  by (auto simp: Verify_def Let_def split: if_splits option.splits sum.splits prod.splits) (metis snd_conv)+

definition verify_step ::
  "(bytes \<Rightarrow> bytes \<Rightarrow> bytes) \<Rightarrow> (bytes \<Rightarrow> bytes) \<Rightarrow> time \<times> http_request \<times> bytes \<Rightarrow> verifier \<Rightarrow> verifier" where
  "verify_step hmac sha256 = (\<lambda>(now, r, body) v. snd (Verify hmac sha256 now v r body))"

inductive verifier_reachable :: "(bytes \<Rightarrow> bytes \<Rightarrow> bytes) \<Rightarrow> (bytes \<Rightarrow> bytes) \<Rightarrow> verifier \<Rightarrow> bool" for hmac sha256 where
  verifier_new: "NewVerifier config = Inr v \<Longrightarrow> verifier_reachable hmac sha256 v"
| verifier_step: "verifier_reachable hmac sha256 v \<Longrightarrow> verifier_reachable hmac sha256 (verify_step hmac sha256 x v)"

lemma verify_step_inv:
  assumes "nonce_inv (vf_nonces v)"
  shows "nonce_inv (vf_nonces (verify_step hmac sha256 x v))"
proof -
  obtain now r body where x: "x = (now, r, body)" by (cases x)
  obtain err v' where run: "Verify hmac sha256 now v r body = (err, v')" by fastforce
  have "nonce_inv (vf_nonces v')"
    by (rule Verify_config[OF run]) (use assms Consume_inv in simp_all)
  then show ?thesis by (simp add: verify_step_def x run)
qed

lemma verifier_reachable_inv: "verifier_reachable hmac sha256 v \<Longrightarrow> nonce_inv (vf_nonces v)"
proof (induction rule: verifier_reachable.induct)
  case (verifier_new config v)
  then show ?case
    by (auto simp: NewVerifier_def NewMemoryNonceStore_def Let_def nonce_inv_def split: if_splits sum.splits)
next
  case (verifier_step v x)
  then show ?case by (simp add: verify_step_inv)
qed

lemma verify_run_keeps:
  assumes "nonce_inv (vf_nonces v)" "map_of (ns_entries (vf_nonces v)) k = Some e" "\<forall>x\<in>set ops. after (ne_expiresAt e) (fst x)"
  shows "map_of (ns_entries (vf_nonces (fold (verify_step hmac sha256) ops v))) k = Some e
    \<and> nonce_inv (vf_nonces (fold (verify_step hmac sha256) ops v)) \<and> vf_nonceTTL (fold (verify_step hmac sha256) ops v) = vf_nonceTTL v"
  using assms
proof (induction ops arbitrary: v)
  case (Cons x ops)
  obtain now r body where x: "x = (now, r, body)" by (cases x)
  obtain err v' where run: "Verify hmac sha256 now v r body = (err, v')" by fastforce
  have "map_of (ns_entries (vf_nonces v')) k = Some e \<and> vf_nonceTTL v' = vf_nonceTTL v"
    by (rule Verify_config[OF run]) (use Cons.prems Consume_keeps x in simp_all)
  moreover have step: "verify_step hmac sha256 x v = v'" by (simp add: verify_step_def x run)
  moreover have "nonce_inv (vf_nonces v')" using verify_step_inv[OF Cons.prems(1), of hmac sha256 x] step by simp
  ultimately show ?case using Cons.IH[of v'] Cons.prems(3) by simp
qed simp

lemma verify_run_ttl: "vf_nonceTTL (fold (verify_step hmac sha256) ops v) = vf_nonceTTL v
    \<and> (nonce_inv (vf_nonces v) \<longrightarrow> nonce_inv (vf_nonces (fold (verify_step hmac sha256) ops v)))"
proof (induction ops arbitrary: v)
  case (Cons x ops)
  obtain now r body where x: "x = (now, r, body)" by (cases x)
  obtain err v' where run: "Verify hmac sha256 now v r body = (err, v')" by fastforce
  have "vf_nonceTTL v' = vf_nonceTTL v"
    by (rule Verify_config[OF run]) simp_all
  moreover have step: "verify_step hmac sha256 x v = v'" by (simp add: verify_step_def x run)
  ultimately show ?case
    using Cons.IH[of v'] verify_step_inv[of v hmac sha256 x] by simp
qed simp

text \<open>
  C7. A signed request is accepted once.  After a verifier accepted a request, it never accepts again one
  with the same key id, timestamp and nonce, whatever body it carries and whatever other requests it
  verifies in between, at clock readings not later than the one of the second attempt: the nonce is still
  cached, or the request has outlived the lifetime of its nonce.
\<close>

theorem accepted_once:
  assumes "verifier_reachable hmac sha256 v" "Verify hmac sha256 t1 v r1 b1 = (None, v1)"
    and "\<forall>x\<in>set ops. fst x \<le> t2" "v2 = fold (verify_step hmac sha256) ops v1"
    and same: "header_Get r2 HeaderKeyID = header_Get r1 HeaderKeyID" "header_Get r2 HeaderTimestamp = header_Get r1 HeaderTimestamp"
      "header_Get r2 HeaderNonce = header_Get r1 HeaderNonce"
  shows "fst (Verify hmac sha256 t2 v2 r2 b2) \<noteq> None"
proof
  assume "fst (Verify hmac sha256 t2 v2 r2 b2) = None"
  then obtain v3 where second: "Verify hmac sha256 t2 v2 r2 b2 = (None, v3)" by (metis prod.collapse)
  let ?k = "header_Get r1 HeaderKeyID" and ?n = "header_Get r1 HeaderNonce"
  have inv: "nonce_inv (vf_nonces v)" by (rule verifier_reachable_inv[OF assms(1)])
  obtain u nonces where first: "parse_int (header_Get r1 HeaderTimestamp) = Some u"
      "Consume (vf_nonces v) ?k ?n t1 (time_Add (time_Unix u) (vf_nonceTTL v)) = (None, nonces)" "v1 = v\<lparr>vf_nonces := nonces\<rparr>"
    by (rule Verify_accepted[OF assms(2)])
  let ?x = "time_Add (time_Unix u) (vf_nonceTTL v)"
  obtain e where e: "map_of (ns_entries nonces) (cache_key ?k ?n) = Some e" "ne_expiresAt e = ?x"
    using Consume_stores[OF inv first(2)] by blast
  have inv1: "nonce_inv (vf_nonces v1)" using Consume_inv[OF inv, of ?k ?n t1 ?x] first(2,3) by simp
  have ttl: "vf_nonceTTL v2 = vf_nonceTTL v" and inv2: "nonce_inv (vf_nonces v2)"
    using verify_run_ttl[of hmac sha256 ops v1] inv1 first(3) assms(4) by simp_all
  obtain u2 nonces' where "parse_int (header_Get r2 HeaderTimestamp) = Some u2"
      "Consume (vf_nonces v2) (header_Get r2 HeaderKeyID) (header_Get r2 HeaderNonce) t2
        (time_Add (time_Unix u2) (vf_nonceTTL v2)) = (None, nonces')"
    by (rule Verify_accepted[OF second])
  then have cons: "Consume (vf_nonces v2) ?k ?n t2 ?x = (None, nonces')"
    using first(1) same ttl by simp
  then have live: "after ?x t2" using Consume_stores[OF inv2] by blast
  then have "\<forall>x\<in>set ops. after (ne_expiresAt e) (fst x)" using assms(3) e(2) by (auto simp: after_def)
  then have "map_of (ns_entries (vf_nonces v2)) (cache_key ?k ?n) = Some e"
    using verify_run_keeps[OF inv1 _, of "cache_key ?k ?n" e ops hmac sha256] e(1) first(3) assms(4) by simp
  from Consume_refuses[OF inv2 this, of t2 ?x] live e(2) cons show False by simp
qed

section \<open>Signed requests are accepted\<close>

lemma header_names:
  "canon_header_from True HeaderKeyID = ''X-Zcourier-Key-Id''" "canon_header_from True HeaderTimestamp = ''X-Zcourier-Timestamp''"
  "canon_header_from True HeaderNonce = ''X-Zcourier-Nonce''" "canon_header_from True HeaderSignature = ''X-Zcourier-Signature''"
  by code_simp+

lemma header_Get_Set:
  "header_Get (header_Set n v r) m = (if canon_header_from True m = canon_header_from True n then v else header_Get r m)"
  by (simp add: header_Get_def header_Set_def)

lemma CanonicalString_headers [simp]:
  "CanonicalString sha256 (header_Set n v r) body timestamp nonce = CanonicalString sha256 r body timestamp nonce"
  "hr_URL (header_Set n v r) = hr_URL r"
proof -
  have "hr_Method (header_Set n v r) = hr_Method r" "hr_URL (header_Set n v r) = hr_URL r"
    by (simp_all add: header_Set_def)
  then show "CanonicalString sha256 (header_Set n v r) body timestamp nonce = CanonicalString sha256 r body timestamp nonce"
      "hr_URL (header_Set n v r) = hr_URL r"
    unfolding CanonicalString_def by (simp_all only:)
qed

lemma length_drop_expired: "drop_expired now es entries = (es', entries') \<Longrightarrow> length entries' \<le> length entries"
  by (induction now es entries rule: drop_expired.induct) (auto split: if_splits intro: order_trans[OF _ length_del_le])

lemma Consume_accepts:
  assumes "nonce_inv s" "map_of (ns_entries s) (cache_key keyID nonce) = None" "int (length (ns_entries s)) < ns_maxEntries s"
    and "after expiresAt now"
  shows "fst (Consume s keyID nonce now expiresAt) = None"
proof -
  obtain es entries where d: "drop_expired now (ns_expirations s) (ns_entries s) = (es, entries)" by fastforce
  have "map_of entries (cache_key keyID nonce) = None"
    using drop_expired_inv(2)[OF assms(1) d] assms(2) by (metis not_Some_eq)
  moreover have "int (length entries) < ns_maxEntries s" using length_drop_expired[OF d] assms(3) by linarith
  ultimately show ?thesis using assms(4) by (simp add: Consume_def d Let_def)
qed

text \<open>What the signer puts into the headers, the verifier accepts, if the clocks and the cache allow it.\<close>

lemma Verify_accepts:
  assumes "nonce_inv (vf_nonces v)" "\<And>k m. length (hmac k m) = 32" "sg_keyID sg \<noteq> ''''"
    and key: "map_of (vf_keys v) (sg_keyID sg) = Some (sg_secret sg)"
    and sign: "Sign hmac sha256 t random sg r body = Inr r'"
    and skew: "clock_delta now (time_Unix (Unix_of t)) \<le> vf_maxClockSkew v"
    and live: "after (time_Add (time_Unix (Unix_of t)) (vf_nonceTTL v)) now"
    and new: "map_of (ns_entries (vf_nonces v)) (cache_key (sg_keyID sg) (header_Get r' HeaderNonce)) = None"
    and room: "int (length (ns_entries (vf_nonces v))) < ns_maxEntries (vf_nonces v)"
  shows "fst (Verify hmac sha256 now v r' body) = None"
proof -
  let ?ts = "dec_int (Unix_of t)"
  obtain u nonce canonical where s: "hr_URL r = Some u" "randomNonce random = Some nonce" "validNonce nonce"
      "CanonicalString sha256 r body ?ts nonce = Inr canonical"
      "r' = header_Set HeaderSignature (b64_encode (hmac (sg_secret sg) (bytes_of canonical)))
                (header_Set HeaderNonce nonce (header_Set HeaderTimestamp ?ts (header_Set HeaderKeyID (sg_keyID sg) r)))"
    using sign by (auto simp: Sign_def Let_def split: option.splits if_splits sum.splits)
  have h: "header_Get r' HeaderKeyID = sg_keyID sg" "header_Get r' HeaderTimestamp = ?ts" "header_Get r' HeaderNonce = nonce"
      "header_Get r' HeaderSignature = b64_encode (hmac (sg_secret sg) (bytes_of canonical))"
    by (simp_all add: s(5) header_Get_Set header_names)
  have "parse_int ?ts = Some (Unix_of t)"
    by (rule parse_dec_int) (simp_all add: Unix_of_def wrap_int64_def)
  moreover have "?ts \<noteq> ''''" by (simp add: dec_int_def)
  moreover have "nonce \<noteq> ''''" using s(3) by (auto simp: validNonce_def b64_decode_def)
  moreover have "b64_encode (hmac (sg_secret sg) (bytes_of canonical)) \<noteq> ''''"
  proof
    assume "b64_encode (hmac (sg_secret sg) (bytes_of canonical)) = ''''"
    then have "b64_decode '''' = Some (hmac (sg_secret sg) (bytes_of canonical))" using b64_decode_encode by metis
    then show False using assms(2)[of "sg_secret sg" "bytes_of canonical"] by (simp add: b64_decode_def)
  qed
  moreover have "fst (Consume (vf_nonces v) (sg_keyID sg) nonce now (time_Add (time_Unix (Unix_of t)) (vf_nonceTTL v))) = None"
    using Consume_accepts[OF assms(1) _ room live] new h(3) by simp
  moreover have "hr_URL r' = Some u" "CanonicalString sha256 r' body ?ts nonce = Inr canonical" using s by simp_all
  ultimately show ?thesis
    using assms(2,3) key s(3) skew by (simp add: Verify_def h Let_def not_less case_prod_beta)
qed

definition verifier_ok :: "verifier \<Rightarrow> bool" where
  "verifier_ok v \<longleftrightarrow> 0 < vf_maxClockSkew v \<and> wrap_int64 (2 * vf_maxClockSkew v) \<le> vf_nonceTTL v"

lemma verifier_reachable_ok: "verifier_reachable hmac sha256 v \<Longrightarrow> verifier_ok v"
proof (induction rule: verifier_reachable.induct)
  case (verifier_new config v)
  then show ?case
    by (auto simp: NewVerifier_def verifier_ok_def DefaultMaxClockSkew_def Let_def not_less split: if_splits sum.splits)
next
  case (verifier_step v x)
  obtain now r body where x: "x = (now, r, body)" by (cases x)
  obtain err v' where run: "Verify hmac sha256 now v r body = (err, v')" by fastforce
  have "verifier_ok v'" by (rule Verify_config[OF run]) (use verifier_step.IH in \<open>simp_all add: verifier_ok_def\<close>)
  then show ?case by (simp add: verify_step_def x run)
qed

lemma time_Unix_of:
  assumes "0 \<le> t" "t < 2 ^ 62 * second"
  shows "time_Unix (Unix_of t) = t - t mod second"
proof -
  have s: "0 \<le> t div second" "t div second < 2 ^ 62" using assms by (auto simp: pos_imp_zdiv_nonneg_iff div_less_iff_less_mult)
  then have "Unix_of t = t div second - unix_zero"
    unfolding Unix_of_def by (intro wrap_int64_id) (simp_all add: unix_zero_def)
  then have "time_Unix (Unix_of t) = t div second * second"
    using s wrap_int64_id[of "t div second"] by (simp add: time_Unix_def)
  then show ?thesis by (simp add: minus_mod_eq_div_mult)
qed

text \<open>
  C40. A signed request is accepted.  A verifier that knows the signer's key accepts a request signed at
  time \<open>t\<close> when its own clock is less than the allowed skew away (a second less, as the timestamp is
  truncated), the nonce is new to it and its replay cache has room.
\<close>

theorem sign_verify:
  assumes "NewSigner key secret = Inr sg" and reach: "verifier_reachable hmac sha256 v" and "\<And>k m. length (hmac k m) = 32"
    and "map_of (vf_keys v) (sg_keyID sg) = Some (sg_secret sg)" "Sign hmac sha256 t random sg r body = Inr r'"
    and range: "0 \<le> t" "t < 2 ^ 62 * second" "2 * vf_maxClockSkew v \<le> max_int64" "vf_nonceTTL v \<le> max_int64"
    and clocks: "t - now \<le> vf_maxClockSkew v" "now - t \<le> vf_maxClockSkew v - second"
    and "map_of (ns_entries (vf_nonces v)) (cache_key (sg_keyID sg) (header_Get r' HeaderNonce)) = None"
    and "int (length (ns_entries (vf_nonces v))) < ns_maxEntries (vf_nonces v)"
  shows "fst (Verify hmac sha256 now v r' body) = None"
proof -
  let ?s = "t - t mod second"
  have signed: "time_Unix (Unix_of t) = ?s" by (rule time_Unix_of[OF range(1,2)])
  have ok: "0 < vf_maxClockSkew v" "2 * vf_maxClockSkew v \<le> vf_nonceTTL v"
    using verifier_reachable_ok[OF reach] wrap_int64_id[of "2 * vf_maxClockSkew v"] range(3) by (simp_all add: verifier_ok_def)
  have m: "0 \<le> t mod second" "t mod second < second" by simp_all
  have d: "now - ?s \<le> vf_maxClockSkew v" "?s - now \<le> vf_maxClockSkew v" using clocks m by linarith+
  then have skew: "clock_delta now (time_Unix (Unix_of t)) \<le> vf_maxClockSkew v"
    using range(3) ok(1) by (auto simp: signed clock_delta_def time_sub_def Let_def wrap_int64_id min_def max_def)
  have "0 \<le> ?s" using range(1) m by (metis minus_mod_eq_div_mult mult_nonneg_nonneg pos_imp_zdiv_nonneg_iff zero_less_numeral zero_le_numeral)
  then have "0 \<le> (?s + vf_nonceTTL v) div second" "(?s + vf_nonceTTL v) div second \<le> max_int64"
    using range(2,4) m ok by (auto simp: pos_imp_zdiv_nonneg_iff)
  then have "time_Add ?s (vf_nonceTTL v) = ?s + vf_nonceTTL v"
    by (simp add: time_Add_def wrap_int64_id)
  then have live: "after (time_Add (time_Unix (Unix_of t)) (vf_nonceTTL v)) now"
    using d ok by (simp add: signed after_def)
  have "sg_keyID sg \<noteq> ''''"
    using assms(1) by (auto simp: NewSigner_def validKeyID_def Let_def split: if_splits)
  then show ?thesis
    by (rule Verify_accepts[OF verifier_reachable_inv[OF reach] assms(3) _ assms(4,5) skew live assms(12,13)])
qed

text \<open>
  The skew test has a gap: \<^verbatim>\<open>now.Sub(signedAt)\<close> saturates at the least duration, whose negation is
  itself, so a request signed more than \<open>2 ^ 63\<close> nanoseconds ahead of the verifier's clock passes it.
\<close>

lemma future_timestamp_accepted:
  assumes "NewSigner key secret = Inr sg" and reach: "verifier_reachable hmac sha256 v" and "\<And>k m. length (hmac k m) = 32"
    and "map_of (vf_keys v) (sg_keyID sg) = Some (sg_secret sg)" "Sign hmac sha256 t random sg r body = Inr r'"
    and range: "0 \<le> now" "t < 2 ^ 62 * second" "0 \<le> vf_nonceTTL v" "vf_nonceTTL v \<le> max_int64"
    and ahead: "now + 2 ^ 63 + second \<le> t"
    and "map_of (ns_entries (vf_nonces v)) (cache_key (sg_keyID sg) (header_Get r' HeaderNonce)) = None"
    and "int (length (ns_entries (vf_nonces v))) < ns_maxEntries (vf_nonces v)"
  shows "fst (Verify hmac sha256 now v r' body) = None"
proof -
  let ?s = "t - t mod second"
  have t: "0 \<le> t" using range(1) ahead by simp
  have signed: "time_Unix (Unix_of t) = ?s" by (rule time_Unix_of[OF t range(2)])
  have m: "0 \<le> t mod second" "t mod second < second" by simp_all
  have s: "now + 2 ^ 63 \<le> ?s" using ahead m by linarith
  then have "time_sub now ?s = min_int64" by (simp add: time_sub_def min_def max_def)
  then have skew: "clock_delta now (time_Unix (Unix_of t)) \<le> vf_maxClockSkew v"
    using verifier_reachable_ok[OF reach] by (simp add: signed clock_delta_def verifier_ok_def wrap_int64_def)
  have "0 \<le> (?s + vf_nonceTTL v) div second" "(?s + vf_nonceTTL v) div second \<le> max_int64"
    using range m s by (auto simp: pos_imp_zdiv_nonneg_iff)
  then have "time_Add ?s (vf_nonceTTL v) = ?s + vf_nonceTTL v" by (simp add: time_Add_def wrap_int64_id)
  then have live: "after (time_Add (time_Unix (Unix_of t)) (vf_nonceTTL v)) now"
    using s range(3) by (simp add: signed after_def)
  have "sg_keyID sg \<noteq> ''''"
    using assms(1) by (auto simp: NewSigner_def validKeyID_def Let_def split: if_splits)
  then show ?thesis
    by (rule Verify_accepts[OF verifier_reachable_inv[OF reach] assms(3) _ assms(4,5) skew live assms(11,12)])
qed

section \<open>A signed request\<close>

definition sample_hmac :: "bytes \<Rightarrow> bytes \<Rightarrow> bytes" where "sample_hmac key text = replicate 32 (of_nat (length text))"
definition sample_digest :: "bytes \<Rightarrow> bytes" where "sample_digest text = replicate 32 (of_nat (length text))"
definition sample_signer :: signer where "sample_signer = \<lparr>sg_keyID = ''k1'', sg_secret = replicate 32 7\<rparr>"
definition sample_verifier :: verifier where
  "sample_verifier = \<lparr>vf_keys = [(''k1'', replicate 32 7)], vf_maxClockSkew = DefaultMaxClockSkew, vf_nonceTTL = DefaultNonceTTL,
     vf_nonces = \<lparr>ns_maxEntries = 4, ns_entries = [], ns_expirations = []\<rparr>\<rparr>"
definition sample_post :: http_request where
  "sample_post = \<lparr>hr_Method = ''POST'', hr_URL = Some \<lparr>url_EscapedPath = ''/push'', url_RawQuery = ''''\<rparr>, hr_Header = []\<rparr>"
definition signing_time :: time where "signing_time = 63900000000 * second + 5"
definition sample_signed :: http_request where
  "sample_signed = (case Sign sample_hmac sample_digest signing_time (Some (replicate 16 3)) sample_signer sample_post [1, 2] of Inr r \<Rightarrow> r
     | Inl _ \<Rightarrow> sample_post)"

lemma sample_trimmed: "trim_space ''k1'' = ''k1''" "trim_space ''POST'' = ''POST''"
  by code_simp+

lemma sample_signer_new: "NewSigner ''k1'' (replicate 32 7) = Inr sample_signer"
  by (simp add: NewSigner_def validKeyID_def sample_signer_def sample_trimmed minimumSecretSize_def)

lemma sample_verifier_reachable: "verifier_reachable sample_hmac sample_digest sample_verifier"
  by (rule verifier_new[of "\<lparr>vc_Keys = [(''k1'', replicate 32 7)], vc_MaxClockSkew = 0, vc_NonceTTL = 0, vc_MaxNonceEntries = 4\<rparr>"])
    (simp add: NewVerifier_def validKeyID_def sample_verifier_def sample_trimmed minimumSecretSize_def wrap_int64_def
      DefaultMaxClockSkew_def DefaultNonceTTL_def NewMemoryNonceStore_def)

lemma sample_signed_by:
  "Sign sample_hmac sample_digest signing_time (Some (replicate 16 3)) sample_signer sample_post [1, 2] = Inr sample_signed"
proof -
  have "CanonicalString sample_digest sample_post [1, 2] ts n \<noteq> Inl e" for ts n e
    by (simp add: CanonicalString_def sample_post_def sample_trimmed canonicalQuery_def parse_query_def
        parse_query_from.simps[of "[]"] cut_def)
  then show ?thesis
    by (simp add: sample_signed_def Sign_def sample_post_def randomNonce_def validNonce_def b64_decode_encode Let_def split: sum.splits)
qed

lemma sample_verified:
  "fst (Verify sample_hmac sample_digest (signing_time + 2 * second) sample_verifier sample_signed [1, 2]) = None"
  by (rule Verify_accepts[OF verifier_reachable_inv[OF sample_verifier_reachable] _ _ _ sample_signed_by])
    (simp_all add: sample_hmac_def sample_verifier_def sample_signer_def signing_time_def DefaultMaxClockSkew_def DefaultNonceTTL_def
      Unix_of_def time_Unix_def time_Add_def unix_zero_def wrap_int64_def clock_delta_def time_sub_def after_def)

theorem sign_verify_witness:
  "fst (Verify sample_hmac sample_digest (signing_time + 2 * second) sample_verifier sample_signed [1, 2]) = None"
  by (rule sign_verify[OF sample_signer_new sample_verifier_reachable _ _ sample_signed_by])
    (simp_all add: sample_hmac_def sample_verifier_def sample_signer_def signing_time_def DefaultMaxClockSkew_def DefaultNonceTTL_def)

theorem accepted_once_witness:
  "fst (Verify sample_hmac sample_digest (signing_time + 3 * second)
      (fold (verify_step sample_hmac sample_digest) [(signing_time + 3 * second, sample_post, [])]
        (snd (Verify sample_hmac sample_digest (signing_time + 2 * second) sample_verifier sample_signed [1, 2])))
      sample_signed [1, 2]) \<noteq> None"
  using accepted_once[OF sample_verifier_reachable _ _ refl refl refl refl, of "signing_time + 2 * second" sample_signed "[1, 2]"
      "snd (Verify sample_hmac sample_digest (signing_time + 2 * second) sample_verifier sample_signed [1, 2])"
      "[(signing_time + 3 * second, sample_post, [])]" "signing_time + 3 * second" "[1, 2]"] sample_verified
  by (simp add: prod_eq_iff)

end
