(* ===== verification/Transition.thy ===== *)
theory Transition
  imports Main
begin

text \<open>
  Components that react to interleaved calls: a state, the actions that can happen, and a partial step
  function that says what an action does (\<^verbatim>\<open>None\<close> when it cannot happen).  Reachability is relative to
  the actions an environment may choose in a state, so that a property can name the schedules it needs.
\<close>

inductive reachable :: "('s \<Rightarrow> bool) \<Rightarrow> ('a \<Rightarrow> 's \<Rightarrow> 's option) \<Rightarrow> ('a \<Rightarrow> 's \<Rightarrow> bool) \<Rightarrow> 's \<Rightarrow> bool" for init step may where
  reachable_init: "init s \<Longrightarrow> reachable init step may s"
| reachable_step: "reachable init step may s \<Longrightarrow> may a s \<Longrightarrow> step a s = Some s' \<Longrightarrow> reachable init step may s'"

abbreviation freely :: "'a \<Rightarrow> 's \<Rightarrow> bool" where "freely a s \<equiv> True"

fun run :: "('a \<Rightarrow> 's \<Rightarrow> 's option) \<Rightarrow> ('a \<Rightarrow> 's \<Rightarrow> bool) \<Rightarrow> 'a list \<Rightarrow> 's \<Rightarrow> 's option" where
  "run step may [] s = Some s"
| "run step may (a # as) s = (if \<not> may a s then None else case step a s of None \<Rightarrow> None | Some s' \<Rightarrow> run step may as s')"

lemma run_reachable: "run step may as s = Some s' \<Longrightarrow> reachable init step may s \<Longrightarrow> reachable init step may s'"
  by (induction as arbitrary: s) (auto intro: reachable_step split: if_splits option.splits)

lemma reachable_freely: "reachable init step may s \<Longrightarrow> reachable init step freely s"
  by (induction rule: reachable.induct) (auto intro: reachable.intros)

text \<open>An invariant of the chosen schedules holds in every state they reach.\<close>

locale invariant_of =
  fixes init :: "'s \<Rightarrow> bool" and step :: "'a \<Rightarrow> 's \<Rightarrow> 's option" and may :: "'a \<Rightarrow> 's \<Rightarrow> bool" and inv :: "'s \<Rightarrow> bool"
  assumes initial: "init s \<Longrightarrow> inv s"
    and preserved: "inv s \<Longrightarrow> may a s \<Longrightarrow> step a s = Some s' \<Longrightarrow> inv s'"
begin

lemma holds: "reachable init step may s \<Longrightarrow> inv s"
  by (induction rule: reachable.induct) (auto intro: initial preserved)

lemma holds_after: "inv s \<Longrightarrow> run step may as s = Some s' \<Longrightarrow> inv s'"
  by (induction as arbitrary: s) (auto intro: preserved split: if_splits option.splits)

end

end
