(* ===== verification/Resilience.thy ===== *)
theory Resilience
  imports Prelude
begin

text \<open>
  Capacity limits and dependency health (\<^verbatim>\<open>src/internal/capacity/limiter.go\<close>,
  \<^verbatim>\<open>src/internal/resilience\<close>).  A limiter is a buffered channel of permits, of which only the
  capacity and the number of permits in it matter; \<^verbatim>\<open>None\<close> is the \<^verbatim>\<open>nil\<close> limiter, which
  limits nothing.
\<close>

section \<open>Limiter\<close>

record limiter =
  li_cap :: nat
  li_len :: nat

definition NewLimiter :: "int \<Rightarrow> limiter option" where
  "NewLimiter limit = (if limit \<le> 0 then None else Some \<lparr>li_cap = nat limit, li_len = 0\<rparr>)"

definition TryAcquire :: "limiter option \<Rightarrow> bool \<times> limiter option" where
  "TryAcquire l = (case l of None \<Rightarrow> (True, None)
     | Some c \<Rightarrow> if li_len c < li_cap c then (True, Some (c\<lparr>li_len := li_len c + 1\<rparr>)) else (False, l))"

definition Release :: "limiter option \<Rightarrow> limiter option" where
  "Release l = (case l of None \<Rightarrow> None
     | Some c \<Rightarrow> if 0 < li_len c then Some (c\<lparr>li_len := li_len c - 1\<rparr>) else l)"

definition Limit :: "limiter option \<Rightarrow> nat" where
  "Limit l = (case l of None \<Rightarrow> 0 | Some c \<Rightarrow> li_cap c)"

definition InFlight :: "limiter option \<Rightarrow> nat" where
  "InFlight l = (case l of None \<Rightarrow> 0 | Some c \<Rightarrow> li_len c)"

section \<open>Dependency tracker\<close>

definition ReasonOverloaded :: string where "ReasonOverloaded = ''overloaded''"
definition ReasonRateLimited :: string where "ReasonRateLimited = ''rate_limited''"
definition ReasonAdmissionUnavailable :: string where "ReasonAdmissionUnavailable = ''admission_unavailable''"
definition ReasonUpstreamFailed :: string where "ReasonUpstreamFailed = ''upstream_failed''"

datatype dependency_status = Healthy | Degraded | Unavailable

record dependency_tracker =
  dt_name :: string
  dt_degradedThreshold :: int
  dt_unavailableThreshold :: int
  dt_status :: dependency_status
  dt_consecutiveFailures :: int
  dt_lastReason :: string
  dt_lastFailureAt :: time
  dt_lastSuccessAt :: time
  dt_updatedAt :: time

definition NewDependencyTracker :: "string \<Rightarrow> int \<Rightarrow> int \<Rightarrow> dependency_tracker" where
  "NewDependencyTracker name degraded unavailable =
    (let degraded = (if degraded \<le> 0 then 3 else degraded);
         unavailable = (if unavailable \<le> 0 then wrap_int64 (degraded * 3) else unavailable);
         unavailable = (if unavailable < degraded then degraded else unavailable) in
     \<lparr>dt_name = name, dt_degradedThreshold = degraded, dt_unavailableThreshold = unavailable, dt_status = Healthy,
       dt_consecutiveFailures = 0, dt_lastReason = '''', dt_lastFailureAt = 0, dt_lastSuccessAt = 0, dt_updatedAt = 0\<rparr>)"

definition MarkSuccess :: "time \<Rightarrow> dependency_tracker \<Rightarrow> dependency_tracker" where
  "MarkSuccess now t = t\<lparr>dt_status := Healthy, dt_consecutiveFailures := 0, dt_lastReason := '''', dt_lastSuccessAt := now,
     dt_updatedAt := now\<rparr>"

definition failure_status :: "dependency_tracker \<Rightarrow> int \<Rightarrow> dependency_status" where
  "failure_status t failures = (if dt_unavailableThreshold t \<le> failures then Unavailable
     else if dt_degradedThreshold t \<le> failures then Degraded else Healthy)"

definition MarkFailure :: "time \<Rightarrow> string \<Rightarrow> dependency_tracker \<Rightarrow> dependency_tracker" where
  "MarkFailure now reason t =
    (let reason = (if reason = '''' then ''failure'' else reason);
         failures = wrap_int64 (dt_consecutiveFailures t + 1) in
     t\<lparr>dt_consecutiveFailures := failures, dt_lastReason := reason, dt_lastFailureAt := now, dt_updatedAt := now,
       dt_status := failure_status t failures\<rparr>)"

section \<open>The limit is never exceeded\<close>

definition limiter_ok :: "limiter option \<Rightarrow> bool" where
  "limiter_ok l \<longleftrightarrow> (case l of None \<Rightarrow> True | Some c \<Rightarrow> 0 < li_cap c \<and> li_len c \<le> li_cap c)"

lemma limiter_ok_New [inv_intros]: "limiter_ok (NewLimiter limit)"
  by (simp add: limiter_ok_def NewLimiter_def)

lemma TryAcquire_ok [inv_intros]: "limiter_ok l \<Longrightarrow> limiter_ok (snd (TryAcquire l))"
  by (auto simp: limiter_ok_def TryAcquire_def split: option.splits)

lemma Release_ok [inv_intros]: "limiter_ok l \<Longrightarrow> limiter_ok (Release l)"
  by (auto simp: limiter_ok_def Release_def split: option.splits)

lemma Release_TryAcquire: "TryAcquire l = (True, l') \<Longrightarrow> Release l' = l"
  by (auto simp: TryAcquire_def Release_def split: option.splits if_splits)

lemma TryAcquire_refused: "TryAcquire l = (False, l') \<longleftrightarrow> l' = l \<and> (\<exists>c. l = Some c \<and> li_cap c \<le> li_len c)"
  by (auto simp: TryAcquire_def split: option.splits if_splits)

section \<open>The status of a dependency\<close>

datatype tracker_op = Succeeded time | Failed_with time string

fun tracker_step :: "tracker_op \<Rightarrow> dependency_tracker \<Rightarrow> dependency_tracker" where
  "tracker_step (Succeeded now) t = MarkSuccess now t"
| "tracker_step (Failed_with now reason) t = MarkFailure now reason t"

text \<open>The failures since the last success, at the end of a history.\<close>

fun failure_run :: "nat \<Rightarrow> tracker_op list \<Rightarrow> nat" where
  "failure_run n [] = n"
| "failure_run n (Succeeded _ # ops) = failure_run 0 ops"
| "failure_run n (Failed_with _ _ # ops) = failure_run (Suc n) ops"

definition tracker_ok :: "dependency_tracker \<Rightarrow> nat \<Rightarrow> bool" where
  "tracker_ok t n \<longleftrightarrow> 0 < dt_degradedThreshold t \<and> dt_degradedThreshold t \<le> dt_unavailableThreshold t
     \<and> dt_consecutiveFailures t = int n \<and> dt_status t = failure_status t (int n)"

lemma tracker_ok_New: "tracker_ok (NewDependencyTracker name d u) 0"
  by (simp add: tracker_ok_def NewDependencyTracker_def failure_status_def Let_def)

lemma failure_run_le: "failure_run n ops \<le> n + length ops"
  by (induction n ops rule: failure_run.induct) auto

lemma tracker_ok_step:
  assumes "tracker_ok t n" "int n < max_int64"
  shows "tracker_ok (tracker_step op t) (failure_run n [op])"
proof (cases op)
  case (Failed_with now reason)
  have "wrap_int64 (int n + 1) = int n + 1" using assms(2) by (simp add: wrap_int64_def)
  then show ?thesis
    using assms Failed_with by (simp add: tracker_ok_def MarkFailure_def Let_def failure_status_def add.commute)
qed (use assms in \<open>simp add: tracker_ok_def MarkSuccess_def failure_status_def\<close>)

lemma tracker_ok_run:
  "tracker_ok t n \<Longrightarrow> int (n + length ops) \<le> max_int64 \<Longrightarrow> tracker_ok (fold tracker_step ops t) (failure_run n ops)"
proof (induction ops arbitrary: t n)
  case (Cons op ops)
  have "failure_run n (op # ops) = failure_run (failure_run n [op]) ops" by (cases op) simp_all
  moreover have "tracker_ok (tracker_step op t) (failure_run n [op])" using tracker_ok_step[OF Cons.prems(1)] Cons.prems(2) by simp
  moreover have "int (failure_run n [op] + length ops) \<le> max_int64"
    using failure_run_le[of n "[op]"] Cons.prems(2) by simp
  ultimately show ?case using Cons.IH[of "tracker_step op t"] by simp
qed simp

lemma tracker_fixed:
  "dt_degradedThreshold (fold tracker_step ops t) = dt_degradedThreshold t
    \<and> dt_unavailableThreshold (fold tracker_step ops t) = dt_unavailableThreshold t"
proof (induction ops arbitrary: t)
  case (Cons op ops)
  then show ?case by (cases op) (simp_all add: MarkSuccess_def MarkFailure_def Let_def)
qed simp

text \<open>After any history the status is the one its last run of failures deserves.\<close>

lemma tracker_status:
  assumes "int (length ops) \<le> max_int64" "t = NewDependencyTracker name d u"
  shows "dt_status (fold tracker_step ops t) = failure_status t (int (failure_run 0 ops))"
  using tracker_ok_run[OF tracker_ok_New[of name d u], of ops] tracker_fixed[of ops t] assms
  by (simp add: tracker_ok_def failure_status_def)

end
