(* ===== verification/Router.thy ===== *)
theory Router
  imports Go_Strings Resilience Protocol
begin

text \<open>
  Upstream routing (\<^verbatim>\<open>src/internal/router\<close>) and the forwarders the server wraps around an upstream
  (\<^verbatim>\<open>src/internal/server/upstream.go\<close>).  A forwarder is a function of the packet and the state \<open>'w\<close> it
  keeps; the context of a call is part of that state.  Metrics are left out.
\<close>

section \<open>Results and failures\<close>

record forward_result =
  fr_RouteName :: string
  fr_TargetType :: string
  fr_Status :: string
  fr_StatusCode :: int
  fr_Endpoint :: string
  fr_Attempts :: int
  fr_MaxAttempts :: int

definition empty_result :: forward_result where
  "empty_result = \<lparr>fr_RouteName = '''', fr_TargetType = '''', fr_Status = '''', fr_StatusCode = 0, fr_Endpoint = '''',
     fr_Attempts = 0, fr_MaxAttempts = 0\<rparr>"

datatype failure_class =
  ClassEncoding | ClassDiscovery | ClassRequest | ClassTransport | ClassTimeout | ClassCanceled | ClassResponse

datatype failover_decision = Decision_Succeeded | Decision_Disabled | Decision_NotRetryable | Decision_Exhausted | Decision_NoAlternate

text \<open>What \<^verbatim>\<open>errors.Is\<close> finds in the cause of a failure.\<close>

datatype cause = Cause_Canceled | Cause_Deadline | Cause_NetTimeout | Cause_NoEndpoint | Cause_Other

record forward_error =
  fe_Class :: failure_class
  fe_Endpoint :: string
  fe_Attempts :: int
  fe_MaxAttempts :: int
  fe_Retryable :: bool
  fe_Decision :: failover_decision
  fe_Cause :: cause

datatype forward_err = RouteNotFound | Overloaded | Forward_Error forward_error | Other_Err cause

type_synonym 'w forwarder = "packet \<Rightarrow> 'w \<Rightarrow> (forward_result option \<times> forward_err option) \<times> 'w"

section \<open>Engine\<close>

text \<open>\<open>ro_Close\<close> is \<^verbatim>\<open>None\<close> for a forwarder without a \<^verbatim>\<open>Close\<close> method.\<close>

record 'w route =
  ro_Name :: string
  ro_MsgIDMin :: "32 word"
  ro_MsgIDMax :: "32 word"
  ro_Forwarder :: "'w forwarder option"
  ro_Close :: "('w \<Rightarrow> cause option \<times> 'w) option"

definition Matches :: "'w route \<Rightarrow> 32 word \<Rightarrow> bool" where
  "Matches r msgID = (if ro_MsgIDMin r = 0 \<and> ro_MsgIDMax r = 0 then False
     else if ro_MsgIDMax r = 0 then msgID = ro_MsgIDMin r
     else ro_MsgIDMin r \<le> msgID \<and> msgID \<le> ro_MsgIDMax r)"

fun ResolveRoute :: "'w route list \<Rightarrow> 32 word \<Rightarrow> string \<times> bool" where
  "ResolveRoute [] msgID = ('''', False)"
| "ResolveRoute (r # rs) msgID = (if Matches r msgID \<and> ro_Forwarder r \<noteq> None then (ro_Name r, True) else ResolveRoute rs msgID)"

fun engine_Forward :: "'w route list \<Rightarrow> 'w forwarder" where
  "engine_Forward [] p w = ((None, Some RouteNotFound), w)"
| "engine_Forward (r # rs) p w = (if \<not> Matches r (pkt_MsgID p) then engine_Forward rs p w
     else case ro_Forwarder r of None \<Rightarrow> engine_Forward rs p w
     | Some f \<Rightarrow>
         let ((result, err), w') = f p w;
             result = (case result of None \<Rightarrow> empty_result | Some x \<Rightarrow> x)
         in ((Some (result\<lparr>fr_RouteName := ro_Name r\<rparr>), err), w'))"

text \<open>\<^verbatim>\<open>errors.Join\<close> of the errors of all closers, every one of which is called.\<close>

fun engine_Close :: "'w route list \<Rightarrow> 'w \<Rightarrow> cause list \<times> 'w" where
  "engine_Close [] w = ([], w)"
| "engine_Close (r # rs) w = (case (ro_Forwarder r, ro_Close r) of
     (Some _, Some close) \<Rightarrow>
       let (err, w') = close w; (errs, w'') = engine_Close rs w'
       in ((case err of None \<Rightarrow> errs | Some e \<Rightarrow> e # errs), w'')
   | _ \<Rightarrow> engine_Close rs w)"

section \<open>Forwarders of the server\<close>

definition capacity_Forward :: "string \<Rightarrow> string \<Rightarrow> 'w forwarder option \<Rightarrow> (limiter option \<times> 'w) forwarder" where
  "capacity_Forward routeName targetType next p s = (case (next, s) of
     (None, _) \<Rightarrow> ((None, Some RouteNotFound), s)
   | (Some f, (l, w)) \<Rightarrow>
       let (ok, l') = TryAcquire l in
       if \<not> ok then ((Some (empty_result\<lparr>fr_RouteName := routeName, fr_TargetType := targetType, fr_Status := ReasonOverloaded\<rparr>),
           Some Overloaded), (l', w))
       else let (out, w') = f p w in (out, (Release l', w')))"

definition class_text :: "failure_class \<Rightarrow> string" where
  "class_text c = (case c of ClassEncoding \<Rightarrow> ''encoding'' | ClassDiscovery \<Rightarrow> ''discovery'' | ClassRequest \<Rightarrow> ''request''
     | ClassTransport \<Rightarrow> ''transport'' | ClassTimeout \<Rightarrow> ''timeout'' | ClassCanceled \<Rightarrow> ''canceled'' | ClassResponse \<Rightarrow> ''response'')"

text \<open>\<^verbatim>\<open>errors.As\<close> to a \<^verbatim>\<open>ForwardError\<close>, whose class is never empty here, then \<^verbatim>\<open>errors.Is\<close> for the two context errors.\<close>

definition safeUpstreamFailureReason :: "forward_result option \<Rightarrow> forward_err \<Rightarrow> string" where
  "safeUpstreamFailureReason result err =
    (if (case result of None \<Rightarrow> False | Some r \<Rightarrow> 0 < fr_StatusCode r) then ''http_status_'' @ dec_int (fr_StatusCode (the result))
     else case err of Forward_Error f \<Rightarrow> class_text (fe_Class f)
     | Other_Err Cause_Deadline \<Rightarrow> ''timeout''
     | Other_Err Cause_Canceled \<Rightarrow> ''canceled''
     | _ \<Rightarrow> ''request_failed'')"

text \<open>The tracker marks the outcome of every call; \<^verbatim>\<open>None\<close> is the \<^verbatim>\<open>nil\<close> tracker.\<close>

definition tracking_Forward :: "time \<Rightarrow> 'w forwarder option \<Rightarrow> (dependency_tracker option \<times> 'w) forwarder" where
  "tracking_Forward now next p s = (case (next, s) of
     (None, _) \<Rightarrow> ((None, Some RouteNotFound), s)
   | (Some f, (t, w)) \<Rightarrow>
       let ((result, err), w') = f p w in
       (case err of
          Some e \<Rightarrow> ((result, Some e), (map_option (MarkFailure now (safeUpstreamFailureReason result e)) t, w'))
        | None \<Rightarrow> ((result, None), (map_option (MarkSuccess now) t, w'))))"

section \<open>The route that is resolved is the one that forwards\<close>

lemma ResolveRoute_found:
  "snd (ResolveRoute rs msgID) \<longleftrightarrow> (\<exists>r\<in>set rs. Matches r msgID \<and> ro_Forwarder r \<noteq> None)"
  by (induction rs) auto

lemma engine_Forward_first:
  assumes "snd (ResolveRoute rs (pkt_MsgID p))"
  shows "\<exists>pre r post f. rs = pre @ r # post \<and> ro_Forwarder r = Some f \<and> Matches r (pkt_MsgID p)
    \<and> (\<forall>x\<in>set pre. \<not> Matches x (pkt_MsgID p) \<or> ro_Forwarder x = None)
    \<and> fst (ResolveRoute rs (pkt_MsgID p)) = ro_Name r
    \<and> engine_Forward rs p w = (let ((result, err), w') = f p w
         in ((Some ((case result of None \<Rightarrow> empty_result | Some x \<Rightarrow> x)\<lparr>fr_RouteName := ro_Name r\<rparr>), err), w'))"
  using assms
proof (induction rs)
  case (Cons r rs)
  show ?case
  proof (cases "Matches r (pkt_MsgID p) \<and> ro_Forwarder r \<noteq> None")
    case True
    then obtain f where "ro_Forwarder r = Some f" by blast
    with True show ?thesis by (intro exI[of _ "[]"] exI[of _ r] exI[of _ rs] exI[of _ f]) simp
  next
    case False
    then have skip: "ResolveRoute (r # rs) (pkt_MsgID p) = ResolveRoute rs (pkt_MsgID p)"
        "engine_Forward (r # rs) p w = engine_Forward rs p w"
      by (auto split: option.splits)
    then obtain pre x post f where ih: "rs = pre @ x # post" "ro_Forwarder x = Some f" "Matches x (pkt_MsgID p)"
        "\<forall>y\<in>set pre. \<not> Matches y (pkt_MsgID p) \<or> ro_Forwarder y = None" "fst (ResolveRoute rs (pkt_MsgID p)) = ro_Name x"
        "engine_Forward rs p w = (let ((result, err), w') = f p w
         in ((Some ((case result of None \<Rightarrow> empty_result | Some x \<Rightarrow> x)\<lparr>fr_RouteName := ro_Name x\<rparr>), err), w'))"
      using Cons by metis
    show ?thesis
      by (intro exI[of _ "r # pre"] exI[of _ x] exI[of _ post] exI[of _ f]) (use ih False skip in auto)
  qed
qed simp

lemma engine_Forward_none:
  "\<not> snd (ResolveRoute rs (pkt_MsgID p)) \<Longrightarrow> engine_Forward rs p w = ((None, Some RouteNotFound), w)"
  by (induction rs) (auto split: if_splits option.splits)

lemma engine_Forward_name:
  "fst (fst (engine_Forward rs p w)) = Some r \<Longrightarrow> ResolveRoute rs (pkt_MsgID p) = (fr_RouteName r, True)"
  by (induction rs) (auto split: if_splits option.splits prod.splits simp: Let_def)

section \<open>At most the permitted number of calls\<close>

text \<open>
  Calls of a capacity forwarder overlap: a call arrives and takes a permit or is refused, and gives the
  permit back when the wrapped forwarder returned.  The state is the limiter and the calls inside.
\<close>

inductive capacity_run :: "int \<Rightarrow> limiter option \<Rightarrow> nat \<Rightarrow> bool" for limit where
  capacity_new: "capacity_run limit (NewLimiter limit) 0"
| capacity_enter: "capacity_run limit l n \<Longrightarrow> TryAcquire l = (True, l') \<Longrightarrow> capacity_run limit l' (Suc n)"
| capacity_refuse: "capacity_run limit l n \<Longrightarrow> TryAcquire l = (False, l') \<Longrightarrow> capacity_run limit l' n"
| capacity_leave: "capacity_run limit l (Suc n) \<Longrightarrow> capacity_run limit (Release l) n"

lemma capacity_run_inv: "capacity_run limit l n \<Longrightarrow>
    (case l of None \<Rightarrow> limit \<le> 0 | Some c \<Rightarrow> 0 < limit \<and> int (li_cap c) = limit \<and> li_len c = n \<and> n \<le> li_cap c)"
proof (induction rule: capacity_run.induct)
  case capacity_new
  then show ?case by (simp add: NewLimiter_def)
qed (auto simp: TryAcquire_def Release_def split: option.splits if_splits)

end
