(* ===== verification/Route_Manager.thy ===== *)
theory Route_Manager
  imports Transition Router
begin

text \<open>
  Route generations (\<^verbatim>\<open>src/internal/server/route_manager.go\<close>).  A reload builds a new generation of upstream
  routes, makes it the active one and retires the old one, which is closed when the last request that
  leased it has finished.  Requests, reloads, the shutdown and the closing goroutines interleave: the
  state holds the generations as a heap, the leases given out, and the code that is still to run, one
  \<open>thread\<close> for every call that is between two of its atomic operations.  Metrics are left out, the
  flag that gates them is not.  Counters of leases are unbounded integers, as no run reaches \<open>2 ^ 63\<close> leases.
\<close>

section \<open>Generations\<close>

datatype generation_state = Gen_Candidate | Gen_Active | Gen_Retiring | Gen_Closed

text \<open>\<open>rg_closes\<close> counts how often the body of \<^verbatim>\<open>closeNow\<close>, which closes the engine, was entered.\<close>

record 'w generation =
  rg_number :: "64 word"
  rg_fingerprint :: string
  rg_activatedAt :: time
  rg_retiringAt :: time
  rg_routeCount :: nat
  rg_engine :: "'w route list option"
  rg_metricsActive :: bool
  rg_state :: generation_state
  rg_inFlight :: int
  rg_closeScheduled :: bool
  rg_closeOnce :: bool
  rg_closeDone :: bool
  rg_closes :: nat
  rg_closeErr :: "cause list"

definition makeRouteGeneration :: "nat \<Rightarrow> 'w route list option \<Rightarrow> string \<Rightarrow> 'w generation" where
  "makeRouteGeneration routeCount engine fingerprint =
    \<lparr>rg_number = 0, rg_fingerprint = fingerprint, rg_activatedAt = 0, rg_retiringAt = 0, rg_routeCount = routeCount,
      rg_engine = engine, rg_metricsActive = False, rg_state = Gen_Candidate, rg_inFlight = 0, rg_closeScheduled = False,
      rg_closeOnce = False, rg_closeDone = False, rg_closes = 0, rg_closeErr = []\<rparr>"

definition prepareActive :: "64 word \<Rightarrow> time \<Rightarrow> 'w generation \<Rightarrow> bool \<times> 'w generation" where
  "prepareActive number activatedAt g =
    (if number = 0 \<or> rg_fingerprint g = '''' then (False, g)
     else let g = g\<lparr>rg_number := number, rg_activatedAt := activatedAt\<rparr> in
       if rg_state g = Gen_Candidate then (True, g\<lparr>rg_state := Gen_Active\<rparr>) else (False, g))"

text \<open>\<^verbatim>\<open>closeNow\<close> in two steps: the engine is closed, with the errors \<open>errs\<close>, and then the end is announced.\<close>

definition close_engine :: "cause list \<Rightarrow> 'w generation \<Rightarrow> 'w generation" where
  "close_engine errs g = g\<lparr>rg_closeOnce := True, rg_metricsActive := False, rg_closes := rg_closes g + 1,
     rg_closeErr := (if rg_engine g = None then [] else errs)\<rparr>"

definition close_finish :: "'w generation \<Rightarrow> 'w generation" where
  "close_finish g = g\<lparr>rg_state := Gen_Closed, rg_closeDone := True\<rparr>"

definition closeNow :: "cause list \<Rightarrow> 'w generation \<Rightarrow> 'w generation" where
  "closeNow errs g = (if rg_closeOnce g then g else close_finish (close_engine errs g))"

definition discard :: "cause list \<Rightarrow> 'w generation \<Rightarrow> 'w generation" where
  "discard errs g = (if rg_state g \<noteq> Gen_Candidate then g
     else if rg_closeScheduled g then g else closeNow errs (g\<lparr>rg_closeScheduled := True\<rparr>))"

record generation_snapshot =
  gs_Number :: "64 word"
  gs_Fingerprint :: string
  gs_ActivatedAt :: time
  gs_RetiringAt :: time
  gs_RouteCount :: nat
  gs_InFlight :: int
  gs_State :: string

definition routeGenerationStateName :: "generation_state \<Rightarrow> string" where
  "routeGenerationStateName s = (case s of Gen_Candidate \<Rightarrow> ''candidate'' | Gen_Active \<Rightarrow> ''active''
     | Gen_Retiring \<Rightarrow> ''retiring'' | Gen_Closed \<Rightarrow> ''closed'')"

definition snapshotRouteGeneration :: "'w generation option \<Rightarrow> generation_snapshot" where
  "snapshotRouteGeneration generation = (case generation of
     None \<Rightarrow> \<lparr>gs_Number = 0, gs_Fingerprint = '''', gs_ActivatedAt = 0, gs_RetiringAt = 0, gs_RouteCount = 0, gs_InFlight = 0,
       gs_State = ''''\<rparr>
   | Some g \<Rightarrow> \<lparr>gs_Number = rg_number g, gs_Fingerprint = rg_fingerprint g, gs_ActivatedAt = rg_activatedAt g,
       gs_RetiringAt = rg_retiringAt g, gs_RouteCount = rg_routeCount g, gs_InFlight = rg_inFlight g,
       gs_State = routeGenerationStateName (rg_state g)\<rparr>)"

section \<open>The manager\<close>

datatype route_manager_err = ErrRouteManagerClosed | ErrRouteReloadBusy | ErrRouteGenerationConflict | ErrRouteCandidateInvalid

text \<open>
  Calls in flight.  \<open>Releasing\<close> swapped the flag of its lease and has yet to count down; \<open>Checking\<close> is at
  the start of \<^verbatim>\<open>closeIfDrained\<close>, \<open>Drained\<close> has seen no request in flight, \<open>Retired\<close> has seen
  the state \<^verbatim>\<open>retiring\<close> too; \<open>Closing\<close> is the goroutine that runs \<^verbatim>\<open>closeNow\<close>, \<open>Finishing\<close> has
  closed the engine.
\<close>

datatype thread = Releasing nat | Checking nat | Drained nat | Retired nat | Closing nat | Finishing nat

text \<open>
  The reload that holds the gate: none; one that began and builds its candidate, with the generation it
  expects; one whose candidate waits to be activated; one that is over but for \<^verbatim>\<open>finishReload\<close>.
\<close>

datatype reload_state = No_Reload | Building bool "64 word" | Activating "64 word" nat | Reloaded

record 'w route_manager =
  rm_heap :: "'w generation list"
  rm_active :: "nat option"
  rm_retiring :: "nat option"
  rm_nextNumber :: "64 word"
  rm_closed :: bool
  rm_reload :: reload_state
  rm_drainTimeout :: duration
  rm_shutdown :: bool
  rm_shutdownGenerations :: "nat list"
  rm_leases :: "(nat \<times> bool) list"
  rm_threads :: "thread list"

definition upd_gen :: "nat \<Rightarrow> ('w generation \<Rightarrow> 'w generation) \<Rightarrow> 'w route_manager \<Rightarrow> 'w route_manager" where
  "upd_gen g f m = m\<lparr>rm_heap := (rm_heap m)[g := f (rm_heap m ! g)]\<rparr>"

definition spawn :: "thread list \<Rightarrow> 'w route_manager \<Rightarrow> 'w route_manager" where
  "spawn ts m = m\<lparr>rm_threads := ts @ rm_threads m\<rparr>"

definition newRouteManagerWithClock :: "'w generation option \<Rightarrow> duration \<Rightarrow> time \<Rightarrow> route_manager_err + 'w route_manager" where
  "newRouteManagerWithClock initial drainTimeout now = (case initial of None \<Rightarrow> Inl ErrRouteCandidateInvalid
   | Some g \<Rightarrow>
       if rg_fingerprint g = '''' \<or> rg_state g \<noteq> Gen_Candidate then Inl ErrRouteCandidateInvalid
       else let (ok, g) = prepareActive 1 now g in
         if \<not> ok then Inl ErrRouteCandidateInvalid
         else Inr \<lparr>rm_heap = [g\<lparr>rg_metricsActive := True\<rparr>], rm_active = Some 0, rm_retiring = None, rm_nextNumber = 1,
           rm_closed = False, rm_reload = No_Reload, rm_drainTimeout = max 0 drainTimeout, rm_shutdown = False,
           rm_shutdownGenerations = [], rm_leases = [], rm_threads = []\<rparr>)"

definition Acquire :: "'w route_manager \<Rightarrow> (route_manager_err + nat) \<times> 'w route_manager" where
  "Acquire m = (if rm_closed m then (Inl ErrRouteManagerClosed, m) else case rm_active m of
     None \<Rightarrow> (Inl ErrRouteManagerClosed, m)
   | Some g \<Rightarrow>
       let m = upd_gen g (\<lambda>x. x\<lparr>rg_inFlight := rg_inFlight x + 1\<rparr>) m
       in (Inr (length (rm_leases m)), m\<lparr>rm_leases := rm_leases m @ [(g, False)]\<rparr>))"

definition lease_engine :: "'w route_manager \<Rightarrow> nat \<Rightarrow> 'w route list option" where
  "lease_engine m l = (case rm_leases m ! l of (g, released) \<Rightarrow> if released then None else rg_engine (rm_heap m ! g))"

definition lease_ResolveRoute :: "'w route_manager \<Rightarrow> nat \<Rightarrow> 32 word \<Rightarrow> string \<times> bool" where
  "lease_ResolveRoute m l msgID = (case lease_engine m l of None \<Rightarrow> ('''', False) | Some rs \<Rightarrow> ResolveRoute rs msgID)"

definition lease_Forward :: "'w route_manager \<Rightarrow> nat \<Rightarrow> 'w forwarder" where
  "lease_Forward m l p w = (case lease_engine m l of None \<Rightarrow> ((None, Some RouteNotFound), w) | Some rs \<Rightarrow> engine_Forward rs p w)"

definition lease_Generation :: "'w route_manager \<Rightarrow> nat \<Rightarrow> 64 word" where
  "lease_Generation m l = rg_number (rm_heap m ! fst (rm_leases m ! l))"

definition lease_Release :: "nat \<Rightarrow> 'w route_manager \<Rightarrow> 'w route_manager" where
  "lease_Release l m = (case rm_leases m ! l of (g, released) \<Rightarrow>
     if released then m else spawn [Releasing g] (m\<lparr>rm_leases := (rm_leases m)[l := (g, True)]\<rparr>))"

definition clearRetiringLocked :: "'w route_manager \<Rightarrow> 'w route_manager" where
  "clearRetiringLocked m = (case rm_retiring m of None \<Rightarrow> m
     | Some g \<Rightarrow> if rg_closeDone (rm_heap m ! g) then m\<lparr>rm_retiring := None\<rparr> else m)"

definition activeSnapshot :: "'w route_manager \<Rightarrow> generation_snapshot" where
  "activeSnapshot m = snapshotRouteGeneration (map_option (\<lambda>g. rm_heap m ! g) (rm_active m))"

text \<open>The checks under the lock that \<^verbatim>\<open>beginReload\<close> and \<^verbatim>\<open>activateCandidate\<close> share.\<close>

definition reload_check :: "64 word \<Rightarrow> 'w route_manager \<Rightarrow> route_manager_err option" where
  "reload_check expected m = (if rm_closed m then Some ErrRouteManagerClosed else case rm_active m of
     None \<Rightarrow> Some ErrRouteManagerClosed
   | Some g \<Rightarrow>
       if rm_retiring m \<noteq> None then Some ErrRouteReloadBusy
       else if expected \<noteq> 0 \<and> rg_number (rm_heap m ! g) \<noteq> expected then Some ErrRouteGenerationConflict
       else None)"

definition beginReload :: "bool \<Rightarrow> 64 word \<Rightarrow> 'w route_manager \<Rightarrow> (route_manager_err option \<times> generation_snapshot) \<times> 'w route_manager" where
  "beginReload dry expected m =
    (let m = clearRetiringLocked m; snapshot = activeSnapshot m in
     case reload_check expected m of
       Some err \<Rightarrow> ((Some err, snapshot), m)
     | None \<Rightarrow> ((None, snapshot), m\<lparr>rm_reload := Building dry expected\<rparr>))"

definition finishReload :: "'w route_manager \<Rightarrow> 'w route_manager" where
  "finishReload m = m\<lparr>rm_reload := No_Reload\<rparr>"

text \<open>\<^verbatim>\<open>m.now()\<close> is read twice, for the activation and the retirement.\<close>

definition activateCandidate ::
  "time \<Rightarrow> time \<Rightarrow> 64 word \<Rightarrow> nat \<Rightarrow> 'w route_manager \<Rightarrow> (route_manager_err option \<times> generation_snapshot) \<times> 'w route_manager" where
  "activateCandidate now1 now2 expected candidate m =
    (let m = clearRetiringLocked m in
     case (reload_check expected m, rm_active m) of
       (Some err, _) \<Rightarrow> ((Some err, activeSnapshot m), m)
     | (None, None) \<Rightarrow> ((Some ErrRouteManagerClosed, activeSnapshot m), m)
     | (None, Some old) \<Rightarrow>
         let c = rm_heap m ! candidate in
         if rg_fingerprint c = '''' \<or> rg_state c \<noteq> Gen_Candidate then ((Some ErrRouteCandidateInvalid, activeSnapshot m), m)
         else let nextNumber = rm_nextNumber m + 1; (ok, c) = prepareActive nextNumber now1 c;
                  m = upd_gen candidate (\<lambda>_. c) m in
           if \<not> ok then ((Some ErrRouteCandidateInvalid, activeSnapshot m), m)
           else let m = upd_gen old (\<lambda>g. g\<lparr>rg_metricsActive := False\<rparr>) m;
                    m = upd_gen candidate (\<lambda>g. g\<lparr>rg_metricsActive := True\<rparr>) m;
                    m = upd_gen old (\<lambda>g. g\<lparr>rg_retiringAt := now2, rg_state := Gen_Retiring\<rparr>) m;
                    m = m\<lparr>rm_active := Some candidate, rm_retiring := Some old, rm_nextNumber := nextNumber\<rparr>
             in ((None, activeSnapshot m), spawn [Checking old] m))"

definition beginShutdown :: "'w route_manager \<Rightarrow> 'w route_manager" where
  "beginShutdown m = (if rm_shutdown m then m
     else let m = clearRetiringLocked (m\<lparr>rm_shutdown := True, rm_closed := True\<rparr>);
              gens = remdups (case_option [] (\<lambda>g. [g]) (rm_retiring m) @ case_option [] (\<lambda>g. [g]) (rm_active m));
              m = m\<lparr>rm_shutdownGenerations := gens\<rparr>;
              m = (case rm_active m of None \<Rightarrow> m
                | Some g \<Rightarrow> upd_gen g (\<lambda>x. x\<lparr>rg_metricsActive := False, rg_state := Gen_Retiring\<rparr>) m)
       in spawn (map Checking gens) (m\<lparr>rm_active := None\<rparr>))"

text \<open>\<^verbatim>\<open>Shutdown\<close> returns, unless its context ends first, when the reload it found is over and all its generations closed.\<close>

definition shutdown_complete :: "'w route_manager \<Rightarrow> bool" where
  "shutdown_complete m \<longleftrightarrow> rm_shutdown m \<and> rm_reload m = No_Reload \<and> (\<forall>g\<in>set (rm_shutdownGenerations m). rg_closeDone (rm_heap m ! g))"

definition manager_Snapshot :: "'w route_manager \<Rightarrow> (bool \<times> generation_snapshot option \<times> generation_snapshot option) \<times> 'w route_manager" where
  "manager_Snapshot m =
    (let m = clearRetiringLocked m; snap = map_option (\<lambda>g. snapshotRouteGeneration (Some (rm_heap m ! g)))
     in ((rm_closed m, snap (rm_active m), snap (rm_retiring m)), m))"

section \<open>Steps\<close>

text \<open>What a thread does next: the thread it becomes, and its effect.\<close>

fun thread_step :: "cause list \<Rightarrow> thread \<Rightarrow> 'w route_manager \<Rightarrow> thread list \<times> 'w route_manager" where
  "thread_step errs (Releasing g) m =
    (let m = upd_gen g (\<lambda>x. x\<lparr>rg_inFlight := rg_inFlight x - 1\<rparr>) m
     in (if rg_inFlight (rm_heap m ! g) = 0 then [Checking g] else [], m))"
| "thread_step errs (Checking g) m = (if rg_inFlight (rm_heap m ! g) \<noteq> 0 then [] else [Drained g], m)"
| "thread_step errs (Drained g) m = (if rg_state (rm_heap m ! g) \<noteq> Gen_Retiring then [] else [Retired g], m)"
| "thread_step errs (Retired g) m = (if rg_closeScheduled (rm_heap m ! g) then ([], m)
     else ([Closing g], upd_gen g (\<lambda>x. x\<lparr>rg_closeScheduled := True\<rparr>) m))"
| "thread_step errs (Closing g) m = (if rg_closeOnce (rm_heap m ! g) then ([], m) else ([Finishing g], upd_gen g (close_engine errs) m))"
| "thread_step errs (Finishing g) m = ([], upd_gen g close_finish m)"

text \<open>
  The builder of a reload fails, with or without a candidate, returns no candidate, or returns one; the
  context of the reload may have ended by then.
\<close>

datatype 'w build_outcome = Build_Failed | Build_Nothing | Build_Candidate bool nat "'w route list option" string

datatype 'w action =
    Do_Acquire
  | Do_Release nat
  | Do_Thread thread "cause list"
  | Do_Begin bool "64 word"
  | Do_Build "cause list" "'w build_outcome"
  | Do_Activate time time "cause list"
  | Do_Finish
  | Do_Snapshot
  | Do_Shutdown

text \<open>
  \<^verbatim>\<open>Reload\<close> and \<^verbatim>\<open>DryRun\<close> after the builder returned: a candidate that is not to be activated, or came
  too late, is discarded.  A dry run ends the same way for a valid and an invalid candidate; it only
  returns a snapshot of the valid one.
\<close>

definition reload_built :: "64 word \<Rightarrow> cause list \<Rightarrow> 'w build_outcome \<Rightarrow> 'w route_manager \<Rightarrow> 'w route_manager" where
  "reload_built expected errs outcome m = (case outcome of
     Build_Candidate ctx_done routeCount engine fingerprint \<Rightarrow>
       let c = makeRouteGeneration routeCount engine fingerprint; g = length (rm_heap m) in
       if ctx_done then m\<lparr>rm_heap := rm_heap m @ [discard errs c], rm_reload := Reloaded\<rparr>
       else m\<lparr>rm_heap := rm_heap m @ [c], rm_reload := Activating expected g\<rparr>
   | _ \<Rightarrow> m\<lparr>rm_reload := Reloaded\<rparr>)"

definition dryrun_built :: "cause list \<Rightarrow> 'w build_outcome \<Rightarrow> 'w route_manager \<Rightarrow> 'w route_manager" where
  "dryrun_built errs outcome m = (case outcome of
     Build_Candidate ctx_done routeCount engine fingerprint \<Rightarrow>
       m\<lparr>rm_heap := rm_heap m @ [discard errs (makeRouteGeneration routeCount engine fingerprint)], rm_reload := Reloaded\<rparr>
   | _ \<Rightarrow> m\<lparr>rm_reload := Reloaded\<rparr>)"

definition manager_step :: "'w action \<Rightarrow> 'w route_manager \<Rightarrow> 'w route_manager option" where
  "manager_step a m = (case a of
     Do_Acquire \<Rightarrow> Some (snd (Acquire m))
   | Do_Release l \<Rightarrow> if l < length (rm_leases m) then Some (lease_Release l m) else None
   | Do_Thread t errs \<Rightarrow>
       if t \<in> set (rm_threads m)
       then let (ts, m') = thread_step errs t (m\<lparr>rm_threads := remove1 t (rm_threads m)\<rparr>) in Some (spawn ts m') else None
   | Do_Begin dry expected \<Rightarrow> if rm_reload m = No_Reload then Some (snd (beginReload dry expected m)) else None
   | Do_Build errs outcome \<Rightarrow>
       (case rm_reload m of Building dry expected \<Rightarrow> Some (if dry then dryrun_built errs outcome m else reload_built expected errs outcome m) | _ \<Rightarrow> None)
   | Do_Activate now1 now2 errs \<Rightarrow>
       (case rm_reload m of
          Activating expected g \<Rightarrow>
            let ((err, _), m') = activateCandidate now1 now2 expected g m;
                m' = (if err = None then m' else upd_gen g (discard errs) m')
            in Some (m'\<lparr>rm_reload := Reloaded\<rparr>)
        | _ \<Rightarrow> None)
   | Do_Finish \<Rightarrow> if rm_reload m = Reloaded then Some (finishReload m) else None
   | Do_Snapshot \<Rightarrow> Some (snd (manager_Snapshot m))
   | Do_Shutdown \<Rightarrow> Some (beginShutdown m))"

definition manager_init :: "'w route_manager \<Rightarrow> bool" where
  "manager_init m \<longleftrightarrow> (\<exists>routeCount engine fingerprint drainTimeout now.
     newRouteManagerWithClock (Some (makeRouteGeneration routeCount engine fingerprint)) drainTimeout now = Inr m)"

section \<open>The invariant\<close>

fun target :: "thread \<Rightarrow> nat" where
  "target (Releasing g) = g" | "target (Checking g) = g" | "target (Drained g) = g"
| "target (Retired g) = g" | "target (Closing g) = g" | "target (Finishing g) = g"

text \<open>The leases of a generation that are not released, and whether a check for closing it is under way.\<close>

definition live :: "'w route_manager \<Rightarrow> nat \<Rightarrow> nat" where
  "live m g = count_list (rm_leases m) (g, False)"

definition pending :: "'w route_manager \<Rightarrow> nat \<Rightarrow> bool" where
  "pending m g \<longleftrightarrow> Checking g \<in> set (rm_threads m) \<or> Drained g \<in> set (rm_threads m) \<or> Retired g \<in> set (rm_threads m)"

text \<open>
  One generation in order: \<open>lv\<close> of its leases are not released, \<open>rel\<close> releases have yet to count down,
  \<open>pend\<close> says that a check is under way and \<open>rtd\<close> that one saw it retiring, \<open>cls\<close> and \<open>fin\<close> count the
  goroutines that close it; it is the active one, one that may be retiring, or the candidate of a reload
  according to \<open>act\<close>, \<open>ret\<close> and \<open>cand\<close>.
\<close>

definition gen_ok :: "'w generation \<Rightarrow> nat \<Rightarrow> nat \<Rightarrow> bool \<Rightarrow> bool \<Rightarrow> nat \<Rightarrow> nat \<Rightarrow> bool \<Rightarrow> bool \<Rightarrow> bool \<Rightarrow> bool" where
  "gen_ok x lv rel pend rtd cls fin act ret cand \<longleftrightarrow>
     rg_inFlight x = int (lv + rel)
     \<and> (rg_state x = Gen_Active \<longleftrightarrow> act)
     \<and> cls + fin + of_bool (rg_closeDone x) = of_bool (rg_closeScheduled x)
     \<and> fin + of_bool (rg_closeDone x) = of_bool (rg_closeOnce x)
     \<and> rg_closes x = of_bool (rg_closeOnce x)
     \<and> (rg_state x = Gen_Closed \<longleftrightarrow> rg_closeDone x)
     \<and> (rg_closeScheduled x \<or> rtd \<longrightarrow> rg_state x = Gen_Retiring \<or> rg_state x = Gen_Closed)
     \<and> (rg_state x = Gen_Retiring \<and> rg_inFlight x = 0 \<and> \<not> rg_closeScheduled x \<longrightarrow> pend)
     \<and> (rg_state x = Gen_Retiring \<longrightarrow> ret)
     \<and> (rg_state x = Gen_Candidate \<longrightarrow> cand \<and> rg_inFlight x = 0)"

definition gen_inv :: "'w route_manager \<Rightarrow> nat \<Rightarrow> bool" where
  "gen_inv m g \<longleftrightarrow> gen_ok (rm_heap m ! g) (live m g) (count_list (rm_threads m) (Releasing g)) (pending m g)
     (Retired g \<in> set (rm_threads m)) (count_list (rm_threads m) (Closing g)) (count_list (rm_threads m) (Finishing g))
     (rm_active m = Some g) (rm_retiring m = Some g \<or> g \<in> set (rm_shutdownGenerations m)) (\<exists>e. rm_reload m = Activating e g)"

definition frame_inv :: "'w route_manager \<Rightarrow> bool" where
  "frame_inv m \<longleftrightarrow> (\<forall>p\<in>set (rm_leases m). fst p < length (rm_heap m)) \<and> (\<forall>t\<in>set (rm_threads m). target t < length (rm_heap m))
     \<and> (\<forall>g. rm_active m = Some g \<longrightarrow> g < length (rm_heap m))
     \<and> (\<forall>g. rm_retiring m = Some g \<longrightarrow> g < length (rm_heap m) \<and> (rg_state (rm_heap m ! g) = Gen_Retiring \<or> rg_state (rm_heap m ! g) = Gen_Closed))
     \<and> (\<forall>e g. rm_reload m = Activating e g \<longrightarrow> g < length (rm_heap m) \<and> rg_state (rm_heap m ! g) = Gen_Candidate)
     \<and> (rm_shutdown m \<longleftrightarrow> rm_closed m) \<and> (rm_closed m \<longrightarrow> rm_active m = None)
     \<and> (\<not> rm_closed m \<longrightarrow> rm_shutdownGenerations m = [])
     \<and> (rm_closed m \<longrightarrow> set_option (rm_retiring m) \<subseteq> set (rm_shutdownGenerations m))
     \<and> (\<forall>g\<in>set (rm_shutdownGenerations m). g < length (rm_heap m))"

definition manager_inv :: "'w route_manager \<Rightarrow> bool" where
  "manager_inv m \<longleftrightarrow> (\<forall>g<length (rm_heap m). gen_inv m g) \<and> frame_inv m"

lemma count_list_remove1: "t \<in> set ts \<Longrightarrow> count_list (remove1 t ts) x = count_list ts x - (if x = t then 1 else 0)"
  by (induction ts) (auto simp: count_list_0_iff)

lemma count_list_pos: "0 < count_list xs x \<longleftrightarrow> x \<in> set xs"
  using count_list_0_iff[of xs x] by auto

lemma count_list_update: "i < length xs \<Longrightarrow> xs ! i = x \<Longrightarrow> x \<noteq> y \<Longrightarrow>
    count_list (xs[i := y]) z = count_list xs z - (if z = x then 1 else 0) + (if z = y then 1 else 0)"
proof (induction xs arbitrary: i)
  case (Cons a xs)
  show ?case
  proof (cases i)
    case (Suc j)
    have "z = x \<Longrightarrow> x \<in> set xs" using Cons.prems(1,2) Suc by auto
    then have "z = x \<Longrightarrow> 0 < count_list xs z" by (simp add: count_list_pos)
    then show ?thesis using Cons.IH[of j] Cons.prems Suc by auto
  qed (use Cons.prems in auto)
qed simp

lemma manager_invD:
  assumes "manager_inv m"
  shows "g < length (rm_heap m) \<Longrightarrow> gen_inv m g" "(g, r) \<in> set (rm_leases m) \<Longrightarrow> g < length (rm_heap m)"
    "t \<in> set (rm_threads m) \<Longrightarrow> target t < length (rm_heap m)" "rm_active m = Some g \<Longrightarrow> g < length (rm_heap m)"
    "rm_reload m = Activating e g \<Longrightarrow> g < length (rm_heap m) \<and> rg_state (rm_heap m ! g) = Gen_Candidate" "frame_inv m"
  using assms by (fastforce simp: manager_inv_def frame_inv_def)+

lemma manager_inv_init: "manager_init m \<Longrightarrow> manager_inv m"
  by (auto simp: manager_init_def newRouteManagerWithClock_def makeRouteGeneration_def prepareActive_def manager_inv_def
      frame_inv_def gen_inv_def gen_ok_def live_def pending_def Let_def split: if_splits)

lemma heap_upd_gen [simp]:
  "rm_heap (upd_gen g f m) = (rm_heap m)[g := f (rm_heap m ! g)]" "rm_leases (upd_gen g f m) = rm_leases m"
  "rm_threads (upd_gen g f m) = rm_threads m" "rm_active (upd_gen g f m) = rm_active m" "rm_retiring (upd_gen g f m) = rm_retiring m"
  "rm_reload (upd_gen g f m) = rm_reload m" "rm_closed (upd_gen g f m) = rm_closed m" "rm_shutdown (upd_gen g f m) = rm_shutdown m"
  "rm_shutdownGenerations (upd_gen g f m) = rm_shutdownGenerations m" "rm_nextNumber (upd_gen g f m) = rm_nextNumber m"
  by (simp_all add: upd_gen_def)

lemma clear_fields [simp]:
  "rm_heap (clearRetiringLocked m) = rm_heap m" "rm_leases (clearRetiringLocked m) = rm_leases m"
  "rm_threads (clearRetiringLocked m) = rm_threads m" "rm_active (clearRetiringLocked m) = rm_active m"
  "rm_reload (clearRetiringLocked m) = rm_reload m" "rm_closed (clearRetiringLocked m) = rm_closed m"
  "rm_shutdown (clearRetiringLocked m) = rm_shutdown m" "rm_shutdownGenerations (clearRetiringLocked m) = rm_shutdownGenerations m"
  "rm_nextNumber (clearRetiringLocked m) = rm_nextNumber m"
  by (simp_all add: clearRetiringLocked_def split: option.splits)

text \<open>A step that leaves a generation and all that concerns it alone keeps it in order.\<close>

lemma gen_ok_mono: "gen_ok x lv rel pend rtd cls fin act ret cand \<Longrightarrow> (ret \<and> rg_state x = Gen_Retiring \<longrightarrow> ret')
    \<Longrightarrow> (cand \<and> rg_state x = Gen_Candidate \<longrightarrow> cand') \<Longrightarrow> gen_ok x lv rel pend rtd cls fin act ret' cand'"
  by (auto simp: gen_ok_def)

lemma gen_inv_frame:
  assumes "gen_inv m g" "rm_heap m' ! g = rm_heap m ! g" "live m' g = live m g"
    and "\<And>t. target t = g \<Longrightarrow> count_list (rm_threads m') t = count_list (rm_threads m) t"
    and "rm_active m' = Some g \<longleftrightarrow> rm_active m = Some g"
    and "rm_retiring m = Some g \<and> rg_state (rm_heap m ! g) = Gen_Retiring \<Longrightarrow> rm_retiring m' = Some g \<or> g \<in> set (rm_shutdownGenerations m')"
    and "g \<in> set (rm_shutdownGenerations m) \<Longrightarrow> g \<in> set (rm_shutdownGenerations m')"
    and "\<And>e. rm_reload m = Activating e g \<and> rg_state (rm_heap m ! g) = Gen_Candidate \<Longrightarrow> \<exists>e. rm_reload m' = Activating e g"
  shows "gen_inv m' g"
proof -
  have n: "count_list (rm_threads m') (Releasing g) = count_list (rm_threads m) (Releasing g)"
      "count_list (rm_threads m') (Closing g) = count_list (rm_threads m) (Closing g)"
      "count_list (rm_threads m') (Finishing g) = count_list (rm_threads m) (Finishing g)"
    by (simp_all add: assms(4))
  have e: "t \<in> set (rm_threads m') \<longleftrightarrow> t \<in> set (rm_threads m)" if "target t = g" for t
    using assms(4)[OF that] count_list_pos by metis
  have p: "pending m' g \<longleftrightarrow> pending m g" "Retired g \<in> set (rm_threads m') \<longleftrightarrow> Retired g \<in> set (rm_threads m)"
    by (simp_all add: pending_def e)
  show ?thesis
    unfolding gen_inv_def n p assms(2,3,5)
    by (rule gen_ok_mono[OF assms(1)[unfolded gen_inv_def]]) (use assms(6-8) in blast)+
qed

lemma frame_inv_update:
  assumes "frame_inv m" "g < length (rm_heap m)"
    and "rg_state x = rg_state (rm_heap m ! g) \<or> rg_state x = Gen_Closed \<and> rg_state (rm_heap m ! g) = Gen_Retiring"
    and "\<forall>p\<in>set ls. fst p < length (rm_heap m)" "\<forall>t\<in>set ts. target t < length (rm_heap m)"
  shows "frame_inv (m\<lparr>rm_heap := (rm_heap m)[g := x], rm_leases := ls, rm_threads := ts\<rparr>)"
proof -
  have "rg_state ((rm_heap m)[g := x] ! h) = Gen_Candidate \<longleftrightarrow> rg_state (rm_heap m ! h) = Gen_Candidate" for h
    using assms(2,3) by (cases "h = g") auto
  moreover have "rg_state ((rm_heap m)[g := x] ! h) = Gen_Retiring \<or> rg_state ((rm_heap m)[g := x] ! h) = Gen_Closed
      \<longleftrightarrow> rg_state (rm_heap m ! h) = Gen_Retiring \<or> rg_state (rm_heap m ! h) = Gen_Closed" for h
    using assms(2,3) by (cases "h = g") auto
  ultimately show ?thesis using assms(1,4,5) by (simp add: frame_inv_def)
qed

text \<open>A step on one generation, with the leases and threads that concern it.\<close>

lemma inv_one:
  assumes inv: "manager_inv m" and g: "g < length (rm_heap m)"
    and st: "rg_state x = rg_state (rm_heap m ! g) \<or> rg_state x = Gen_Closed \<and> rg_state (rm_heap m ! g) = Gen_Retiring"
    and ptrs: "\<forall>p\<in>set ls. fst p < length (rm_heap m)" "\<forall>t\<in>set ts. target t < length (rm_heap m)"
    and others: "\<And>h. h \<noteq> g \<Longrightarrow> count_list ls (h, False) = count_list (rm_leases m) (h, False)"
      "\<And>t. target t \<noteq> g \<Longrightarrow> count_list ts t = count_list (rm_threads m) t"
    and m': "m' = m\<lparr>rm_heap := (rm_heap m)[g := x], rm_leases := ls, rm_threads := ts\<rparr>"
    and own: "gen_ok x (count_list ls (g, False)) (count_list ts (Releasing g))
      (Checking g \<in> set ts \<or> Drained g \<in> set ts \<or> Retired g \<in> set ts) (Retired g \<in> set ts)
      (count_list ts (Closing g)) (count_list ts (Finishing g)) (rm_active m = Some g)
      (rm_retiring m = Some g \<or> g \<in> set (rm_shutdownGenerations m)) (\<exists>e. rm_reload m = Activating e g)"
  shows "manager_inv m'"
proof -
  have "gen_inv m' h" if h: "h < length (rm_heap m)" for h
  proof (cases "h = g")
    case True
    then show ?thesis using own g by (simp add: gen_inv_def m' live_def pending_def)
  next
    case False
    then show ?thesis by (intro gen_inv_frame[OF manager_invD(1)[OF inv h]]) (simp_all add: m' live_def others)
  qed
  moreover have "frame_inv m'" unfolding m' by (rule frame_inv_update[OF manager_invD(6)[OF inv] g st ptrs])
  ultimately show ?thesis by (simp add: manager_inv_def m')
qed

text \<open>What each step does to the generation it concerns.\<close>

lemma gen_ok_enter: "gen_ok x lv rel p r c f True ret cand \<Longrightarrow> gen_ok (x\<lparr>rg_inFlight := rg_inFlight x + 1\<rparr>) (Suc lv) rel p r c f True ret cand"
  by (auto simp: gen_ok_def)

lemma gen_ok_release: "gen_ok x (Suc lv) rel p r c f act ret cand \<Longrightarrow> gen_ok x lv (Suc rel) p r c f act ret cand"
  by (auto simp: gen_ok_def)

lemma gen_ok_count:
  "gen_ok x lv (Suc rel) p r c f act ret cand \<Longrightarrow> gen_ok (x\<lparr>rg_inFlight := rg_inFlight x - 1\<rparr>) lv rel (rg_inFlight x = 1 \<or> p) r c f act ret cand"
  by (auto simp: gen_ok_def)

lemma gen_ok_check: "gen_ok x lv rel p r c f act ret cand \<Longrightarrow> rg_inFlight x \<noteq> 0 \<or> p' \<Longrightarrow> gen_ok x lv rel p' r c f act ret cand"
  by (auto simp: gen_ok_def)

lemma gen_ok_drained:
  "gen_ok x lv rel p r c f act ret cand \<Longrightarrow> (rg_state x \<noteq> Gen_Retiring \<and> r' = r) \<or> (rg_state x = Gen_Retiring \<and> p') \<Longrightarrow>
    gen_ok x lv rel p' r' c f act ret cand"
  by (auto simp: gen_ok_def)

lemma gen_ok_schedule:
  "gen_ok x lv rel p True c f act ret cand \<Longrightarrow> \<not> rg_closeScheduled x \<Longrightarrow>
    gen_ok (x\<lparr>rg_closeScheduled := True\<rparr>) lv rel p' r' (Suc c) f act ret cand"
  by (auto simp: gen_ok_def)

lemma gen_ok_scheduled: "gen_ok x lv rel p True c f act ret cand \<Longrightarrow> rg_closeScheduled x \<Longrightarrow> gen_ok x lv rel p' r' c f act ret cand"
  by (auto simp: gen_ok_def)

lemma gen_ok_close:
  assumes "gen_ok x lv rel p r (Suc c) f act ret cand"
  shows "\<not> rg_closeOnce x" "gen_ok (close_engine errs x) lv rel p r c (Suc f) act ret cand"
  using assms by (cases "rg_closeDone x"; cases "rg_closeScheduled x"; auto simp: gen_ok_def close_engine_def)+

lemma gen_ok_finish:
  assumes "gen_ok x lv rel p r c (Suc f) act ret cand"
  shows "gen_ok (close_finish x) lv rel p r c f act ret cand" "rg_state x = Gen_Retiring"
  using assms by (cases "rg_closeDone x"; cases "rg_closeScheduled x"; auto simp: gen_ok_def close_finish_def)+

lemma inv_Acquire:
  assumes inv: "manager_inv m"
  shows "manager_inv (snd (Acquire m))"
proof (cases "rm_closed m \<or> rm_active m = None")
  case True
  then show ?thesis using inv by (auto simp: Acquire_def)
next
  case False
  then obtain g where act: "rm_active m = Some g" "\<not> rm_closed m" by blast
  let ?x = "(rm_heap m ! g)\<lparr>rg_inFlight := rg_inFlight (rm_heap m ! g) + 1\<rparr>"
  have g: "g < length (rm_heap m)" "gen_inv m g" using inv act(1) by (simp_all add: manager_invD)
  show ?thesis
  proof (rule inv_one[OF inv g(1), where x = ?x and ls = "rm_leases m @ [(g, False)]" and ts = "rm_threads m"])
    show "snd (Acquire m) = m\<lparr>rm_heap := (rm_heap m)[g := ?x], rm_leases := rm_leases m @ [(g, False)], rm_threads := rm_threads m\<rparr>"
      using act by (simp add: Acquire_def Let_def upd_gen_def)
  qed (use g act manager_invD(2,3)[OF inv] gen_ok_enter in \<open>auto simp: gen_inv_def live_def pending_def\<close>)
qed

lemma inv_lease_Release:
  assumes inv: "manager_inv m" and l: "l < length (rm_leases m)"
  shows "manager_inv (lease_Release l m)"
proof -
  obtain g released where lease: "rm_leases m ! l = (g, released)" by fastforce
  have mem: "(g, released) \<in> set (rm_leases m)" using l lease by (metis nth_mem)
  have g: "g < length (rm_heap m)" "gen_inv m g" using manager_invD(1,2)[OF inv] mem by blast+
  show ?thesis
  proof (cases released)
    case True
    then show ?thesis using inv lease by (simp add: lease_Release_def)
  next
    case False
    let ?ls = "(rm_leases m)[l := (g, True)]"
    have n: "count_list ?ls (h, False) = count_list (rm_leases m) (h, False) - (if h = g then 1 else 0)" for h
      using count_list_update[OF l, of "(g, False)" "(g, True)" "(h, False)"] lease False by simp
    have "0 < count_list (rm_leases m) (g, False)" using mem False by (simp add: count_list_pos)
    then have suc: "live m g = Suc (count_list ?ls (g, False))" by (simp add: n live_def)
    show ?thesis
    proof (rule inv_one[OF inv g(1), where x = "rm_heap m ! g" and ls = ?ls and ts = "Releasing g # rm_threads m"])
      show "lease_Release l m = m\<lparr>rm_heap := (rm_heap m)[g := rm_heap m ! g], rm_leases := ?ls, rm_threads := Releasing g # rm_threads m\<rparr>"
        using False lease by (simp add: lease_Release_def spawn_def)
      show "\<forall>p\<in>set ?ls. fst p < length (rm_heap m)"
        using manager_invD(2)[OF inv] g(1) set_update_subset_insert[of "rm_leases m" l "(g, True)"] by fastforce
      show "gen_ok (rm_heap m ! g) (count_list ?ls (g, False)) (count_list (Releasing g # rm_threads m) (Releasing g))
        (Checking g \<in> set (Releasing g # rm_threads m) \<or> Drained g \<in> set (Releasing g # rm_threads m) \<or> Retired g \<in> set (Releasing g # rm_threads m))
        (Retired g \<in> set (Releasing g # rm_threads m)) (count_list (Releasing g # rm_threads m) (Closing g))
        (count_list (Releasing g # rm_threads m) (Finishing g)) (rm_active m = Some g)
        (rm_retiring m = Some g \<or> g \<in> set (rm_shutdownGenerations m)) (\<exists>e. rm_reload m = Activating e g)"
        using gen_ok_release[OF g(2)[unfolded gen_inv_def suc]] by (simp add: pending_def)
    qed (use g manager_invD(3)[OF inv] n in auto)
  qed
qed

text \<open>A thread that becomes \<open>ts\<close> and turns its generation into \<open>x\<close>.\<close>

lemma inv_thread:
  assumes inv: "manager_inv m" and t: "t \<in> set (rm_threads m)" "target t = g" "\<forall>u\<in>set ts. target u = g"
    and st: "rg_state x = rg_state (rm_heap m ! g) \<or> rg_state x = Gen_Closed \<and> rg_state (rm_heap m ! g) = Gen_Retiring"
    and own: "gen_ok x (live m g) (count_list (ts @ remove1 t (rm_threads m)) (Releasing g))
      (Checking g \<in> set (ts @ remove1 t (rm_threads m)) \<or> Drained g \<in> set (ts @ remove1 t (rm_threads m)) \<or> Retired g \<in> set (ts @ remove1 t (rm_threads m)))
      (Retired g \<in> set (ts @ remove1 t (rm_threads m))) (count_list (ts @ remove1 t (rm_threads m)) (Closing g))
      (count_list (ts @ remove1 t (rm_threads m)) (Finishing g)) (rm_active m = Some g)
      (rm_retiring m = Some g \<or> g \<in> set (rm_shutdownGenerations m)) (\<exists>e. rm_reload m = Activating e g)"
  shows "manager_inv (m\<lparr>rm_heap := (rm_heap m)[g := x], rm_threads := ts @ remove1 t (rm_threads m)\<rparr>)"
proof -
  have g: "g < length (rm_heap m)" using manager_invD(3)[OF inv t(1)] t(2) by simp
  have others: "count_list (ts @ remove1 t (rm_threads m)) u = count_list (rm_threads m) u" if "target u \<noteq> g" for u
  proof -
    have "count_list ts u = 0" "u \<noteq> t" using t(2,3) that by (auto simp: count_list_0_iff)
    then show ?thesis using t(1) by (simp add: count_list_remove1)
  qed
  show ?thesis
    by (rule inv_one[OF inv g st, where ls = "rm_leases m" and ts = "ts @ remove1 t (rm_threads m)"])
      (use own others g t manager_invD(2,3)[OF inv] set_remove1_subset[of t "rm_threads m"] in \<open>auto simp: live_def\<close>)
qed

lemma thread_step_eq:
  assumes "thread_step errs t (m\<lparr>rm_threads := us\<rparr>) = (ts, m1)" "target t < length (rm_heap m)"
  shows "\<exists>x. spawn ts m1 = m\<lparr>rm_heap := (rm_heap m)[target t := x], rm_threads := ts @ us\<rparr> \<and> (let y = rm_heap m ! target t in
    case t of Releasing g \<Rightarrow> x = y\<lparr>rg_inFlight := rg_inFlight y - 1\<rparr> \<and> ts = (if rg_inFlight y = 1 then [Checking g] else [])
    | Checking g \<Rightarrow> x = y \<and> ts = (if rg_inFlight y \<noteq> 0 then [] else [Drained g])
    | Drained g \<Rightarrow> x = y \<and> ts = (if rg_state y \<noteq> Gen_Retiring then [] else [Retired g])
    | Retired g \<Rightarrow> if rg_closeScheduled y then x = y \<and> ts = [] else x = y\<lparr>rg_closeScheduled := True\<rparr> \<and> ts = [Closing g]
    | Closing g \<Rightarrow> if rg_closeOnce y then x = y \<and> ts = [] else x = close_engine errs y \<and> ts = [Finishing g]
    | Finishing g \<Rightarrow> x = close_finish y \<and> ts = [])"
  using assms by (cases t) (auto simp: Let_def spawn_def upd_gen_def intro!: exI[of _ "rm_heap m ! target t"] split: if_splits)

lemma inv_thread_step:
  assumes inv: "manager_inv m" and t: "t \<in> set (rm_threads m)"
    and step: "thread_step errs t (m\<lparr>rm_threads := remove1 t (rm_threads m)\<rparr>) = (ts, m1)"
  shows "manager_inv (spawn ts m1)"
proof -
  define g where "g = target t"
  let ?y = "rm_heap m ! g"
  have g: "g < length (rm_heap m)" using manager_invD(3)[OF inv t] by (simp add: g_def)
  have gi: "gen_inv m g" using manager_invD(1)[OF inv g] .
  have "0 < count_list (rm_threads m) t" using t by (simp add: count_list_pos)
  then obtain n where n: "count_list (rm_threads m) t = Suc n" using gr0_implies_Suc by blast
  obtain x where x: "spawn ts m1 = m\<lparr>rm_heap := (rm_heap m)[target t := x], rm_threads := ts @ remove1 t (rm_threads m)\<rparr>"
      "let y = rm_heap m ! target t in
    case t of Releasing g \<Rightarrow> x = y\<lparr>rg_inFlight := rg_inFlight y - 1\<rparr> \<and> ts = (if rg_inFlight y = 1 then [Checking g] else [])
    | Checking g \<Rightarrow> x = y \<and> ts = (if rg_inFlight y \<noteq> 0 then [] else [Drained g])
    | Drained g \<Rightarrow> x = y \<and> ts = (if rg_state y \<noteq> Gen_Retiring then [] else [Retired g])
    | Retired g \<Rightarrow> if rg_closeScheduled y then x = y \<and> ts = [] else x = y\<lparr>rg_closeScheduled := True\<rparr> \<and> ts = [Closing g]
    | Closing g \<Rightarrow> if rg_closeOnce y then x = y \<and> ts = [] else x = close_engine errs y \<and> ts = [Finishing g]
    | Finishing g \<Rightarrow> x = close_finish y \<and> ts = []"
    using thread_step_eq[OF step] g g_def by blast
  note gi' = gi[unfolded gen_inv_def pending_def]
  note [simp] = count_list_remove1[OF t]
  show ?thesis
    unfolding x(1) g_def[symmetric]
  proof (rule inv_thread[OF inv t])
    show "target t = g" by (simp add: g_def)
    show "\<forall>u\<in>set ts. target u = g" using x(2) g_def by (cases t) (auto simp: Let_def split: if_splits)
    show "rg_state x = rg_state ?y \<or> rg_state x = Gen_Closed \<and> rg_state ?y = Gen_Retiring"
      using x(2) g_def gi' n by (cases t) (auto simp: Let_def close_engine_def close_finish_def dest: gen_ok_finish(2) split: if_splits)
    show "gen_ok x (live m g) (count_list (ts @ remove1 t (rm_threads m)) (Releasing g))
      (Checking g \<in> set (ts @ remove1 t (rm_threads m)) \<or> Drained g \<in> set (ts @ remove1 t (rm_threads m)) \<or> Retired g \<in> set (ts @ remove1 t (rm_threads m)))
      (Retired g \<in> set (ts @ remove1 t (rm_threads m))) (count_list (ts @ remove1 t (rm_threads m)) (Closing g))
      (count_list (ts @ remove1 t (rm_threads m)) (Finishing g)) (rm_active m = Some g)
      (rm_retiring m = Some g \<or> g \<in> set (rm_shutdownGenerations m)) (\<exists>e. rm_reload m = Activating e g)"
    proof (cases t)
      case (Releasing h)
      then show ?thesis using x(2) g_def gen_ok_count gi' n by (auto simp: Let_def)
    next
      case (Checking h)
      then show ?thesis using x(2) g_def gi' by (auto simp: Let_def intro: gen_ok_check)
    next
      case (Drained h)
      then show ?thesis using x(2) g_def gi' by (auto simp: Let_def intro: gen_ok_drained)
    next
      case (Retired h)
      then show ?thesis using x(2) g_def gi' t by (auto simp: Let_def intro: gen_ok_schedule gen_ok_scheduled split: if_splits)
    next
      case (Closing h)
      then show ?thesis using x(2) g_def gi' n by (auto simp: Let_def dest: gen_ok_close(1) intro: gen_ok_close(2) split: if_splits)
    next
      case (Finishing h)
      then show ?thesis using x(2) g_def gi' n gen_ok_finish(1) by (auto simp: Let_def)
    qed
  qed
qed

lemma gen_ok_discard:
  "gen_ok x lv rel p r c f act ret cand \<Longrightarrow> rg_state x = Gen_Candidate \<Longrightarrow> gen_ok (discard errs x) lv rel p r c f act ret cand'"
  by (cases "rg_closeScheduled x"; cases "rg_closeOnce x")
    (auto simp: gen_ok_def discard_def closeNow_def close_engine_def close_finish_def)

lemma discard_state [simp]: "rg_closeOnce x = False \<Longrightarrow> rg_closeScheduled x = False \<Longrightarrow> rg_state x = Gen_Candidate
    \<Longrightarrow> rg_state (discard errs x) = Gen_Closed"
  by (simp add: discard_def closeNow_def close_engine_def close_finish_def)

lemma inv_clear:
  assumes inv: "manager_inv m"
  shows "manager_inv (clearRetiringLocked m)"
proof (cases "\<exists>g. rm_retiring m = Some g \<and> rg_closeDone (rm_heap m ! g)")
  case True
  then obtain g where g: "rm_retiring m = Some g" "rg_closeDone (rm_heap m ! g)" by blast
  then have "gen_inv m g" using inv by (auto simp: manager_inv_def frame_inv_def)
  then have "rg_state (rm_heap m ! g) = Gen_Closed" using g(2) by (simp add: gen_inv_def gen_ok_def)
  then have "gen_inv (m\<lparr>rm_retiring := None\<rparr>) h" if "h < length (rm_heap m)" for h
    by (intro gen_inv_frame[OF manager_invD(1)[OF inv that]]) (use g in \<open>auto simp: live_def\<close>)
  moreover have "frame_inv (m\<lparr>rm_retiring := None\<rparr>)" using manager_invD(6)[OF inv] by (simp add: frame_inv_def)
  ultimately show ?thesis using g by (simp add: manager_inv_def clearRetiringLocked_def)
qed (use inv in \<open>auto simp: clearRetiringLocked_def split: option.splits\<close>)

lemma inv_reload_state:
  assumes inv: "manager_inv m" and "\<forall>e g. rm_reload m \<noteq> Activating e g" "\<forall>e g. r \<noteq> Activating e g"
  shows "manager_inv (m\<lparr>rm_reload := r\<rparr>)"
proof -
  have "gen_inv (m\<lparr>rm_reload := r\<rparr>) h" if "h < length (rm_heap m)" for h
    by (intro gen_inv_frame[OF manager_invD(1)[OF inv that]]) (use assms in \<open>auto simp: live_def\<close>)
  moreover have "frame_inv (m\<lparr>rm_reload := r\<rparr>)" using manager_invD(6)[OF inv] assms(3) by (simp add: frame_inv_def)
  ultimately show ?thesis by (simp add: manager_inv_def)
qed

lemma inv_append:
  assumes inv: "manager_inv m" and none: "\<forall>e g. rm_reload m \<noteq> Activating e g"
    and r: "r = Reloaded \<and> rg_state x = Gen_Closed \<or> (\<exists>e. r = Activating e (length (rm_heap m))) \<and> rg_state x = Gen_Candidate"
    and own: "gen_ok x 0 0 False False 0 0 False False (\<exists>e. r = Activating e (length (rm_heap m)))"
  shows "manager_inv (m\<lparr>rm_heap := rm_heap m @ [x], rm_reload := r\<rparr>)"
proof -
  let ?m = "m\<lparr>rm_heap := rm_heap m @ [x], rm_reload := r\<rparr>" and ?L = "length (rm_heap m)"
  have fr: "frame_inv m" by (rule manager_invD(6)[OF inv])
  have "count_list (rm_leases m) (?L, False) = 0" "count_list (rm_threads m) t = 0" "t \<notin> set (rm_threads m)" if "target t = ?L" for t
    using fr that by (auto simp: frame_inv_def count_list_0_iff)
  note zero = this[of "Releasing ?L"] this[of "Closing ?L"] this[of "Finishing ?L"] this[of "Checking ?L"] this[of "Drained ?L"] this[of "Retired ?L"]
  have "rm_active m \<noteq> Some ?L" "rm_retiring m \<noteq> Some ?L" "?L \<notin> set (rm_shutdownGenerations m)"
    using fr by (auto simp: frame_inv_def)
  then have "gen_inv ?m ?L" using own zero by (simp add: gen_inv_def live_def pending_def)
  moreover have "gen_inv ?m h" if "h < ?L" for h
    by (intro gen_inv_frame[OF manager_invD(1)[OF inv that]]) (use none that in \<open>auto simp: live_def nth_append\<close>)
  moreover have "frame_inv ?m"
    using fr r by (auto simp: frame_inv_def nth_append less_Suc_eq dest: bspec)
  ultimately show ?thesis by (auto simp: manager_inv_def less_Suc_eq)
qed

lemma inv_built:
  assumes inv: "manager_inv m" and "rm_reload m = Building dry expected"
  shows "manager_inv (dryrun_built errs outcome m)" "manager_inv (reload_built expected errs outcome m)"
proof -
  have c: "gen_ok (makeRouteGeneration n e fp) 0 0 False False 0 0 False False True" "rg_state (makeRouteGeneration n e fp) = Gen_Candidate"
      "rg_closeOnce (makeRouteGeneration n e fp) = False" "rg_closeScheduled (makeRouteGeneration n e fp) = False"
    for n fp and e :: "'a route list option"
    by (simp_all add: makeRouteGeneration_def gen_ok_def)
  note d = gen_ok_discard[OF c(1,2), where cand' = False]
  have none: "\<forall>e g. rm_reload m \<noteq> Activating e g" using assms(2) by simp
  show "manager_inv (dryrun_built errs outcome m)"
  proof (cases outcome)
    case (Build_Candidate ctx_done n e fp)
    show ?thesis
      using inv none c[of n e fp] d[of errs n e fp] by (simp add: Build_Candidate dryrun_built_def inv_append)
  qed (use inv none in \<open>simp_all add: dryrun_built_def inv_reload_state\<close>)
  show "manager_inv (reload_built expected errs outcome m)"
  proof (cases outcome)
    case (Build_Candidate ctx_done n e fp)
    show ?thesis
      using inv none c[of n e fp] d[of errs n e fp] by (simp add: Build_Candidate reload_built_def Let_def inv_append)
  qed (use inv none in \<open>simp_all add: reload_built_def Let_def inv_reload_state\<close>)
qed

lemma inv_discard:
  assumes inv: "manager_inv m" and act: "rm_reload m = Activating e g"
  shows "manager_inv ((upd_gen g (discard errs) m)\<lparr>rm_reload := Reloaded\<rparr>)"
proof -
  let ?m = "(upd_gen g (discard errs) m)\<lparr>rm_reload := Reloaded\<rparr>"
  have g: "g < length (rm_heap m)" "rg_state (rm_heap m ! g) = Gen_Candidate" using manager_invD(5)[OF inv act] by simp_all
  have gi: "gen_inv m g" by (rule manager_invD(1)[OF inv g(1)])
  then have cl: "rg_state (discard errs (rm_heap m ! g)) = Gen_Closed"
    using g(2) by (intro discard_state) (auto simp: gen_inv_def gen_ok_def)
  have "gen_inv ?m h" if h: "h < length (rm_heap m)" for h
  proof (cases "h = g")
    case True
    then show ?thesis using gen_ok_discard[OF gi[unfolded gen_inv_def] g(2)] g(1) by (simp add: gen_inv_def live_def pending_def)
  next
    case False
    then show ?thesis by (intro gen_inv_frame[OF manager_invD(1)[OF inv h]]) (use act in \<open>auto simp: live_def\<close>)
  qed
  moreover have "frame_inv ?m"
    using manager_invD(6)[OF inv] cl g by (auto simp: frame_inv_def nth_list_update)
  ultimately show ?thesis by (simp add: manager_inv_def)
qed

text \<open>The outcome of an activation: an error that changes nothing but a stale retiring pointer, or the switch.\<close>

lemma list_update_again: "i \<noteq> j \<Longrightarrow> xs[i := a, j := b, i := c, j := d] = xs[i := c, j := d]"
  by (simp add: list_update_swap)

lemma activateCandidate_cases:
  assumes act: "activateCandidate now1 now2 expected cand m = ((err, snap), m')" and "cand < length (rm_heap m)"
    and ptr: "\<forall>g. rm_active m = Some g \<longrightarrow> g < length (rm_heap m)"
  obtains "err \<noteq> None" "m' = clearRetiringLocked m"
  | old where "err = None" "\<not> rm_closed m" "rm_active m = Some old" "rm_retiring (clearRetiringLocked m) = None"
      "rg_state (rm_heap m ! cand) = Gen_Candidate"
      "cand \<noteq> old \<Longrightarrow> \<exists>c. rg_state c = Gen_Active \<and> c = (rm_heap m ! cand)\<lparr>rg_number := rm_nextNumber m + 1, rg_activatedAt := now1, rg_state := Gen_Active, rg_metricsActive := True\<rparr>
        \<and> m' = m\<lparr>rm_heap := (rm_heap m)[cand := c, old := (rm_heap m ! old)\<lparr>rg_metricsActive := False, rg_retiringAt := now2, rg_state := Gen_Retiring\<rparr>],
            rm_active := Some cand, rm_retiring := Some old, rm_nextNumber := rm_nextNumber m + 1, rm_threads := Checking old # rm_threads m\<rparr>"
proof -
  let ?m = "clearRetiringLocked m"
  have same: "rm_heap ?m = rm_heap m" "rm_active ?m = rm_active m" "rm_closed ?m = rm_closed m" "rm_nextNumber ?m = rm_nextNumber m"
      "rm_threads ?m = rm_threads m" "?m\<lparr>rm_retiring := x\<rparr> = m\<lparr>rm_retiring := x\<rparr>" for x
    by (auto simp: clearRetiringLocked_def split: option.splits)
  show thesis
  proof (cases "reload_check expected ?m")
    case (Some e)
    then have "err = Some e \<and> m' = ?m" using act by (simp add: activateCandidate_def Let_def)
    then show thesis using that(1) by simp
  next
    case None
    then obtain old where old: "rm_active m = Some old" "\<not> rm_closed m" "rm_retiring ?m = None"
      by (auto simp: reload_check_def same split: if_splits option.splits)
    let ?c = "rm_heap m ! cand"
    show thesis
    proof (cases "rg_fingerprint ?c = '''' \<or> rg_state ?c \<noteq> Gen_Candidate \<or> rm_nextNumber m + 1 = 0")
      case True
      then have "err \<noteq> None \<and> m' = ?m"
        using act None old by (auto simp: activateCandidate_def same Let_def prepareActive_def upd_gen_def split: if_splits)
      then show thesis using that(1) by blast
    next
      case False
      have "err = None" using act None old False by (auto simp: activateCandidate_def same Let_def prepareActive_def split: if_splits)
      moreover have "m' = m\<lparr>rm_heap := (rm_heap m)[cand := ?c\<lparr>rg_number := rm_nextNumber m + 1, rg_activatedAt := now1, rg_state := Gen_Active, rg_metricsActive := True\<rparr>,
            old := (rm_heap m ! old)\<lparr>rg_metricsActive := False, rg_retiringAt := now2, rg_state := Gen_Retiring\<rparr>],
            rm_active := Some cand, rm_retiring := Some old, rm_nextNumber := rm_nextNumber m + 1, rm_threads := Checking old # rm_threads m\<rparr>"
        if "cand \<noteq> old"
      proof -
        let ?heap = "(rm_heap m)[cand := ?c\<lparr>rg_number := rm_nextNumber m + 1, rg_activatedAt := now1, rg_state := Gen_Active, rg_metricsActive := True\<rparr>,
            old := (rm_heap m ! old)\<lparr>rg_metricsActive := False, rg_retiringAt := now2, rg_state := Gen_Retiring\<rparr>]"
        have "m' = ?m\<lparr>rm_heap := ?heap, rm_active := Some cand, rm_retiring := Some old, rm_nextNumber := rm_nextNumber m + 1,
            rm_threads := Checking old # rm_threads m\<rparr>"
          using act None old False that assms(2) ptr
          by (simp add: activateCandidate_def same Let_def prepareActive_def upd_gen_def spawn_def list_update_again)
        then show ?thesis using same(6)[of "Some old"] by (simp add: clearRetiringLocked_def split: option.splits if_splits)
      qed
      ultimately show thesis using that(2)[of old] old False by auto
    qed
  qed
qed

lemma gen_ok_activate:
  "gen_ok x lv rel p r c f act ret cand \<Longrightarrow> rg_state x = Gen_Candidate \<Longrightarrow>
    gen_ok (x\<lparr>rg_number := n, rg_activatedAt := t, rg_state := Gen_Active, rg_metricsActive := b\<rparr>) lv rel p r c f True ret' cand'"
  by (auto simp: gen_ok_def)

lemma gen_ok_retire:
  "gen_ok x lv rel p r c f True ret cand \<Longrightarrow>
    gen_ok (x\<lparr>rg_metricsActive := b, rg_retiringAt := t, rg_state := Gen_Retiring\<rparr>) lv rel True r c f False True cand'"
  by (auto simp: gen_ok_def)

lemma inv_activate:
  assumes inv: "manager_inv m" and act: "rm_reload m = Activating expected cand"
    and run: "activateCandidate now1 now2 expected cand m = ((None, snap), m')"
  shows "manager_inv (m'\<lparr>rm_reload := Reloaded\<rparr>)"
proof -
  have cand: "cand < length (rm_heap m)" "rg_state (rm_heap m ! cand) = Gen_Candidate" using manager_invD(5)[OF inv act] by simp_all
  have "\<forall>g. rm_active m = Some g \<longrightarrow> g < length (rm_heap m)" using manager_invD(4)[OF inv] by blast
  from run cand(1) this show ?thesis
  proof (cases rule: activateCandidate_cases)
    case (2 old)
    have old: "old < length (rm_heap m)" "gen_inv m old" using manager_invD(1,4)[OF inv] 2(3) by blast+
    have st: "rg_state (rm_heap m ! old) = Gen_Active" using old(2) 2(3) by (simp add: gen_inv_def gen_ok_def)
    then have ne: "cand \<noteq> old" using cand(2) by auto
    define c where "c = (rm_heap m ! cand)\<lparr>rg_number := rm_nextNumber m + 1, rg_activatedAt := now1, rg_state := Gen_Active, rg_metricsActive := True\<rparr>"
    define x where "x = (rm_heap m ! old)\<lparr>rg_metricsActive := False, rg_retiringAt := now2, rg_state := Gen_Retiring\<rparr>"
    define m2 where "m2 = m'\<lparr>rm_reload := Reloaded\<rparr>"
    have m2: "rm_heap m2 = (rm_heap m)[cand := c, old := x]" "rm_leases m2 = rm_leases m" "rm_threads m2 = Checking old # rm_threads m"
        "rm_active m2 = Some cand" "rm_retiring m2 = Some old" "rm_reload m2 = Reloaded" "rm_closed m2 = rm_closed m"
        "rm_shutdown m2 = rm_shutdown m" "rm_shutdownGenerations m2 = rm_shutdownGenerations m"
      using 2(6)[OF ne] by (auto simp: m2_def c_def x_def)
    have closedD: "rm_retiring m = Some h \<Longrightarrow> rg_closeDone (rm_heap m ! h)" for h
      using 2(4) by (auto simp: clearRetiringLocked_def split: option.splits if_splits)
    have "gen_inv m2 h" if h: "h < length (rm_heap m)" for h
    proof -
      consider "h = cand" | "h = old" | "h \<noteq> cand" "h \<noteq> old" by blast
      then show ?thesis
      proof cases
        case 1
        then show ?thesis
          using gen_ok_activate[OF manager_invD(1)[OF inv h, unfolded gen_inv_def]] cand ne by (simp add: gen_inv_def m2 live_def pending_def c_def)
      next
        case eq: 2
        then show ?thesis
          using gen_ok_retire[OF old(2)[unfolded gen_inv_def 2(3) simp_thms refl]] old ne by (simp add: gen_inv_def m2 live_def pending_def x_def)
      next
        case 3
        have "rg_state (rm_heap m ! h) \<noteq> Gen_Retiring" if "rm_retiring m = Some h"
          using closedD[OF that] manager_invD(1)[OF inv h] by (auto simp: gen_inv_def gen_ok_def)
        then show ?thesis
          by (intro gen_inv_frame[OF manager_invD(1)[OF inv h]]) (use 3 2(3) act in \<open>auto simp: m2 live_def\<close>)
      qed
    qed
    moreover have "frame_inv m2"
      using manager_invD(6)[OF inv] cand old ne 2(2) by (auto simp: frame_inv_def m2 x_def)
    ultimately show ?thesis by (simp add: manager_inv_def m2 flip: m2_def)
  qed simp
qed

lemma gen_ok_shut:
  "gen_ok x lv rel p r c f act ret cand \<Longrightarrow> act \<Longrightarrow>
    gen_ok (x\<lparr>rg_metricsActive := b, rg_state := Gen_Retiring\<rparr>) lv rel True r c f False True cand'"
  by (auto simp: gen_ok_def)

lemma gen_ok_pending: "gen_ok x lv rel p r c f act ret cand \<Longrightarrow> (p \<longrightarrow> p') \<Longrightarrow> (ret \<longrightarrow> ret') \<Longrightarrow> gen_ok x lv rel p' r c f act ret' cand"
  by (auto simp: gen_ok_def)

lemma inv_shutdown:
  assumes inv: "manager_inv m"
  shows "manager_inv (beginShutdown m)"
proof (cases "rm_shutdown m")
  case False
  define m1 where "m1 = clearRetiringLocked m"
  have inv1: "manager_inv m1" using inv_clear[OF inv] by (simp add: m1_def)
  have sd: "\<not> rm_shutdown m1" "\<not> rm_closed m1" "rm_shutdownGenerations m1 = []"
    using False manager_invD(6)[OF inv1] by (auto simp: m1_def clearRetiringLocked_def frame_inv_def split: option.splits if_splits)
  define gens where "gens = remdups (case_option [] (\<lambda>g. [g]) (rm_retiring m1) @ case_option [] (\<lambda>g. [g]) (rm_active m1))"
  have gens: "g \<in> set gens \<longleftrightarrow> rm_retiring m1 = Some g \<or> rm_active m1 = Some g" for g
    by (auto simp: gens_def split: option.splits)
  let ?shut = "\<lambda>x. x\<lparr>rg_metricsActive := False, rg_state := Gen_Retiring\<rparr>"
  define m2 where "m2 = beginShutdown m"
  have m2: "rm_heap m2 = (case rm_active m1 of None \<Rightarrow> rm_heap m1 | Some g \<Rightarrow> (rm_heap m1)[g := ?shut (rm_heap m1 ! g)])"
      "rm_leases m2 = rm_leases m1" "rm_threads m2 = map Checking gens @ rm_threads m1" "rm_active m2 = None" "rm_retiring m2 = rm_retiring m1"
      "rm_reload m2 = rm_reload m1" "rm_closed m2" "rm_shutdown m2" "rm_shutdownGenerations m2 = gens"
    using False by (auto simp: m2_def m1_def gens_def beginShutdown_def clearRetiringLocked_def Let_def spawn_def split: option.splits if_splits)
  have len: "length (rm_heap m2) = length (rm_heap m1)" by (simp add: m2 split: option.splits)
  have cnt: "count_list (rm_threads m2) t = count_list (rm_threads m1) t" if "\<forall>g. t \<noteq> Checking g" for t
    using that by (auto simp: m2 count_list_0_iff)
  have pend: "pending m2 h \<longleftrightarrow> pending m1 h \<or> h \<in> set gens" "Retired h \<in> set (rm_threads m2) \<longleftrightarrow> Retired h \<in> set (rm_threads m1)" for h
    by (auto simp: pending_def m2)
  have "gen_inv m2 h" if h: "h < length (rm_heap m1)" for h
  proof (cases "rm_active m1 = Some h")
    case True
    then show ?thesis
      using gen_ok_shut[OF manager_invD(1)[OF inv1 h, unfolded gen_inv_def]] h gens[of h]
      by (simp add: gen_inv_def pend cnt) (simp add: m2 live_def)
  next
    case False
    then have "rm_heap m2 ! h = rm_heap m1 ! h" by (auto simp: m2 split: option.splits)
    then show ?thesis
      using gen_ok_pending[OF manager_invD(1)[OF inv1 h, unfolded gen_inv_def]] False gens[of h] sd(3)
      by (simp add: gen_inv_def pend cnt) (simp add: m2 live_def)
  qed
  moreover have "frame_inv m2"
  proof -
    have f: "frame_inv m1" by (rule manager_invD(6)[OF inv1])
    have act: "rg_state (rm_heap m1 ! g) = Gen_Active" if "rm_active m1 = Some g" for g
      using manager_invD(1,4)[OF inv1] that by (auto simp: gen_inv_def gen_ok_def)
    have "rg_state (rm_heap m2 ! h) = (if rm_active m1 = Some h then Gen_Retiring else rg_state (rm_heap m1 ! h))" for h
      using f by (auto simp: m2 frame_inv_def nth_list_update split: option.splits)
    then show ?thesis using f act gens by (auto simp: frame_inv_def len m2(2-))
  qed
  ultimately show ?thesis by (simp add: manager_inv_def len flip: m2_def)
qed (use inv in \<open>simp add: beginShutdown_def\<close>)

lemma inv_step:
  assumes inv: "manager_inv m" and step: "manager_step a m = Some m'"
  shows "manager_inv m'"
proof (cases a)
  case Do_Acquire
  then show ?thesis using step inv_Acquire[OF inv] by (auto simp: manager_step_def)
next
  case (Do_Release l)
  then show ?thesis using step inv_lease_Release[OF inv] by (auto simp: manager_step_def split: if_splits)
next
  case (Do_Thread t errs)
  then show ?thesis using step inv_thread_step[OF inv] by (auto simp: manager_step_def split: if_splits prod.splits)
next
  case (Do_Begin dry expected)
  then have "rm_reload m = No_Reload" "m' = snd (beginReload dry expected m)" using step by (auto simp: manager_step_def split: if_splits)
  moreover have "rm_reload (clearRetiringLocked m) = rm_reload m" by (simp add: clearRetiringLocked_def split: option.splits)
  ultimately show ?thesis
    using inv_clear[OF inv] by (auto simp: beginReload_def Let_def intro: inv_reload_state split: option.splits)
next
  case (Do_Build errs outcome)
  then show ?thesis using step inv_built[OF inv] by (auto simp: manager_step_def split: reload_state.splits)
next
  case (Do_Activate now1 now2 errs)
  then obtain expected g where act: "rm_reload m = Activating expected g" using step by (auto simp: manager_step_def split: reload_state.splits)
  obtain err snap m1 where run: "activateCandidate now1 now2 expected g m = ((err, snap), m1)" by (metis prod.collapse)
  have m': "m' = (if err = None then m1 else upd_gen g (discard errs) m1)\<lparr>rm_reload := Reloaded\<rparr>"
    using step act run Do_Activate by (simp add: manager_step_def)
  show ?thesis
  proof (cases err)
    case None
    then show ?thesis using inv_activate[OF inv act] run m' by simp
  next
    case (Some e)
    have "rm_reload (clearRetiringLocked m) = rm_reload m" by (simp add: clearRetiringLocked_def split: option.splits)
    moreover have "m1 = clearRetiringLocked m"
      by (rule activateCandidate_cases[OF run]) (use manager_invD(4,5)[OF inv] act Some in auto)
    ultimately show ?thesis using inv_discard[OF inv_clear[OF inv]] act m' Some by simp
  qed
next
  case Do_Finish
  then show ?thesis using step inv_reload_state[OF inv, of No_Reload] by (auto simp: manager_step_def finishReload_def split: if_splits)
next
  case Do_Snapshot
  then show ?thesis using step inv_clear[OF inv] by (auto simp: manager_step_def manager_Snapshot_def Let_def)
next
  case Do_Shutdown
  then show ?thesis using step inv_shutdown[OF inv] by (auto simp: manager_step_def)
qed

interpretation lifecycle: invariant_of manager_init manager_step freely manager_inv
proof
  show "manager_inv m" if "manager_init m" for m :: "'a route_manager" using that by (rule manager_inv_init)
  show "manager_inv m'" if "manager_inv m" "True" "manager_step a m = Some m'" for a and m m' :: "'a route_manager"
    using inv_step[OF that(1,3)] .
qed

section \<open>Leases keep a generation open\<close>

text \<open>
  \<^verbatim>\<open>closeIfDrained\<close> reads the count of requests first and the state after it.  A schedule is \<open>steady\<close> when
  no generation is retired, by an activation or the shutdown, between those two reads of a thread that
  checks it.
\<close>

definition steady :: "'w action \<Rightarrow> 'w route_manager \<Rightarrow> bool" where
  "steady a m \<longleftrightarrow> (case a of Do_Activate _ _ _ \<Rightarrow> True | Do_Shutdown \<Rightarrow> True | _ \<Rightarrow> False)
     \<longrightarrow> (case rm_active m of None \<Rightarrow> True | Some g \<Rightarrow> Drained g \<notin> set (rm_threads m))"

definition drained_inv :: "'w route_manager \<Rightarrow> bool" where
  "drained_inv m \<longleftrightarrow> manager_inv m \<and> (\<forall>g<length (rm_heap m).
     (Drained g \<in> set (rm_threads m) \<and> rm_active m \<noteq> Some g \<or> Retired g \<in> set (rm_threads m)
       \<or> rg_closeScheduled (rm_heap m ! g)) \<longrightarrow> rg_inFlight (rm_heap m ! g) = 0)"

lemma drained_invD:
  assumes "drained_inv m" "g < length (rm_heap m)"
  shows "Drained g \<in> set (rm_threads m) \<Longrightarrow> rm_active m \<noteq> Some g \<Longrightarrow> rg_inFlight (rm_heap m ! g) = 0"
    "Retired g \<in> set (rm_threads m) \<Longrightarrow> rg_inFlight (rm_heap m ! g) = 0"
    "rg_closeScheduled (rm_heap m ! g) \<Longrightarrow> rg_inFlight (rm_heap m ! g) = 0"
  using assms by (auto simp: drained_inv_def)

text \<open>Most steps neither add a waiting thread, nor schedule a close, nor raise the count of a generation that is not active.\<close>

definition waits :: "'w route_manager \<Rightarrow> nat \<Rightarrow> bool" where
  "waits m g \<longleftrightarrow> Drained g \<in> set (rm_threads m) \<and> rm_active m \<noteq> Some g \<or> Retired g \<in> set (rm_threads m) \<or> rg_closeScheduled (rm_heap m ! g)"

lemma drained_inv_iff: "drained_inv m \<longleftrightarrow> manager_inv m \<and> (\<forall>g<length (rm_heap m). waits m g \<longrightarrow> rg_inFlight (rm_heap m ! g) = 0)"
  by (simp add: drained_inv_def waits_def)

lemma drained_inv_frame:
  assumes "drained_inv m" "manager_inv m'"
    and "\<And>g. g < length (rm_heap m') \<Longrightarrow> waits m' g \<Longrightarrow>
      g < length (rm_heap m) \<and> waits m g \<and> rg_inFlight (rm_heap m' ! g) = rg_inFlight (rm_heap m ! g) \<or> rg_inFlight (rm_heap m' ! g) = 0"
  shows "drained_inv m'"
proof -
  have "rg_inFlight (rm_heap m' ! g) = 0" if "g < length (rm_heap m')" "waits m' g" for g
    using assms(3)[OF that] assms(1) by (auto simp: drained_inv_iff)
  then show ?thesis using assms(2) by (simp add: drained_inv_iff)
qed

lemma drained_init: "manager_init m \<Longrightarrow> drained_inv m"
  unfolding drained_inv_def
  by (rule conjI, erule manager_inv_init)
    (auto simp: manager_init_def newRouteManagerWithClock_def makeRouteGeneration_def prepareActive_def Let_def split: if_splits)

lemma active_unscheduled:
  assumes "manager_inv m" "rm_active m = Some g"
  shows "\<not> rg_closeScheduled (rm_heap m ! g)" "Retired g \<notin> set (rm_threads m)"
  using manager_invD(1)[OF assms(1) manager_invD(4)[OF assms]] assms(2) by (auto simp: gen_inv_def gen_ok_def)

lemma drained_thread:
  assumes inv: "drained_inv m" and t: "t \<in> set (rm_threads m)"
    and step: "thread_step errs t (m\<lparr>rm_threads := remove1 t (rm_threads m)\<rparr>) = (ts, m1)"
  shows "drained_inv (spawn ts m1)"
proof -
  have mi: "manager_inv m" using inv by (simp add: drained_inv_def)
  define g where "g = target t"
  have g: "g < length (rm_heap m)" using manager_invD(3)[OF mi t] by (simp add: g_def)
  obtain x where m': "spawn ts m1 = m\<lparr>rm_heap := (rm_heap m)[g := x], rm_threads := ts @ remove1 t (rm_threads m)\<rparr>"
      and x: "let y = rm_heap m ! g in
    case t of Releasing g \<Rightarrow> x = y\<lparr>rg_inFlight := rg_inFlight y - 1\<rparr> \<and> ts = (if rg_inFlight y = 1 then [Checking g] else [])
    | Checking g \<Rightarrow> x = y \<and> ts = (if rg_inFlight y \<noteq> 0 then [] else [Drained g])
    | Drained g \<Rightarrow> x = y \<and> ts = (if rg_state y \<noteq> Gen_Retiring then [] else [Retired g])
    | Retired g \<Rightarrow> if rg_closeScheduled y then x = y \<and> ts = [] else x = y\<lparr>rg_closeScheduled := True\<rparr> \<and> ts = [Closing g]
    | Closing g \<Rightarrow> if rg_closeOnce y then x = y \<and> ts = [] else x = close_engine errs y \<and> ts = [Finishing g]
    | Finishing g \<Rightarrow> x = close_finish y \<and> ts = []"
    using thread_step_eq[OF step] g unfolding g_def by blast
  note D = drained_invD[OF inv g]
  have gi: "gen_inv m g" by (rule manager_invD(1)[OF mi g])
  have own: "rg_inFlight x = 0" if "Drained g \<in> set (rm_threads (spawn ts m1)) \<and> rm_active m \<noteq> Some g
      \<or> Retired g \<in> set (rm_threads (spawn ts m1)) \<or> rg_closeScheduled x"
  proof (cases t)
    case (Releasing h)
    have "0 < count_list (rm_threads m) t" using t by (simp add: count_list_pos)
    then have "rg_inFlight (rm_heap m ! g) \<noteq> 0" using gi Releasing g_def by (auto simp: gen_inv_def gen_ok_def)
    then show ?thesis using that x D Releasing g_def by (auto simp: m' Let_def split: if_splits)
  next
    case (Drained h)
    have "rm_active m \<noteq> Some g" if "rg_state (rm_heap m ! g) = Gen_Retiring"
      using gi that by (auto simp: gen_inv_def gen_ok_def)
    then show ?thesis using that x D Drained g_def t by (auto simp: m' Let_def split: if_splits)
  qed (use that x D g_def t in \<open>auto simp: m' Let_def close_engine_def close_finish_def split: if_splits\<close>)
  have ts: "Drained h \<in> set ts \<or> Retired h \<in> set ts \<Longrightarrow> h = g" for h
    using x g_def by (cases t) (auto simp: Let_def split: if_splits)
  show ?thesis
  proof (rule drained_inv_frame[OF inv inv_thread_step[OF mi t step]])
    fix h assume h: "h < length (rm_heap (spawn ts m1))"
      and w: "waits (spawn ts m1) h"
    show "h < length (rm_heap m) \<and> waits m h \<and> rg_inFlight (rm_heap (spawn ts m1) ! h) = rg_inFlight (rm_heap m ! h)
      \<or> rg_inFlight (rm_heap (spawn ts m1) ! h) = 0"
    proof (cases "h = g")
      case True
      then show ?thesis using own w g by (simp add: m' waits_def)
    next
      case False
      then show ?thesis using w h ts[of h] set_remove1_subset[of t "rm_threads m"] by (auto simp: m' waits_def)
    qed
  qed
qed

lemma drained_clear:
  assumes inv: "drained_inv m"
  shows "drained_inv (clearRetiringLocked m)"
proof -
  have mi: "manager_inv m" using inv by (simp add: drained_inv_def)
  show ?thesis
    by (rule drained_inv_frame[OF inv inv_clear[OF mi]]) (simp add: waits_def)
qed

lemma drained_retire:
  assumes inv: "drained_inv m" and m': "manager_inv m'" and g: "rm_active m = Some g" "Drained g \<notin> set (rm_threads m)"
    and "length (rm_heap m') = length (rm_heap m)"
    and "\<And>h. rg_inFlight (rm_heap m' ! h) = rg_inFlight (rm_heap m ! h)" "\<And>h. rg_closeScheduled (rm_heap m' ! h) = rg_closeScheduled (rm_heap m ! h)"
    and "\<And>h. Drained h \<in> set (rm_threads m') \<Longrightarrow> Drained h \<in> set (rm_threads m)" "\<And>h. Retired h \<in> set (rm_threads m') \<Longrightarrow> Retired h \<in> set (rm_threads m)"
  shows "drained_inv m'"
  using g assms(5-) by (intro drained_inv_frame[OF inv m']) (auto simp: waits_def)

lemma drained_step:
  assumes inv: "drained_inv m" and may: "steady a m" and step: "manager_step a m = Some m'"
  shows "drained_inv m'"
proof -
  have mi: "manager_inv m" and mi': "manager_inv m'"
    using inv step inv_step by (auto simp: drained_inv_def)
  show ?thesis
  proof (cases a)
    case Do_Acquire
    then have m': "m' = snd (Acquire m)" using step by (simp add: manager_step_def)
    show ?thesis
    proof (cases "rm_closed m \<or> rm_active m = None")
      case True
      then show ?thesis using inv m' by (auto simp: Acquire_def)
    next
      case False
      then obtain g where act: "rm_active m = Some g" by blast
      note un = active_unscheduled[OF mi act] manager_invD(4)[OF mi act]
      show ?thesis
        by (rule drained_inv_frame[OF inv mi']) (use act False un in \<open>auto simp: m' waits_def Acquire_def Let_def nth_list_update\<close>)
    qed
  next
    case (Do_Release l)
    then have m': "m' = lease_Release l m" using step by (simp add: manager_step_def split: if_splits)
    show ?thesis
      by (rule drained_inv_frame[OF inv mi']) (auto simp: m' waits_def lease_Release_def spawn_def split: prod.splits if_splits)
  next
    case (Do_Thread t errs)
    then show ?thesis using step drained_thread[OF inv] by (auto simp: manager_step_def split: if_splits prod.splits)
  next
    case (Do_Begin dry expected)
    then have m': "m' = clearRetiringLocked m \<or> m' = (clearRetiringLocked m)\<lparr>rm_reload := Building dry expected\<rparr>"
      using step by (auto simp: manager_step_def beginReload_def Let_def split: if_splits option.splits)
    show ?thesis
      by (rule drained_inv_frame[OF drained_clear[OF inv] mi']) (use m' in \<open>auto simp: waits_def\<close>)
  next
    case (Do_Build errs outcome)
    then obtain expected where m': "m' = dryrun_built errs outcome m \<or> m' = reload_built expected errs outcome m"
      using step by (auto simp: manager_step_def split: reload_state.splits if_splits)
    have zero: "rg_inFlight (makeRouteGeneration n e f) = 0" "rg_inFlight (discard errs (makeRouteGeneration n e f)) = 0" for n e f
      by (simp_all add: makeRouteGeneration_def discard_def closeNow_def close_engine_def close_finish_def)
    show ?thesis
      by (rule drained_inv_frame[OF inv mi'])
        (use m' manager_invD(3)[OF mi] in \<open>auto simp: waits_def dryrun_built_def reload_built_def Let_def zero nth_append
          split: build_outcome.splits if_splits\<close>)
  next
    case (Do_Activate now1 now2 errs)
    then obtain expected c where act: "rm_reload m = Activating expected c" using step by (auto simp: manager_step_def split: reload_state.splits)
    have c: "c < length (rm_heap m)" "rg_state (rm_heap m ! c) = Gen_Candidate" using manager_invD(5)[OF mi act] by simp_all
    obtain err snap m1 where run: "activateCandidate now1 now2 expected c m = ((err, snap), m1)" by (metis prod.collapse)
    have m': "m' = (if err = None then m1 else upd_gen c (discard errs) m1)\<lparr>rm_reload := Reloaded\<rparr>"
      using step act run Do_Activate by (simp add: manager_step_def)
    have "\<forall>g. rm_active m = Some g \<longrightarrow> g < length (rm_heap m)" using manager_invD(4)[OF mi] by blast
    from run c(1) this show ?thesis
    proof (cases rule: activateCandidate_cases)
      case 1
      have "rg_inFlight (rm_heap m ! c) = 0" using manager_invD(1)[OF mi c(1)] c(2) by (simp add: gen_inv_def gen_ok_def)
      then have "rg_inFlight (discard errs (rm_heap m ! c)) = 0"
        by (simp add: discard_def closeNow_def close_engine_def close_finish_def)
      moreover have "rm_heap (clearRetiringLocked m) = rm_heap m" by (simp add: clearRetiringLocked_def split: option.splits)
      ultimately show ?thesis
        by (intro drained_inv_frame[OF drained_clear[OF inv] mi']) (use 1 m' c in \<open>auto simp: waits_def nth_list_update\<close>)
    next
      case (2 old)
      have "rg_state (rm_heap m ! old) = Gen_Active"
        using manager_invD(1)[OF mi manager_invD(4)[OF mi 2(3)]] 2(3) by (simp add: gen_inv_def gen_ok_def)
      then have ne: "c \<noteq> old" using c(2) by auto
      have "Drained old \<notin> set (rm_threads m)" using may 2(3) Do_Activate by (simp add: steady_def)
      then show ?thesis
        by (intro drained_retire[OF inv mi' 2(3)]) (use m' 2(1) 2(6)[OF ne] c manager_invD(4)[OF mi 2(3)] in \<open>auto simp: nth_list_update\<close>)
    qed
  next
    case Do_Finish
    then have m': "m' = finishReload m" using step by (simp add: manager_step_def split: if_splits)
    show ?thesis by (rule drained_inv_frame[OF inv mi']) (simp add: m' waits_def finishReload_def)
  next
    case Do_Snapshot
    then show ?thesis using step drained_clear[OF inv] by (auto simp: manager_step_def manager_Snapshot_def Let_def)
  next
    case Do_Shutdown
    then have m': "m' = beginShutdown m" using step by (simp add: manager_step_def)
    show ?thesis
    proof (cases "rm_shutdown m")
      case True
      then show ?thesis using inv m' by (simp add: beginShutdown_def)
    next
      case False
      show ?thesis
      proof (cases "rm_active m")
        case None
        then have "rm_heap m' = rm_heap m" "rm_active m' = None" "\<And>h. Drained h \<in> set (rm_threads m') \<longleftrightarrow> Drained h \<in> set (rm_threads m)"
            "\<And>h. Retired h \<in> set (rm_threads m') \<longleftrightarrow> Retired h \<in> set (rm_threads m)"
          using False by (auto simp: m' beginShutdown_def Let_def spawn_def)
        then show ?thesis using None by (intro drained_inv_frame[OF inv mi']) (simp add: waits_def)
      next
        case (Some g)
        have "Drained g \<notin> set (rm_threads m)" using may Do_Shutdown Some by (simp add: steady_def)
        moreover have "rm_heap m' = (rm_heap m)[g := (rm_heap m ! g)\<lparr>rg_metricsActive := False, rg_state := Gen_Retiring\<rparr>]"
            "\<And>h. Drained h \<in> set (rm_threads m') \<longleftrightarrow> Drained h \<in> set (rm_threads m)"
            "\<And>h. Retired h \<in> set (rm_threads m') \<longleftrightarrow> Retired h \<in> set (rm_threads m)"
          using False Some by (auto simp: m' beginShutdown_def Let_def spawn_def)
        ultimately show ?thesis
          by (intro drained_retire[OF inv mi' Some]) (use manager_invD(4)[OF mi Some] in \<open>auto simp: nth_list_update\<close>)
      qed
    qed
  qed
qed

interpretation leases: invariant_of manager_init manager_step steady drained_inv
proof
  show "drained_inv m" if "manager_init m" for m :: "'a route_manager" using that by (rule drained_init)
  show "drained_inv m'" if "drained_inv m" "steady a m" "manager_step a m = Some m'" for a and m m' :: "'a route_manager"
    using drained_step[OF that] .
qed

section \<open>Properties\<close>

text \<open>
  C19. The life of a generation.  However requests, reloads, shutdown and closing goroutines interleave: no
  engine is closed twice and the active one is not closed; at most one generation is retiring until the
  shutdown; no retirement is forgotten, that is, when no call is under way a generation that is still
  retiring has a lease that is not released; and when the shutdown has completed, every generation there
  ever was has been closed exactly once.
\<close>

theorem generation_lifecycle:
  assumes "reachable manager_init manager_step freely m" and g: "g < length (rm_heap m)"
  shows "rg_closes (rm_heap m ! g) \<le> 1 \<and> (rm_active m = Some g \<longrightarrow> rg_closes (rm_heap m ! g) = 0)
    \<and> (rg_state (rm_heap m ! g) = Gen_Retiring \<and> \<not> rm_closed m \<longrightarrow> rm_retiring m = Some g)
    \<and> (rg_state (rm_heap m ! g) = Gen_Retiring \<and> rm_threads m = [] \<longrightarrow> (g, False) \<in> set (rm_leases m))
    \<and> (shutdown_complete m \<longrightarrow> rg_state (rm_heap m ! g) = Gen_Closed \<and> rg_closes (rm_heap m ! g) = 1)"
proof -
  have inv: "manager_inv m" by (rule lifecycle.holds[OF assms(1)])
  have ok: "gen_inv m g" by (rule manager_invD(1)[OF inv g])
  have f: "frame_inv m" by (rule manager_invD(6)[OF inv])
  have once: "rg_closes (rm_heap m ! g) \<le> 1" "rm_active m = Some g \<longrightarrow> rg_closes (rm_heap m ! g) = 0"
    using ok active_unscheduled(1)[OF inv, of g] by (auto simp: gen_inv_def gen_ok_def)
  have one: "rg_state (rm_heap m ! g) = Gen_Retiring \<and> \<not> rm_closed m \<longrightarrow> rm_retiring m = Some g"
  proof (intro impI, elim conjE)
    assume r: "rg_state (rm_heap m ! g) = Gen_Retiring" "\<not> rm_closed m"
    have "rm_shutdownGenerations m = []" using f r(2) by (simp add: frame_inv_def)
    then show "rm_retiring m = Some g" using ok r(1) by (simp add: gen_inv_def gen_ok_def)
  qed
  have kept: "rg_state (rm_heap m ! g) = Gen_Retiring \<and> rm_threads m = [] \<longrightarrow> (g, False) \<in> set (rm_leases m)"
  proof (intro impI, elim conjE)
    assume that: "rg_state (rm_heap m ! g) = Gen_Retiring" "rm_threads m = []"
    have "gen_ok (rm_heap m ! g) (live m g) 0 False False 0 0 (rm_active m = Some g)
        (rm_retiring m = Some g \<or> g \<in> set (rm_shutdownGenerations m)) (\<exists>e. rm_reload m = Activating e g)"
      using ok that(2) by (simp add: gen_inv_def pending_def)
    then have "live m g \<noteq> 0" using that(1) by (auto simp: gen_ok_def)
    then show "(g, False) \<in> set (rm_leases m)" by (metis live_def count_list_0_iff)
  qed
  have shut: "shutdown_complete m \<longrightarrow> rg_state (rm_heap m ! g) = Gen_Closed \<and> rg_closes (rm_heap m ! g) = 1"
  proof
    assume sd: "shutdown_complete m"
    have none: "rm_active m = None" "rm_reload m = No_Reload" "g \<in> set (rm_shutdownGenerations m) \<longrightarrow> rg_closeDone (rm_heap m ! g)"
        "rm_retiring m = Some g \<longrightarrow> g \<in> set (rm_shutdownGenerations m)"
      using sd f by (auto simp: shutdown_complete_def frame_inv_def)
    note state = ok[unfolded gen_inv_def gen_ok_def none]
    have "rg_state (rm_heap m ! g) \<noteq> Gen_Active" "rg_state (rm_heap m ! g) \<noteq> Gen_Candidate" using state by blast+
    moreover have "rg_state (rm_heap m ! g) \<noteq> Gen_Retiring"
    proof
      assume r: "rg_state (rm_heap m ! g) = Gen_Retiring"
      then have "rg_closeDone (rm_heap m ! g)" using state none(3,4) by blast
      then have "rg_state (rm_heap m ! g) = Gen_Closed" using state by blast
      then show False using r by simp
    qed
    ultimately have cl: "rg_state (rm_heap m ! g) = Gen_Closed" by (cases "rg_state (rm_heap m ! g)") simp_all
    then have "rg_closeDone (rm_heap m ! g)" using state by blast
    then have "rg_closeOnce (rm_heap m ! g)" using state by (cases "rg_closeOnce (rm_heap m ! g)") simp_all
    then have "rg_closes (rm_heap m ! g) = 1" using state by simp
    then show "rg_state (rm_heap m ! g) = Gen_Closed \<and> rg_closes (rm_heap m ! g) = 1" using cl by simp
  qed
  show ?thesis by (intro conjI once one kept shut)
qed

text \<open>
  C6. A lease keeps its generation open.  As long as no generation is retired between the two reads of a
  running \<^verbatim>\<open>closeIfDrained\<close> of it, an engine is never closed, nor its closing scheduled, while a request holds
  a lease of it.
\<close>

theorem lease_keeps_open:
  assumes "reachable manager_init manager_step steady m" "(g, False) \<in> set (rm_leases m)"
  shows "rg_closes (rm_heap m ! g) = 0 \<and> \<not> rg_closeScheduled (rm_heap m ! g)"
proof -
  have inv: "drained_inv m" by (rule leases.holds[OF assms(1)])
  then have mi: "manager_inv m" by (simp add: drained_inv_def)
  have g: "g < length (rm_heap m)" by (rule manager_invD(2)[OF mi assms(2)])
  have "live m g \<noteq> 0" using assms(2) count_list_pos[of "rm_leases m" "(g, False)"] by (simp add: live_def)
  then have "rg_inFlight (rm_heap m ! g) \<noteq> 0" using manager_invD(1)[OF mi g] by (simp add: gen_inv_def gen_ok_def)
  then have "\<not> rg_closeScheduled (rm_heap m ! g)" using drained_invD(3)[OF inv g] by blast
  then show ?thesis using manager_invD(1)[OF mi g] by (cases "rg_closeOnce (rm_heap m ! g)") (auto simp: gen_inv_def gen_ok_def)
qed

text \<open>
  Without that condition on the schedule a lease does not keep its generation open.  A request finishes and
  its thread reads that no request is in flight; then a second request takes a lease, and a reload retires
  the generation; the first thread reads the state \<^verbatim>\<open>retiring\<close> and closes the engine under the second request.
\<close>

definition sample_routes :: "unit route_manager" where
  "sample_routes = (case newRouteManagerWithClock (Some (makeRouteGeneration 0 (Some []) ''a'')) 0 7 of Inr m \<Rightarrow> m | Inl _ \<Rightarrow> undefined)"

definition race :: "unit action list" where
  "race = [Do_Acquire, Do_Release 0, Do_Thread (Releasing 0) [], Do_Thread (Checking 0) [], Do_Acquire,
     Do_Begin False 1, Do_Build [] (Build_Candidate False 0 (Some []) ''b''), Do_Activate 8 9 [],
     Do_Thread (Drained 0) [], Do_Thread (Retired 0) [], Do_Thread (Closing 0) []]"

lemma sample_routes_init: "manager_init sample_routes"
  unfolding manager_init_def
  by (rule exI[of _ 0], rule exI[of _ "Some []"], rule exI[of _ "''a''"], rule exI[of _ 0], rule exI[of _ 7]) (simp add: sample_routes_def
      newRouteManagerWithClock_def makeRouteGeneration_def prepareActive_def)

lemmas manager_eval = sample_routes_def newRouteManagerWithClock_def makeRouteGeneration_def prepareActive_def manager_step_def
  Acquire_def lease_Release_def spawn_def upd_gen_def beginReload_def clearRetiringLocked_def reload_check_def reload_built_def
  activateCandidate_def close_engine_def finishReload_def

lemma drain_race:
  "\<exists>m :: unit route_manager. reachable manager_init manager_step freely m \<and> (0, False) \<in> set (rm_leases m) \<and> rg_closes (rm_heap m ! 0) = 1"
proof -
  have "\<exists>m. run manager_step freely race sample_routes = Some m \<and> (0, False) \<in> set (rm_leases m) \<and> rg_closes (rm_heap m ! 0) = 1"
    by (simp add: race_def manager_eval Let_def)
  then show ?thesis using run_reachable reachable_init[of manager_init, OF sample_routes_init] by metis
qed

definition calm_run :: "unit action list" where
  "calm_run = [Do_Acquire, Do_Begin False 1, Do_Build [] (Build_Candidate False 0 (Some []) ''b''), Do_Activate 8 9 [],
     Do_Thread (Checking 0) [], Do_Finish, Do_Acquire]"

definition calm_routes :: "unit route_manager" where
  "calm_routes = the (run manager_step steady calm_run sample_routes)"

lemma calm_routes_eval:
  "run manager_step steady calm_run sample_routes = Some calm_routes" "length (rm_heap calm_routes) = 2"
  "rm_leases calm_routes = [(0, False), (1, False)]" "rm_active calm_routes = Some 1"
  by (simp_all add: calm_routes_def calm_run_def steady_def manager_eval Let_def)

lemma calm_routes_reachable: "reachable manager_init manager_step steady calm_routes"
  by (rule run_reachable[OF calm_routes_eval(1)]) (rule reachable_init, rule sample_routes_init)

theorem lease_keeps_open_witness:
  "rg_closes (rm_heap calm_routes ! 0) = 0 \<and> \<not> rg_closeScheduled (rm_heap calm_routes ! 0)"
  by (rule lease_keeps_open[OF calm_routes_reachable]) (simp add: calm_routes_eval)

theorem generation_lifecycle_witness:
  "rg_closes (rm_heap calm_routes ! 1) \<le> 1 \<and> rg_closes (rm_heap calm_routes ! 1) = 0"
  using generation_lifecycle[OF reachable_freely[OF calm_routes_reachable], of 1] by (simp add: calm_routes_eval)

end
