(* ===== verification/Http_Forwarder.thy ===== *)
theory Http_Forwarder
  imports Router
begin

text \<open>
  The HTTP upstream (\<^verbatim>\<open>src/internal/adapter/httpforwarder\<close>): the selector that spreads packets over the
  endpoints of a route and lets failed ones rest, and the forwarder that fails over to other endpoints.
  The outside world is an argument: for every attempt the state of the context, what the resolver
  returns, the clock, and what the HTTP client reports.  Observers, which only feed metrics, are left
  out, and so is the rewriting of an endpoint for display, an argument \<open>safe\<close>.
\<close>

section \<open>Endpoint selection\<close>

record selector =
  es_cooldown :: duration
  es_next :: nat
  es_unhealthyUntil :: "(string, time) gomap"

definition newEndpointSelector :: "duration \<Rightarrow> selector" where
  "newEndpointSelector cooldown = \<lparr>es_cooldown = cooldown, es_next = 0, es_unhealthyUntil = []\<rparr>"

text \<open>The loop over the offsets: the first endpoint from \<open>start\<close> on, round the end, that is neither excluded nor resting.\<close>

fun scan_endpoints :: "string list \<Rightarrow> string list \<Rightarrow> (string, time) gomap \<Rightarrow> time \<Rightarrow> nat \<Rightarrow> nat list \<Rightarrow> (nat \<times> string) option" where
  "scan_endpoints endpoints excluded unhealthy now start [] = None"
| "scan_endpoints endpoints excluded unhealthy now start (offset # offsets) =
    (let index = (start + offset) mod length endpoints; endpoint = endpoints ! index in
     if endpoint \<in> set excluded then scan_endpoints endpoints excluded unhealthy now start offsets
     else case map_of unhealthy endpoint of
       Some until \<Rightarrow> if before now until then scan_endpoints endpoints excluded unhealthy now start offsets else Some (index, endpoint)
     | None \<Rightarrow> Some (index, endpoint))"

definition Select :: "cause + string list \<Rightarrow> time \<Rightarrow> string list \<Rightarrow> selector \<Rightarrow> (cause + string) \<times> selector" where
  "Select resolved now excluded s = (case resolved of
     Inl err \<Rightarrow> (Inl err, s)
   | Inr endpoints \<Rightarrow>
       if endpoints = [] then (Inl Cause_NoEndpoint, s)
       else let unhealthy = filter (\<lambda>(e, until). e \<in> set endpoints \<and> before now until) (es_unhealthyUntil s);
                s = s\<lparr>es_unhealthyUntil := unhealthy\<rparr>; n = length endpoints in
         (case scan_endpoints endpoints excluded unhealthy now (es_next s mod n) [0..<n] of
            Some (index, endpoint) \<Rightarrow>
              let s = s\<lparr>es_next := (index + 1) mod n\<rparr> in
              if endpoint \<noteq> '''' then (Inr endpoint, s) else (Inl Cause_NoEndpoint, s)
          | None \<Rightarrow> (Inl Cause_NoEndpoint, s)))"

definition selector_MarkFailure :: "time \<Rightarrow> string \<Rightarrow> selector \<Rightarrow> selector" where
  "selector_MarkFailure now endpoint s = (if endpoint = '''' \<or> es_cooldown s \<le> 0 then s
     else s\<lparr>es_unhealthyUntil := put endpoint (now + es_cooldown s) (es_unhealthyUntil s)\<rparr>)"

definition selector_MarkSuccess :: "string \<Rightarrow> selector \<Rightarrow> selector" where
  "selector_MarkSuccess endpoint s = (if endpoint = '''' then s else s\<lparr>es_unhealthyUntil := del endpoint (es_unhealthyUntil s)\<rparr>)"

definition selector_Close :: "selector \<Rightarrow> selector" where
  "selector_Close s = s\<lparr>es_unhealthyUntil := []\<rparr>"

section \<open>One attempt\<close>

record attempt_failure =
  af_class :: failure_class
  af_retryable :: bool
  af_cause :: cause

text \<open>
  What the client does with a request: it cannot be built; the client fails, with or without a response;
  or a response comes back.
\<close>

datatype http_outcome = No_Request cause | Client_Failed cause | Client_Failed_Response string int cause | Response string int

definition contextAttemptFailure :: "cause \<Rightarrow> attempt_failure" where
  "contextAttemptFailure err = \<lparr>af_class = (if err = Cause_Deadline then ClassTimeout else ClassCanceled), af_retryable = False, af_cause = err\<rparr>"

definition ctx_cause :: "ctx_err \<Rightarrow> cause" where
  "ctx_cause e = (case e of Canceled \<Rightarrow> Cause_Canceled | DeadlineExceeded \<Rightarrow> Cause_Deadline)"

definition classifyTransportFailure :: "ctx \<Rightarrow> cause \<Rightarrow> attempt_failure" where
  "classifyTransportFailure ctx err = (case ctx of
     Some e \<Rightarrow> contextAttemptFailure (ctx_cause e)
   | None \<Rightarrow>
       if err = Cause_Canceled then contextAttemptFailure Cause_Canceled
       else if err = Cause_Deadline then \<lparr>af_class = ClassTimeout, af_retryable = True, af_cause = err\<rparr>
       else if err = Cause_NetTimeout then \<lparr>af_class = ClassTimeout, af_retryable = True, af_cause = err\<rparr>
       else \<lparr>af_class = ClassTransport, af_retryable = True, af_cause = err\<rparr>)"

definition preAttemptFailure :: "cause \<Rightarrow> attempt_failure" where
  "preAttemptFailure err = (if err = Cause_Canceled \<or> err = Cause_Deadline then contextAttemptFailure err
     else \<lparr>af_class = ClassDiscovery, af_retryable = False, af_cause = err\<rparr>)"

definition TargetType :: string where "TargetType = ''http''"

definition http_result :: "string \<Rightarrow> int \<Rightarrow> forward_result" where
  "http_result status code = empty_result\<lparr>fr_TargetType := TargetType, fr_Status := status, fr_StatusCode := code\<rparr>"

text \<open>\<open>ctx\<close> is the state of the context when the client failed.\<close>

definition forwardTo :: "ctx \<Rightarrow> http_outcome \<Rightarrow> forward_result option \<times> attempt_failure option" where
  "forwardTo ctx outcome = (case outcome of
     No_Request err \<Rightarrow> (None, Some \<lparr>af_class = ClassRequest, af_retryable = False, af_cause = err\<rparr>)
   | Client_Failed_Response status code err \<Rightarrow>
       (Some (http_result status code), Some \<lparr>af_class = ClassResponse, af_retryable = False, af_cause = err\<rparr>)
   | Client_Failed err \<Rightarrow> (None, Some (classifyTransportFailure ctx err))
   | Response status code \<Rightarrow>
       if code < 200 \<or> 300 \<le> code
       then (Some (http_result status code), Some \<lparr>af_class = ClassResponse, af_retryable = False, af_cause = Cause_Other\<rparr>)
       else (Some (http_result status code), None))"

definition annotateForwardResult :: "(string \<Rightarrow> string) \<Rightarrow> forward_result option \<Rightarrow> string \<Rightarrow> int \<Rightarrow> int \<Rightarrow> forward_result" where
  "annotateForwardResult safe result endpoint attempts maxAttempts =
    (let r = (case result of None \<Rightarrow> empty_result | Some r \<Rightarrow> r)
     in r\<lparr>fr_TargetType := TargetType, fr_Endpoint := safe endpoint, fr_Attempts := attempts, fr_MaxAttempts := maxAttempts\<rparr>)"

definition resultEndpoint :: "forward_result option \<Rightarrow> string" where
  "resultEndpoint result = (case result of None \<Rightarrow> '''' | Some r \<Rightarrow> fr_Endpoint r)"

definition newForwardError :: "attempt_failure \<Rightarrow> forward_result \<Rightarrow> failover_decision \<Rightarrow> forward_err" where
  "newForwardError failure result decision = Forward_Error
     \<lparr>fe_Class = af_class failure, fe_Endpoint = fr_Endpoint result, fe_Attempts = fr_Attempts result,
       fe_MaxAttempts = fr_MaxAttempts result, fe_Retryable = af_retryable failure, fe_Decision = decision,
       fe_Cause = af_cause failure\<rparr>"

section \<open>Forwarding\<close>

text \<open>The outside world, by the number of the attempt.\<close>

record http_world =
  hw_ctx :: "nat \<Rightarrow> ctx"
  hw_resolve :: "nat \<Rightarrow> cause + string list"
  hw_now :: "nat \<Rightarrow> time"
  hw_post :: "nat \<Rightarrow> string \<Rightarrow> http_outcome"
  hw_ctx_after :: "nat \<Rightarrow> ctx"
  hw_now_after :: "nat \<Rightarrow> time"

text \<open>
  The loop of \<^verbatim>\<open>forwardDiscovered\<close> from attempt \<open>n\<close> on, with \<open>fuel\<close> attempts left and the outcome of
  the last one; it also returns the endpoints that were posted to.  The last result and failure, which the
  code keeps in two variables that are set together, are one value.
\<close>

fun discovered_loop ::
  "(string \<Rightarrow> string) \<Rightarrow> http_world \<Rightarrow> nat \<Rightarrow> nat \<Rightarrow> nat \<Rightarrow> string list \<Rightarrow> (forward_result \<times> attempt_failure) option \<Rightarrow> selector
    \<Rightarrow> ((forward_result \<times> forward_err option) \<times> string list) \<times> selector" where
  "discovered_loop safe W maxAttempts 0 n attempted prev s =
    ((case prev of Some (r, f) \<Rightarrow> ((r, Some (newForwardError f r Decision_Exhausted)), [])
      | None \<Rightarrow> ((empty_result, None), [])), s)"
| "discovered_loop safe W maxAttempts (Suc fuel) n attempted prev s =
    (case hw_ctx W n of
       Some e \<Rightarrow>
         let result = annotateForwardResult safe (map_option fst prev) (resultEndpoint (map_option fst prev)) (int n - 1) (int maxAttempts)
         in (((result, Some (newForwardError (contextAttemptFailure (ctx_cause e)) result Decision_NotRetryable)), []), s)
     | None \<Rightarrow>
         (case Select (hw_resolve W n) (hw_now W n) attempted s of
            (Inl err, s) \<Rightarrow>
              (case prev of
                 Some (r, f) \<Rightarrow> (((r, Some (newForwardError f r Decision_NoAlternate)), []), s)
               | None \<Rightarrow>
                   let result = annotateForwardResult safe None '''' 0 (int maxAttempts); failure = preAttemptFailure err;
                       decision = (if af_class failure = ClassCanceled \<or> af_class failure = ClassTimeout then Decision_NotRetryable
                         else Decision_NoAlternate)
                   in (((result, Some (newForwardError failure result decision)), []), s))
          | (Inr endpoint, s) \<Rightarrow>
              let (result, failure) = forwardTo (hw_ctx_after W n) (hw_post W n endpoint);
                  result = annotateForwardResult safe result endpoint (int n) (int maxAttempts) in
              (case failure of
                 None \<Rightarrow> (((result, None), [endpoint]), selector_MarkSuccess endpoint s)
               | Some f \<Rightarrow>
                   if \<not> af_retryable f
                   then (((result, Some (newForwardError f result Decision_NotRetryable)), [endpoint]),
                     if af_class f = ClassResponse then selector_MarkSuccess endpoint s else s)
                   else let s = selector_MarkFailure (hw_now_after W n) endpoint s in
                     if n = maxAttempts
                     then (((result, Some (newForwardError f result (if maxAttempts = 1 then Decision_Disabled else Decision_Exhausted))),
                       [endpoint]), s)
                     else let ((out, posted), s) = discovered_loop safe W maxAttempts fuel (n + 1) (endpoint # attempted) (Some (result, f)) s
                       in ((out, endpoint # posted), s))))"

definition forwardDiscovered ::
  "(string \<Rightarrow> string) \<Rightarrow> http_world \<Rightarrow> nat \<Rightarrow> selector \<Rightarrow> ((forward_result \<times> forward_err option) \<times> string list) \<times> selector" where
  "forwardDiscovered safe W maxAttempts s = discovered_loop safe W maxAttempts maxAttempts 1 [] None s"

definition forwardSingle :: "(string \<Rightarrow> string) \<Rightarrow> ctx \<Rightarrow> string \<Rightarrow> http_outcome \<Rightarrow> forward_result \<times> forward_err option" where
  "forwardSingle safe ctx u outcome =
    (let (result, failure) = forwardTo ctx outcome; result = annotateForwardResult safe result u 1 1 in
     case failure of None \<Rightarrow> (result, None)
     | Some f \<Rightarrow> (result, Some (newForwardError f result (if af_retryable f then Decision_Disabled else Decision_NotRetryable))))"

section \<open>Configuration\<close>

record http_forwarder =
  hf_url :: string
  hf_selector :: "selector option"
  hf_maxAttempts :: int

definition New :: "string \<Rightarrow> http_forwarder" where
  "New u = \<lparr>hf_url = u, hf_selector = None, hf_maxAttempts = 1\<rparr>"

text \<open>\<^verbatim>\<open>None\<close> is an invalid configuration; \<open>host\<close> and \<open>name\<close> are the DNS host metadata.\<close>

definition NewDiscovered :: "bool \<Rightarrow> int \<Rightarrow> duration \<Rightarrow> string \<Rightarrow> string \<Rightarrow> http_forwarder option" where
  "NewDiscovered resolver maxAttempts cooldown host name =
    (if \<not> resolver then None
     else if maxAttempts < 1 \<or> 4 < maxAttempts then None
     else if cooldown < 0 then None
     else if CHR 0x0D \<in> set host \<or> CHR 0x0A \<in> set host \<or> CHR 0x0D \<in> set name \<or> CHR 0x0A \<in> set name then None
     else Some \<lparr>hf_url = '''', hf_selector = Some (newEndpointSelector cooldown), hf_maxAttempts = maxAttempts\<rparr>)"

text \<open>\<open>encoded\<close> says whether the packet could be marshalled, with the cause when it could not.\<close>

definition http_Forward ::
  "(string \<Rightarrow> string) \<Rightarrow> http_world \<Rightarrow> cause option \<Rightarrow> http_forwarder \<Rightarrow> ((forward_result \<times> forward_err option) \<times> string list) \<times> http_forwarder" where
  "http_Forward safe W encoded f =
    (if hf_selector f = None \<and> hf_url f = ''''
     then let result = annotateForwardResult safe None '''' 0 1
       in (((result, Some (newForwardError \<lparr>af_class = ClassRequest, af_retryable = False, af_cause = Cause_Other\<rparr> result Decision_Disabled)), []), f)
     else case encoded of
       Some err \<Rightarrow>
         let result = annotateForwardResult safe None '''' 0 (if hf_maxAttempts f < 1 then 1 else hf_maxAttempts f)
         in (((result, Some (newForwardError \<lparr>af_class = ClassEncoding, af_retryable = False, af_cause = err\<rparr> result Decision_NotRetryable)), []), f)
     | None \<Rightarrow>
         (case hf_selector f of
            None \<Rightarrow> ((forwardSingle safe (hw_ctx_after W 1) (hf_url f) (hw_post W 1 (hf_url f)), [hf_url f]), f)
          | Some s \<Rightarrow>
              let (out, s) = forwardDiscovered safe W (nat (hf_maxAttempts f)) s in (out, f\<lparr>hf_selector := Some s\<rparr>)))"

section \<open>Static endpoints\<close>

text \<open>\<open>parses\<close> says of an endpoint whether \<^verbatim>\<open>url.Parse\<close> accepts it as an absolute http or https URL without user and fragment.\<close>

fun static_endpoints :: "(string \<Rightarrow> bool) \<Rightarrow> string list \<Rightarrow> string list \<Rightarrow> string list option" where
  "static_endpoints parses seen [] = Some (rev seen)"
| "static_endpoints parses seen (e # es) =
    (let e = trim_space e in
     if \<not> parses e then None else if e \<in> set seen then None else static_endpoints parses (e # seen) es)"

definition NewStaticResolver :: "(string \<Rightarrow> bool) \<Rightarrow> string list \<Rightarrow> string list option" where
  "NewStaticResolver parses endpoints = (if endpoints = [] then None else static_endpoints parses [] endpoints)"

definition static_Resolve :: "ctx \<Rightarrow> string list \<Rightarrow> cause + string list" where
  "static_Resolve ctx endpoints = (case ctx of Some e \<Rightarrow> Inl (ctx_cause e)
     | None \<Rightarrow> if endpoints = [] then Inl Cause_NoEndpoint else Inr endpoints)"

section \<open>Selection is fair and respects the cooldown\<close>

lemma scan_endpoints_Some:
  assumes "scan_endpoints es ex un now start offs = Some (i, e)" "es \<noteq> []"
  shows "\<exists>pre off post. offs = pre @ off # post \<and> i = (start + off) mod length es \<and> e = es ! i \<and> i < length es
    \<and> e \<notin> set ex \<and> (\<forall>u. map_of un e = Some u \<longrightarrow> \<not> before now u)
    \<and> (\<forall>o'\<in>set pre. es ! ((start + o') mod length es) \<in> set ex \<or> (\<exists>u. map_of un (es ! ((start + o') mod length es)) = Some u \<and> before now u))"
  using assms
proof (induction offs)
  case (Cons off offs)
  let ?i = "(start + off) mod length es"
  let ?skip = "es ! ?i \<in> set ex \<or> (\<exists>u. map_of un (es ! ?i) = Some u \<and> before now u)"
  show ?case
  proof (cases ?skip)
    case True
    then have "scan_endpoints es ex un now start offs = Some (i, e)"
      using Cons.prems(1) by (auto simp: Let_def split: if_splits option.splits)
    then obtain pre o' post where ih: "offs = pre @ o' # post" "i = (start + o') mod length es" "e = es ! i" "i < length es" "e \<notin> set ex"
        "\<forall>u. map_of un e = Some u \<longrightarrow> \<not> before now u"
        "\<forall>o'\<in>set pre. es ! ((start + o') mod length es) \<in> set ex \<or> (\<exists>u. map_of un (es ! ((start + o') mod length es)) = Some u \<and> before now u)"
      using Cons.IH Cons.prems(2) by blast
    show ?thesis
      by (rule exI[of _ "off # pre"], rule exI[of _ o'], rule exI[of _ post]) (use ih True in auto)
  next
    case False
    then have "i = ?i" "e = es ! ?i" using Cons.prems(1) by (auto simp: Let_def split: if_splits option.splits)
    with False Cons.prems(2) show ?thesis
      by (intro exI[of _ "[]"] exI[of _ off] exI[of _ offs]) auto
  qed
qed simp

lemma scan_endpoints_None:
  "scan_endpoints es ex un now start offs = None \<longleftrightarrow>
    (\<forall>off\<in>set offs. es ! ((start + off) mod length es) \<in> set ex \<or> (\<exists>u. map_of un (es ! ((start + off) mod length es)) = Some u \<and> before now u))"
  by (induction offs) (auto simp: Let_def split: option.splits)

lemma rotation_covers: "n \<noteq> 0 \<Longrightarrow> (\<lambda>off. (start + off) mod n) ` set [0..<n] = {..<n}"
proof
  assume n: "n \<noteq> 0"
  show "{..<n} \<subseteq> (\<lambda>off. (start + off) mod n) ` set [0..<n]"
  proof
    fix i assume i: "i \<in> {..<n}"
    have "(start + (i + (n - start mod n)) mod n) mod n = (start + (i + (n - start mod n))) mod n" by (simp add: mod_add_right_eq)
    also have "\<dots> = (start mod n + (i + (n - start mod n))) mod n" by (simp add: mod_add_left_eq)
    also have "start mod n + (i + (n - start mod n)) = i + n" using mod_less_divisor[of n start] n by linarith
    finally have "(start + (i + (n - start mod n)) mod n) mod n = i" using i by simp
    moreover have "(i + (n - start mod n)) mod n \<in> set [0..<n]" using n by simp
    ultimately show "i \<in> (\<lambda>off. (start + off) mod n) ` set [0..<n]" by (metis (no_types, lifting) imageI)
  qed
qed auto

text \<open>An endpoint can be chosen: it is one of the resolved ones, was not tried, and is not resting.\<close>

definition eligible :: "string list \<Rightarrow> string list \<Rightarrow> time \<Rightarrow> selector \<Rightarrow> string \<Rightarrow> bool" where
  "eligible endpoints excluded now s e \<longleftrightarrow> e \<in> set endpoints \<and> e \<notin> set excluded
     \<and> (\<forall>until. map_of (es_unhealthyUntil s) e = Some until \<longrightarrow> \<not> before now until)"

lemma map_of_filter_wf:
  "wf_map m \<Longrightarrow> map_of (filter (\<lambda>(k, v). P k v) m) k = (case map_of m k of None \<Rightarrow> None | Some v \<Rightarrow> if P k v then Some v else None)"
proof (induction m)
  case (Cons a m)
  have "map_of m (fst a) = None" using Cons.prems by (auto simp: wf_map_def map_of_eq_None_iff)
  with Cons show ?case by (cases a) (auto simp: wf_map_def split: option.splits)
qed simp

lemma Select_correct:
  assumes "wf_map (es_unhealthyUntil s)" "'''' \<notin> set endpoints"
  shows "case Select (Inr endpoints) now excluded s of
      (Inr e, s') \<Rightarrow> eligible endpoints excluded now s e \<and> es_next s' < length endpoints
        \<and> endpoints ! ((es_next s' + length endpoints - 1) mod length endpoints) = e
    | (Inl err, s') \<Rightarrow> err = Cause_NoEndpoint \<and> (\<forall>e. \<not> eligible endpoints excluded now s e)"
proof (cases "endpoints = []")
  case False
  let ?n = "length endpoints"
  let ?un = "filter (\<lambda>(e, until). e \<in> set endpoints \<and> before now until) (es_unhealthyUntil s)"
  let ?scan = "scan_endpoints endpoints excluded ?un now (es_next s mod ?n) [0..<?n]"
  have un: "(\<exists>u. map_of ?un e = Some u \<and> before now u) \<longleftrightarrow> (\<exists>u. map_of (es_unhealthyUntil s) e = Some u \<and> before now u)" if "e \<in> set endpoints" for e
    using map_of_filter_wf[OF assms(1), of "\<lambda>e until. e \<in> set endpoints \<and> before now until" e] that by (auto split: option.splits)
  show ?thesis
  proof (cases ?scan)
    case None
    have "\<not> eligible endpoints excluded now s e" for e
    proof
      assume el: "eligible endpoints excluded now s e"
      then obtain i where i: "i < ?n" "endpoints ! i = e" by (auto simp: eligible_def in_set_conv_nth)
      then obtain off where "off \<in> set [0..<?n]" "(es_next s mod ?n + off) mod ?n = i"
        using rotation_covers[of ?n "es_next s mod ?n"] False by (metis (no_types, lifting) imageE length_0_conv lessThan_iff)
      then have "e \<in> set excluded \<or> (\<exists>u. map_of ?un e = Some u \<and> before now u)" using None i unfolding scan_endpoints_None by blast
      then show False using el un[of e] by (auto simp: eligible_def)
    qed
    then show ?thesis using None False by (simp add: Select_def Let_def)
  next
    case (Some p)
    obtain i e where p: "p = (i, e)" by (cases p)
    obtain off where sc: "i = (es_next s mod ?n + off) mod ?n" "e = endpoints ! i" "i < ?n" "e \<notin> set excluded"
        "\<forall>u. map_of ?un e = Some u \<longrightarrow> \<not> before now u"
      using scan_endpoints_Some[OF Some[unfolded p] False] by blast
    have e: "e \<in> set endpoints" "e \<noteq> ''''" using sc(2,3) assms(2) by (metis nth_mem)+
    have "\<not> before now until" if "map_of (es_unhealthyUntil s) e = Some until" for until
      using un[OF e(1)] sc(5) that by blast
    then have "eligible endpoints excluded now s e" using e(1) sc(4) by (auto simp: eligible_def)
    moreover have "((i + 1) mod ?n + ?n - 1) mod ?n = i"
    proof (cases "i + 1 = ?n")
      case True
      then show ?thesis by simp
    next
      case False
      then have "(i + 1) mod ?n = i + 1" using sc(3) by simp
      then show ?thesis using sc(3) by simp
    qed
    moreover have "(i + 1) mod ?n < ?n" using False by simp
    ultimately show ?thesis using Some p e(2) sc(2) False by (simp add: Select_def Let_def)
  qed
qed (simp add: Select_def eligible_def)

section \<open>Failover\<close>

lemma forwardTo_retryable: "forwardTo ctx outcome = (result, Some f) \<Longrightarrow> af_retryable f \<Longrightarrow> \<exists>c. outcome = Client_Failed c"
  by (auto simp: forwardTo_def split: http_outcome.splits if_splits)

lemma forwardTo_None: "forwardTo ctx outcome = (result, None) \<longleftrightarrow>
    (\<exists>status code. outcome = Response status code \<and> 200 \<le> code \<and> code < 300 \<and> result = Some (http_result status code))"
  by (auto simp: forwardTo_def split: http_outcome.splits)

lemma Select_Inr: "Select resolved now excluded s = (Inr e, s') \<Longrightarrow> \<exists>es. resolved = Inr es \<and> e \<in> set es \<and> e \<notin> set excluded"
proof -
  assume sel: "Select resolved now excluded s = (Inr e, s')"
  then obtain es where es: "resolved = Inr es" "es \<noteq> []" by (auto simp: Select_def split: sum.splits if_splits)
  let ?un = "filter (\<lambda>(e, until). e \<in> set es \<and> before now until) (es_unhealthyUntil s)"
  obtain i where "scan_endpoints es excluded ?un now (es_next s mod length es) [0..<length es] = Some (i, e)"
    using sel es by (auto simp: Select_def Let_def split: option.splits if_splits)
  then show ?thesis using scan_endpoints_Some[OF _ es(2)] es(1) nth_mem by metis
qed

text \<open>
  What the posts of a run tell: they go to different endpoints, each one resolved at its attempt; all but
  the last one failed before a response came; and there is no error exactly if the last one succeeded.
\<close>

definition posts_ok :: "http_world \<Rightarrow> nat \<Rightarrow> string list \<Rightarrow> string list \<Rightarrow> forward_err option \<Rightarrow> bool" where
  "posts_ok W n attempted posted err \<longleftrightarrow> distinct posted \<and> set posted \<inter> set attempted = {}
     \<and> (\<forall>i<length posted. \<exists>es. hw_resolve W (n + i) = Inr es \<and> posted ! i \<in> set es)
     \<and> (\<forall>i. Suc i < length posted \<longrightarrow> (\<exists>c. hw_post W (n + i) (posted ! i) = Client_Failed c))
     \<and> (err = None \<longleftrightarrow> posted \<noteq> [] \<and> (\<exists>status code. hw_post W (n + length posted - 1) (last posted) = Response status code \<and> 200 \<le> code \<and> code < 300))"

lemma posts_ok_Nil: "err \<noteq> None \<Longrightarrow> posts_ok W n attempted [] err"
  by (simp add: posts_ok_def)

lemma posts_ok_one:
  assumes "hw_resolve W n = Inr es" "e \<in> set es" "e \<notin> set attempted"
    and "err = None \<longleftrightarrow> (\<exists>status code. hw_post W n e = Response status code \<and> 200 \<le> code \<and> code < 300)"
  shows "posts_ok W n attempted [e] err"
  using assms by (simp add: posts_ok_def)

lemma posts_ok_Cons:
  assumes "hw_resolve W n = Inr es" "e \<in> set es" "e \<notin> set attempted" "hw_post W n e = Client_Failed c"
    and "posts_ok W (n + 1) (e # attempted) posted err"
  shows "posts_ok W n attempted (e # posted) err"
proof -
  have p: "distinct posted" "set posted \<inter> set (e # attempted) = {}"
      "\<And>i. i < length posted \<Longrightarrow> \<exists>es. hw_resolve W (n + 1 + i) = Inr es \<and> posted ! i \<in> set es"
      "\<And>i. Suc i < length posted \<Longrightarrow> \<exists>c. hw_post W (n + 1 + i) (posted ! i) = Client_Failed c"
      "err = None \<longleftrightarrow> posted \<noteq> [] \<and> (\<exists>status code. hw_post W (n + 1 + length posted - 1) (last posted) = Response status code \<and> 200 \<le> code \<and> code < 300)"
    using assms(5) by (auto simp: posts_ok_def)
  have "\<exists>es. hw_resolve W (n + i) = Inr es \<and> (e # posted) ! i \<in> set es" if "i < length (e # posted)" for i
    using p(3)[of "i - 1"] assms(1,2) that by (cases i) auto
  moreover have "\<exists>c. hw_post W (n + i) ((e # posted) ! i) = Client_Failed c" if "Suc i < length (e # posted)" for i
    using p(4)[of "i - 1"] assms(4) that by (cases i) auto
  moreover have "err = None \<longleftrightarrow> (\<exists>status code. hw_post W (n + length (e # posted) - 1) (last (e # posted)) = Response status code \<and> 200 \<le> code \<and> code < 300)"
    using p(5) assms(4) by (cases "posted = []") auto
  ultimately show ?thesis using p(1,2) assms(3) by (simp add: posts_ok_def)
qed

lemma discovered_loop_posts:
  assumes "0 < fuel" "fuel + n = maxAttempts + 1"
    and "discovered_loop safe W maxAttempts fuel n attempted prev s = (((result, err), posted), s')"
  shows "posts_ok W n attempted posted err \<and> length posted \<le> fuel"
  using assms
proof (induction fuel arbitrary: n attempted prev s result err posted s')
  case (Suc fuel)
  show ?case
  proof (cases "hw_ctx W n")
    case (Some e)
    then show ?thesis using Suc.prems(3) by (auto simp: Let_def newForwardError_def intro: posts_ok_Nil)
  next
    case ctx: None
    obtain sel s1 where sel: "Select (hw_resolve W n) (hw_now W n) attempted s = (sel, s1)" by fastforce
    show ?thesis
    proof (cases sel)
      case (Inl e)
      then show ?thesis
        using Suc.prems(3) ctx sel by (auto simp: Let_def newForwardError_def intro: posts_ok_Nil split: option.splits)
    next
      case (Inr e)
      obtain es where es: "hw_resolve W n = Inr es" "e \<in> set es" "e \<notin> set attempted" using Select_Inr sel Inr by metis
      obtain res failure where to: "forwardTo (hw_ctx_after W n) (hw_post W n e) = (res, failure)" by fastforce
      show ?thesis
      proof (cases failure)
        case None
        then have "posted = [e]" "err = None" using Suc.prems(3) ctx sel Inr to by (auto simp: Let_def)
        moreover have "\<exists>status code. hw_post W n e = Response status code \<and> 200 \<le> code \<and> code < 300"
          using to None forwardTo_None by blast
        ultimately show ?thesis using posts_ok_one[OF es, of None] by simp
      next
        case (Some f)
        have no: "\<not> (\<exists>status code. hw_post W n e = Response status code \<and> 200 \<le> code \<and> code < 300)"
          using to Some by (auto simp: forwardTo_def)
        show ?thesis
        proof (cases "\<not> af_retryable f \<or> n = maxAttempts")
          case True
          then have "posted = [e]" "err \<noteq> None"
            using Suc.prems(3) ctx sel Inr to Some by (auto simp: Let_def newForwardError_def split: if_splits)
          then show ?thesis using posts_ok_one[OF es] no by simp
        next
          case False
          obtain c where c: "hw_post W n e = Client_Failed c" using forwardTo_retryable to Some False by metis
          let ?r = "annotateForwardResult safe res e (int n) (int maxAttempts)"
          obtain out posted' s2 where loop: "discovered_loop safe W maxAttempts fuel (n + 1) (e # attempted) (Some (?r, f))
              (selector_MarkFailure (hw_now_after W n) e s1) = ((out, posted'), s2)"
            by (metis prod.collapse)
          have eq: "out = (result, err)" "posted = e # posted'" using Suc.prems(3) ctx sel Inr to Some False loop by (auto simp: Let_def)
          have "posts_ok W (n + 1) (e # attempted) posted' err \<and> length posted' \<le> fuel"
            by (rule Suc.IH[OF _ _ loop[unfolded eq(1)]]) (use Suc.prems(2) False in auto)
          then show ?thesis using posts_ok_Cons[OF es c] eq(2) by simp
        qed
      qed
    qed
  qed
qed simp

section \<open>Properties\<close>


definition sample_http :: http_world where
  "sample_http = \<lparr>hw_ctx = \<lambda>_. None, hw_resolve = \<lambda>_. Inr [''http://a'', ''http://b''], hw_now = \<lambda>n. int n,
     hw_post = \<lambda>n e. if e = ''http://a'' then Client_Failed Cause_NetTimeout else Response ''200 OK'' 200,
     hw_ctx_after = \<lambda>_. None, hw_now_after = \<lambda>n. int n\<rparr>"

lemma sample_http_run:
  "\<exists>f result f'. NewDiscovered True 2 5 '''' '''' = Some f
    \<and> http_Forward id sample_http None f = (((result, None), [''http://a'', ''http://b'']), f')"
  by (simp add: NewDiscovered_def http_Forward_def forwardDiscovered_def sample_http_def Select_def newEndpointSelector_def upt_rec numeral_2_eq_2
      forwardTo_def classifyTransportFailure_def selector_MarkFailure_def before_def Let_def annotateForwardResult_def)


end
