(* ===== verification/Quota.thy ===== *)
theory Quota
  imports Go_Float Resilience
begin

text \<open>
  Traffic policies (\<^verbatim>\<open>src/internal/pipeline\<close>: \<^verbatim>\<open>traffic_policy.go\<close>, \<^verbatim>\<open>traffic_policy_runtime.go\<close>,
  \<^verbatim>\<open>quota_store.go\<close>, \<^verbatim>\<open>quota_store_local.go\<close>): the choice of a policy, its token bucket and the local store
  of the buckets, in the floating-point arithmetic of the code.  Every operation of the store runs under its
  mutex, so that a run of the store is a sequence of them.
\<close>

section \<open>Configuration\<close>

record token_bucket_config =
  tb_Capacity :: int
  tb_RefillTokens :: int
  tb_RefillInterval :: duration

record traffic_policy_match =
  tm_ClientIDs :: "string list"
  tm_MsgIDMin :: "32 word"
  tm_MsgIDMax :: "32 word"
  tm_Routes :: "string list"

record traffic_policy =
  ty_Name :: string
  ty_Priority :: int
  ty_Match :: traffic_policy_match
  ty_Key :: string
  ty_TokenBucket :: token_bucket_config

record traffic_policy_route =
  tq_Name :: string
  tq_MsgIDMin :: "32 word"
  tq_MsgIDMax :: "32 word"

record traffic_policies_config =
  tf_Enabled :: bool
  tf_Mode :: string
  tf_MaxKeys :: int
  tf_IdleTTL :: duration
  tf_DefaultPolicy :: string
  tf_Policies :: "traffic_policy list"
  tf_Routes :: "traffic_policy_route list"

definition TrafficPolicyModeLocal :: string where "TrafficPolicyModeLocal = ''local''"
definition TrafficPolicyModeRedis :: string where "TrafficPolicyModeRedis = ''redis''"
definition TrafficPolicyKeyClientID :: string where "TrafficPolicyKeyClientID = ''client_id''"

section \<open>The choice of a policy\<close>

record traffic_policy_selection =
  tl_Name :: string
  tl_Key :: string
  tl_TokenBucket :: token_bucket_config

record compiled_traffic_policy =
  cp_selection :: traffic_policy_selection
  cp_priority :: int
  cp_match :: traffic_policy_match

record traffic_policy_selector =
  sl_policies :: "compiled_traffic_policy list"
  sl_routes :: "traffic_policy_route list"
  sl_default :: "traffic_policy_selection option"

text \<open>The name sets of a compiled policy are the sets of its match.\<close>

definition compile_policy :: "traffic_policy \<Rightarrow> compiled_traffic_policy" where
  "compile_policy p = \<lparr>cp_selection = \<lparr>tl_Name = ty_Name p, tl_Key = ty_Key p, tl_TokenBucket = ty_TokenBucket p\<rparr>,
     cp_priority = ty_Priority p, cp_match = ty_Match p\<rparr>"

definition policy_lt :: "compiled_traffic_policy \<Rightarrow> compiled_traffic_policy \<Rightarrow> bool" where
  "policy_lt l r = (if cp_priority l \<noteq> cp_priority r then cp_priority r < cp_priority l
     else tl_Name (cp_selection l) < tl_Name (cp_selection r))"

definition NewTrafficPolicySelector :: "traffic_policies_config \<Rightarrow> traffic_policy_selector" where
  "NewTrafficPolicySelector config =
    (let policies = sort_slice policy_lt (map compile_policy (tf_Policies config)) in
     \<lparr>sl_policies = policies, sl_routes = tf_Routes config,
      sl_default = map_option cp_selection (find (\<lambda>p. tl_Name (cp_selection p) = tf_DefaultPolicy config) policies)\<rparr>)"

definition policy_matches :: "compiled_traffic_policy \<Rightarrow> string \<Rightarrow> 32 word \<Rightarrow> string \<Rightarrow> bool \<Rightarrow> bool" where
  "policy_matches p clientID msgID routeName routeFound =
    (let m = cp_match p; maxMsgID = (if tm_MsgIDMax m = 0 then tm_MsgIDMin m else tm_MsgIDMax m) in
     if tm_ClientIDs m \<noteq> [] \<and> clientID \<notin> set (tm_ClientIDs m) then False
     else if tm_MsgIDMin m \<noteq> 0 \<and> (msgID < tm_MsgIDMin m \<or> msgID > maxMsgID) then False
     else if tm_Routes m \<noteq> [] \<and> \<not> routeFound then False
     else if tm_Routes m \<noteq> [] \<and> routeName \<notin> set (tm_Routes m) then False
     else True)"

definition SelectResolved ::
  "traffic_policy_selector \<Rightarrow> string \<Rightarrow> 32 word \<Rightarrow> string \<Rightarrow> bool \<Rightarrow> traffic_policy_selection option" where
  "SelectResolved s clientID msgID routeName routeFound =
    (case find (\<lambda>p. policy_matches p clientID msgID routeName routeFound) (sl_policies s) of
       Some p \<Rightarrow> Some (cp_selection p) | None \<Rightarrow> sl_default s)"

fun resolve_policy_route :: "traffic_policy_route list \<Rightarrow> 32 word \<Rightarrow> string \<times> bool" where
  "resolve_policy_route [] msgID = ('''', False)"
| "resolve_policy_route (r # rs) msgID =
    (let maxMsgID = (if tq_MsgIDMax r = 0 then tq_MsgIDMin r else tq_MsgIDMax r) in
     if tq_MsgIDMin r \<le> msgID \<and> msgID \<le> maxMsgID then (tq_Name r, True) else resolve_policy_route rs msgID)"

definition Select_policy :: "traffic_policy_selector \<Rightarrow> string \<Rightarrow> 32 word \<Rightarrow> traffic_policy_selection option" where
  "Select_policy s clientID msgID =
    (case resolve_policy_route (sl_routes s) msgID of (routeName, routeFound) \<Rightarrow> SelectResolved s clientID msgID routeName routeFound)"

section \<open>Decisions and their record\<close>

type_synonym quota_decision = string

definition QuotaDecisionAllowed :: quota_decision where "QuotaDecisionAllowed = ''allowed''"
definition QuotaDecisionRateLimited :: quota_decision where "QuotaDecisionRateLimited = ReasonRateLimited"
definition QuotaDecisionOverloaded :: quota_decision where "QuotaDecisionOverloaded = ReasonOverloaded"
definition QuotaDecisionAdmissionUnavailable :: quota_decision where
  "QuotaDecisionAdmissionUnavailable = ReasonAdmissionUnavailable"

lemmas quota_decisions = QuotaDecisionAllowed_def QuotaDecisionRateLimited_def QuotaDecisionOverloaded_def
  QuotaDecisionAdmissionUnavailable_def ReasonRateLimited_def ReasonOverloaded_def ReasonAdmissionUnavailable_def

definition normalizedQuotaDecision :: "quota_decision \<Rightarrow> quota_decision" where
  "normalizedQuotaDecision d = (if d \<in> {QuotaDecisionAllowed, QuotaDecisionRateLimited, QuotaDecisionOverloaded,
     QuotaDecisionAdmissionUnavailable} then d else QuotaDecisionAdmissionUnavailable)"

definition normalizedTrafficPolicyMode :: "string \<Rightarrow> string" where
  "normalizedTrafficPolicyMode mode = (if mode = TrafficPolicyModeLocal \<or> mode = TrafficPolicyModeRedis then mode else ''unknown'')"

definition trafficPolicyBucketState :: "quota_decision \<Rightarrow> string" where
  "trafficPolicyBucketState d = (if d = QuotaDecisionAllowed then ''available''
     else if d = QuotaDecisionRateLimited then ''depleted''
     else if d = QuotaDecisionOverloaded then ''key_capacity_exhausted'' else ''store_unavailable'')"

record decision_totals =
  to_Allowed :: "64 word"
  to_RateLimited :: "64 word"
  to_Overloaded :: "64 word"
  to_AdmissionUnavailable :: "64 word"

definition zero_totals :: decision_totals where
  "zero_totals = \<lparr>to_Allowed = 0, to_RateLimited = 0, to_Overloaded = 0, to_AdmissionUnavailable = 0\<rparr>"

definition addTrafficPolicyDecision :: "quota_decision \<Rightarrow> decision_totals \<Rightarrow> decision_totals" where
  "addTrafficPolicyDecision d t =
    (if d = QuotaDecisionAllowed then t\<lparr>to_Allowed := to_Allowed t + 1\<rparr>
     else if d = QuotaDecisionRateLimited then t\<lparr>to_RateLimited := to_RateLimited t + 1\<rparr>
     else if d = QuotaDecisionOverloaded then t\<lparr>to_Overloaded := to_Overloaded t + 1\<rparr>
     else if d = QuotaDecisionAdmissionUnavailable then t\<lparr>to_AdmissionUnavailable := to_AdmissionUnavailable t + 1\<rparr>
     else t)"

record runtime_policy =
  ru_selectionTotal :: "64 word"
  ru_decisions :: decision_totals
  ru_lastResult :: quota_decision
  ru_lastState :: string
  ru_lastDecisionAt :: time

record policy_runtime =
  rn_mode :: string
  rn_noMatchTotal :: "64 word"
  rn_decisions :: decision_totals
  rn_lastResult :: quota_decision
  rn_lastState :: string
  rn_lastDecisionAt :: time
  rn_lastSuccessAt :: time
  rn_lastUnavailableAt :: time
  rn_localKeys :: int
  rn_localKeyLimit :: int
  rn_policies :: "(string, runtime_policy) gomap"
  rn_policyNames :: "string list"

definition zero_runtime_policy :: runtime_policy where
  "zero_runtime_policy = \<lparr>ru_selectionTotal = 0, ru_decisions = zero_totals, ru_lastResult = '''', ru_lastState = '''', ru_lastDecisionAt = 0\<rparr>"

fun runtime_names :: "(string, runtime_policy) gomap \<times> string list \<Rightarrow> traffic_policy list \<Rightarrow> (string, runtime_policy) gomap \<times> string list" where
  "runtime_names (m, ns) [] = (m, ns)"
| "runtime_names (m, ns) (p # ps) =
    (if ty_Name p = '''' \<or> map_of m (ty_Name p) \<noteq> None then runtime_names (m, ns) ps
     else runtime_names (put (ty_Name p) zero_runtime_policy m, ns @ [ty_Name p]) ps)"

definition newTrafficPolicyRuntime :: "traffic_policies_config \<Rightarrow> policy_runtime" where
  "newTrafficPolicyRuntime config =
    (case runtime_names ([], []) (tf_Policies config) of (policies, names) \<Rightarrow>
     \<lparr>rn_mode = normalizedTrafficPolicyMode (tf_Mode config), rn_noMatchTotal = 0, rn_decisions = zero_totals,
      rn_lastResult = '''', rn_lastState = '''', rn_lastDecisionAt = 0, rn_lastSuccessAt = 0, rn_lastUnavailableAt = 0,
      rn_localKeys = 0, rn_localKeyLimit = tf_MaxKeys config, rn_policies = policies, rn_policyNames = sort_slice (<) names\<rparr>)"

definition recordNoMatch :: "policy_runtime \<Rightarrow> policy_runtime" where
  "recordNoMatch r = r\<lparr>rn_noMatchTotal := rn_noMatchTotal r + 1\<rparr>"

definition recordSelection :: "string \<Rightarrow> policy_runtime \<Rightarrow> policy_runtime" where
  "recordSelection policyName r = (case map_of (rn_policies r) policyName of None \<Rightarrow> r
     | Some p \<Rightarrow> r\<lparr>rn_policies := put policyName (p\<lparr>ru_selectionTotal := ru_selectionTotal p + 1\<rparr>) (rn_policies r)\<rparr>)"

text \<open>\<open>clock\<close> is the reading of the runtime's clock, \<open>clock'\<close> that of \<^verbatim>\<open>time.Now\<close>, used when the first is zero.\<close>

definition recordDecision :: "time \<Rightarrow> time \<Rightarrow> string \<Rightarrow> quota_decision \<Rightarrow> policy_runtime \<Rightarrow> policy_runtime" where
  "recordDecision clock clock' policyName decision r =
    (let decision = normalizedQuotaDecision decision;
         state = trafficPolicyBucketState decision;
         now = (if is_zero clock then clock' else clock) in
     case map_of (rn_policies r) policyName of None \<Rightarrow> r
     | Some p \<Rightarrow>
       let p = \<lparr>ru_selectionTotal = ru_selectionTotal p, ru_decisions = addTrafficPolicyDecision decision (ru_decisions p),
             ru_lastResult = decision, ru_lastState = state, ru_lastDecisionAt = now\<rparr>;
           r = r\<lparr>rn_policies := put policyName p (rn_policies r), rn_decisions := addTrafficPolicyDecision decision (rn_decisions r),
             rn_lastResult := decision, rn_lastState := state, rn_lastDecisionAt := now\<rparr> in
       if decision = QuotaDecisionAdmissionUnavailable then r\<lparr>rn_lastUnavailableAt := now\<rparr> else r\<lparr>rn_lastSuccessAt := now\<rparr>)"

definition setLocalKeyState :: "int \<Rightarrow> int \<Rightarrow> policy_runtime \<Rightarrow> policy_runtime" where
  "setLocalKeyState keys limit r = (if rn_mode r \<noteq> TrafficPolicyModeLocal then r
     else r\<lparr>rn_localKeys := max 0 keys, rn_localKeyLimit := max 0 limit\<rparr>)"

record runtime_policy_snapshot =
  sp_Name :: string
  sp_policy :: runtime_policy

record policy_runtime_snapshot =
  sn_Mode :: string
  sn_NoMatchTotal :: "64 word"
  sn_Decisions :: decision_totals
  sn_LastResult :: quota_decision
  sn_LastState :: string
  sn_LastDecisionAt :: time
  sn_LastSuccessAt :: time
  sn_LastUnavailableAt :: time
  sn_LocalKeys :: int
  sn_LocalKeyLimit :: int
  sn_Policies :: "runtime_policy_snapshot list"

definition runtime_Snapshot :: "policy_runtime \<Rightarrow> policy_runtime_snapshot" where
  "runtime_Snapshot r = \<lparr>sn_Mode = rn_mode r, sn_NoMatchTotal = rn_noMatchTotal r, sn_Decisions = rn_decisions r,
     sn_LastResult = rn_lastResult r, sn_LastState = rn_lastState r, sn_LastDecisionAt = rn_lastDecisionAt r,
     sn_LastSuccessAt = rn_lastSuccessAt r, sn_LastUnavailableAt = rn_lastUnavailableAt r, sn_LocalKeys = rn_localKeys r,
     sn_LocalKeyLimit = rn_localKeyLimit r,
     sn_Policies = List.map_filter (\<lambda>name. map_option (\<lambda>p. \<lparr>sp_Name = name, sp_policy = p\<rparr>) (map_of (rn_policies r) name)) (rn_policyNames r)\<rparr>"

section \<open>The local store\<close>

record quota_request =
  qr_PolicyName :: string
  qr_KeyScope :: string
  qr_KeyValue :: string
  qr_TokenBucket :: token_bucket_config

datatype quota_err = Quota_ctx ctx_err | Quota_MaxKeys | Quota_IdleTTL | Quota_PolicyName | Quota_KeyScope | Quota_KeyValue
  | Quota_Capacity | Quota_RefillTokens | Quota_RefillInterval

definition validateQuotaRequest :: "quota_request \<Rightarrow> quota_err option" where
  "validateQuotaRequest r =
    (if qr_PolicyName r = '''' then Some Quota_PolicyName
     else if qr_KeyScope r = '''' then Some Quota_KeyScope
     else if qr_KeyValue r = '''' then Some Quota_KeyValue
     else if tb_Capacity (qr_TokenBucket r) \<le> 0 then Some Quota_Capacity
     else if tb_RefillTokens (qr_TokenBucket r) \<le> 0 then Some Quota_RefillTokens
     else if tb_RefillInterval (qr_TokenBucket r) \<le> 0 then Some Quota_RefillInterval
     else None)"

type_synonym local_quota_key = "string \<times> string \<times> string"

definition quota_key :: "quota_request \<Rightarrow> local_quota_key" where
  "quota_key r = (qr_PolicyName r, qr_KeyScope r, qr_KeyValue r)"

text \<open>The list element of a bucket is the place of its key in \<open>qs_lru\<close>, whose first element is the list's front.\<close>

record local_quota_bucket =
  lb_tokens :: float64
  lb_lastRefill :: time
  lb_lastSeen :: time

record local_quota_store =
  qs_maxKeys :: int
  qs_idleTTL :: duration
  qs_buckets :: "(local_quota_key, local_quota_bucket) gomap"
  qs_lru :: "local_quota_key list"

definition NewLocalQuotaStore :: "int \<Rightarrow> duration \<Rightarrow> policy_runtime option \<Rightarrow> local_quota_store \<times> policy_runtime option" where
  "NewLocalQuotaStore maxKeys idleTTL runtime =
    (\<lparr>qs_maxKeys = maxKeys, qs_idleTTL = idleTTL, qs_buckets = [], qs_lru = []\<rparr>, map_option (setLocalKeyState 0 maxKeys) runtime)"

definition refill :: "token_bucket_config \<Rightarrow> time \<Rightarrow> local_quota_bucket \<Rightarrow> local_quota_bucket" where
  "refill config now b =
    (let elapsed = time_sub now (lb_lastRefill b) in
     if elapsed \<le> 0 then b
     else let r = f_mul (f_div (of_int64 elapsed) (of_int64 (tb_RefillInterval config))) (of_int64 (tb_RefillTokens config))
       in b\<lparr>lb_tokens := f_min (of_int64 (tb_Capacity config)) (f_add (lb_tokens b) r), lb_lastRefill := now\<rparr>)"

text \<open>
  The loop of \<^verbatim>\<open>removeIdleBuckets\<close> over the list from its back; \<open>None\<close> is the panic on a key of the list without a
  bucket.
\<close>

fun remove_idle :: "time \<Rightarrow> duration \<Rightarrow> local_quota_key list \<Rightarrow> (local_quota_key, local_quota_bucket) gomap
    \<Rightarrow> (local_quota_key list \<times> (local_quota_key, local_quota_bucket) gomap) option" where
  "remove_idle now ttl [] bs = Some ([], bs)"
| "remove_idle now ttl (key # ks) bs = (case map_of bs key of
     None \<Rightarrow> None
   | Some b \<Rightarrow> if time_sub now (lb_lastSeen b) < ttl then Some (key # ks, bs) else remove_idle now ttl ks (del key bs))"

definition removeIdleBuckets :: "time \<Rightarrow> local_quota_store \<Rightarrow> local_quota_store option" where
  "removeIdleBuckets now s = (case remove_idle now (qs_idleTTL s) (rev (qs_lru s)) (qs_buckets s) of
     None \<Rightarrow> None | Some (ks, bs) \<Rightarrow> Some (s\<lparr>qs_lru := rev ks, qs_buckets := bs\<rparr>))"

text \<open>The bucket of the request, created or refilled; \<open>None\<close> when there is no room for another one.\<close>

definition admit_bucket :: "quota_request \<Rightarrow> time \<Rightarrow> local_quota_store \<Rightarrow> (local_quota_bucket \<times> local_quota_store) option" where
  "admit_bucket request now s =
    (let key = quota_key request in
     case map_of (qs_buckets s) key of
       None \<Rightarrow>
         if qs_maxKeys s \<le> int (length (qs_buckets s)) then None
         else let b = \<lparr>lb_tokens = of_int64 (tb_Capacity (qr_TokenBucket request)), lb_lastRefill = now, lb_lastSeen = now\<rparr>
           in Some (b, s\<lparr>qs_lru := key # qs_lru s, qs_buckets := put key b (qs_buckets s)\<rparr>)
     | Some b \<Rightarrow>
         let b = (refill (qr_TokenBucket request) now b)\<lparr>lb_lastSeen := now\<rparr>
         in Some (b, s\<lparr>qs_lru := key # remove1 key (qs_lru s), qs_buckets := put key b (qs_buckets s)\<rparr>))"

definition admit_locked :: "quota_request \<Rightarrow> time \<Rightarrow> local_quota_store \<Rightarrow> (quota_decision \<times> local_quota_store) option" where
  "admit_locked request now s = (case removeIdleBuckets now s of None \<Rightarrow> None | Some s \<Rightarrow>
    Some (case admit_bucket request now s of
       None \<Rightarrow> (QuotaDecisionOverloaded, s)
     | Some (b, s) \<Rightarrow>
       if f_lt (lb_tokens b) (Fin 1) then (QuotaDecisionRateLimited, s)
       else (QuotaDecisionAllowed, s\<lparr>qs_buckets := put (quota_key request) (b\<lparr>lb_tokens := f_sub (lb_tokens b) (Fin 1)\<rparr>) (qs_buckets s)\<rparr>)))"

definition Admit :: "ctx \<Rightarrow> time \<Rightarrow> quota_request \<Rightarrow> local_quota_store \<times> policy_runtime option
    \<Rightarrow> ((quota_decision \<times> quota_err option) \<times> local_quota_store \<times> policy_runtime option) option" where
  "Admit c now request sr = (case sr of (s, runtime) \<Rightarrow>
    let unavailable = (\<lambda>e. Some ((QuotaDecisionAdmissionUnavailable, Some e), s, runtime)) in
    case c of Some e \<Rightarrow> unavailable (Quota_ctx e)
    | None \<Rightarrow>
      if qs_maxKeys s \<le> 0 then unavailable Quota_MaxKeys
      else if qs_idleTTL s \<le> 0 then unavailable Quota_IdleTTL
      else case validateQuotaRequest request of Some e \<Rightarrow> unavailable e
      | None \<Rightarrow> (case admit_locked request now s of None \<Rightarrow> None
        | Some (d, s) \<Rightarrow> Some ((d, None), s, map_option (setLocalKeyState (int (length (qs_buckets s))) (qs_maxKeys s)) runtime)))"

section \<open>The store is well formed\<close>

text \<open>
  The list holds exactly the keys of the buckets, once each; there are at most \<open>maxKeys\<close> of them; and a bucket
  holds a finite number of tokens between zero and the capacity of its policy.
\<close>

definition bucket_ok :: "token_bucket_config \<Rightarrow> local_quota_bucket \<Rightarrow> bool" where
  "bucket_ok c b \<longleftrightarrow> (case lb_tokens b of Fin r \<Rightarrow> 0 \<le> r \<and> r \<le> round_rat (of_int (tb_Capacity c)) | _ \<Rightarrow> False)"

definition quota_ok :: "(string \<Rightarrow> token_bucket_config) \<Rightarrow> local_quota_store \<Rightarrow> bool" where
  "quota_ok conf s \<longleftrightarrow> wf_map (qs_buckets s) \<and> distinct (qs_lru s) \<and> set (qs_lru s) = fst ` set (qs_buckets s)
     \<and> int (length (qs_buckets s)) \<le> max 0 (qs_maxKeys s)
     \<and> (\<forall>key b. map_of (qs_buckets s) key = Some b \<longrightarrow> bucket_ok (conf (fst key)) b)"

text \<open>A bucket of the configuration: \<^verbatim>\<open>int\<close> and \<^verbatim>\<open>time.Duration\<close> values, all positive.\<close>

definition config_ok :: "token_bucket_config \<Rightarrow> bool" where
  "config_ok c \<longleftrightarrow> 0 < tb_Capacity c \<and> tb_Capacity c \<le> max_int64 \<and> 0 < tb_RefillTokens c \<and> tb_RefillTokens c \<le> max_int64
     \<and> 0 < tb_RefillInterval c \<and> tb_RefillInterval c \<le> max_int64"

text \<open>The requests of a policy carry its bucket: the handler takes both from one selection.\<close>

definition conforms :: "(string \<Rightarrow> token_bucket_config) \<Rightarrow> quota_request \<Rightarrow> bool" where
  "conforms conf r \<longleftrightarrow> qr_TokenBucket r = conf (qr_PolicyName r) \<and> config_ok (qr_TokenBucket r)"

definition f_nonneg :: "float64 \<Rightarrow> bool" where
  "f_nonneg x \<longleftrightarrow> (case x of Fin r \<Rightarrow> 0 \<le> r | PosInf \<Rightarrow> True | _ \<Rightarrow> False)"

lemma fl_nonneg: "0 \<le> x \<Longrightarrow> f_nonneg (fl x)"
  using b64.rnd_nonneg[of x] by (auto simp: fl_def f_nonneg_def Let_def)

lemma f_nonneg_ops:
  "f_nonneg x \<Longrightarrow> 0 < y \<Longrightarrow> f_nonneg (f_div x (Fin y))"
  "f_nonneg x \<Longrightarrow> 0 < y \<Longrightarrow> f_nonneg (f_mul x (Fin y))"
  "f_nonneg x \<Longrightarrow> 0 \<le> y \<Longrightarrow> f_nonneg (f_add (Fin y) x)"
  by (cases x; auto simp: f_nonneg_def[of PosInf] f_nonneg_def[of NaN] f_nonneg_def[of NegInf] f_nonneg_def[of "Fin _"] inf_signed_def intro!: fl_nonneg)+

lemma f_min_nonneg: "f_nonneg x \<Longrightarrow> 0 \<le> c \<Longrightarrow> \<exists>r. f_min (Fin c) x = Fin r \<and> 0 \<le> r \<and> r \<le> c"
  by (cases x) (auto simp: f_nonneg_def f_min_def)

lemma of_int64_pos:
  assumes "0 < i" "i \<le> max_int64"
  shows "of_int64 i = Fin (round_rat (of_int i))" "1 \<le> round_rat (of_int i)" "round_rat (of_int i) \<le> 2 ^ 63"
proof -
  show "of_int64 i = Fin (round_rat (of_int i))" using assms by (intro of_int64_Fin) auto
  show "1 \<le> round_rat (of_int i)" using b64.rnd_ge_int[of 1 "of_int i"] assms by simp
  have "round_rat (2 ^ 63) = 2 ^ 63" using round_pos_exact[of 1 63] by (simp add: round_rat_def power_int_def)
  then show "round_rat (of_int i) \<le> 2 ^ 63" using b64.rnd_mono[of "of_int i" "2 ^ 63"] assms by simp
qed

lemma time_sub_range: "time_sub t u \<le> max_int64"
  by (simp add: time_sub_def)

lemma refill_ok:
  assumes c: "config_ok c" and b: "bucket_ok c b"
  shows "bucket_ok c (refill c now b)"
proof (cases "time_sub now (lb_lastRefill b) \<le> 0")
  case True
  then show ?thesis using b by (simp add: refill_def)
next
  case False
  define e where "e = time_sub now (lb_lastRefill b)"
  have e: "0 < e" "e \<le> max_int64" using False time_sub_range by (auto simp: e_def)
  obtain r where r: "lb_tokens b = Fin r" "0 \<le> r" using b by (auto simp: bucket_ok_def split: float64.splits)
  note i = of_int64_pos[of "tb_RefillInterval c"] and t = of_int64_pos[of "tb_RefillTokens c"] and m = of_int64_pos[of "tb_Capacity c"]
  have "f_nonneg (of_int64 e)" using of_int64_pos[OF e] by (simp add: f_nonneg_def)
  then have "f_nonneg (f_add (Fin r) (f_mul (f_div (of_int64 e) (of_int64 (tb_RefillInterval c))) (of_int64 (tb_RefillTokens c))))"
    using c i t r(2) by (auto simp: config_ok_def intro!: f_nonneg_ops)
  from f_min_nonneg[OF this, of "round_rat (of_int (tb_Capacity c))"] show ?thesis
    using c m False r by (auto simp: refill_def bucket_ok_def config_ok_def e_def Let_def)
qed

lemma take_token_ok:
  assumes c: "config_ok c" and b: "bucket_ok c b" "\<not> f_lt (lb_tokens b) (Fin 1)"
  shows "bucket_ok c (b\<lparr>lb_tokens := f_sub (lb_tokens b) (Fin 1)\<rparr>)"
proof -
  let ?m = "round_rat (of_int (tb_Capacity c))"
  obtain r where r: "lb_tokens b = Fin r" "1 \<le> r" "r \<le> ?m" using b by (auto simp: bucket_ok_def split: float64.splits)
  have "?m \<le> 2 ^ 63" using of_int64_pos(3) c by (simp add: config_ok_def)
  moreover have "round_rat (r - 1) \<le> ?m" using b64.rnd_mono[of "r - 1" ?m] r b64.rnd_idem by simp
  moreover have "0 \<le> round_rat (r - 1)" using r by (simp add: b64.rnd_nonneg)
  ultimately show ?thesis using r by (simp add: bucket_ok_def f_sub_def f_neg_def fl_def Let_def)
qed

lemma new_bucket_ok: "config_ok c \<Longrightarrow> bucket_ok c \<lparr>lb_tokens = of_int64 (tb_Capacity c), lb_lastRefill = t, lb_lastSeen = t'\<rparr>"
  using of_int64_pos[of "tb_Capacity c"] by (simp add: bucket_ok_def config_ok_def)

lemma bucket_ok_seen [simp]: "bucket_ok c (b\<lparr>lb_lastSeen := t\<rparr>) = bucket_ok c b"
  by (simp add: bucket_ok_def)

subsection \<open>The operations keep it so\<close>

lemma keys_put: "fst ` set (put k v m) = insert k (fst ` set m)"
  by (induction m) auto

lemma keys_del: "fst ` set (del k m) = fst ` set m - {k}"
  by (induction m) auto

lemma remove_idle_ok:
  assumes "distinct ks" "set ks = fst ` set bs" "wf_map bs"
  shows "\<exists>ks' bs'. remove_idle now ttl ks bs = Some (ks', bs') \<and> distinct ks' \<and> set ks' = fst ` set bs' \<and> wf_map bs'
    \<and> length bs' \<le> length bs
    \<and> (\<forall>key b. map_of bs' key = Some b \<longleftrightarrow> map_of bs key = Some b \<and> key \<in> set ks')
    \<and> (\<forall>key b. map_of bs key = Some b \<longrightarrow> key \<notin> set ks' \<longrightarrow> ttl \<le> time_sub now (lb_lastSeen b))"
  using assms
  supply split_paired_All [simp del] split_paired_Ex [simp del]
proof (induction now ttl ks bs rule: remove_idle.induct)
  case (1 now ttl bs)
  then show ?case by auto
next
  case (2 now ttl key ks bs)
  obtain b where b: "map_of bs key = Some b" using 2(3) by (metis list.set_intros(1) map_of_eq_None_iff not_None_eq)
  show ?case
  proof (cases "time_sub now (lb_lastSeen b) < ttl")
    case True
    have m: "k \<in> fst ` set bs" if "map_of bs k = Some a" for k a
      using map_of_SomeD[OF that] by (metis fst_conv image_eqI)
    have "remove_idle now ttl (key # ks) bs = Some (key # ks, bs)" using True b by simp
    then show ?thesis using 2(2-4) m by blast
  next
    case False
    have "set ks = fst ` set (del key bs)" using 2(2,3) by (simp add: keys_del flip: 2(3))
    with 2(1)[OF b False] 2(2,4) obtain ks' bs' where *: "remove_idle now ttl ks (del key bs) = Some (ks', bs')" "distinct ks'"
      "set ks' = fst ` set bs'" "wf_map bs'" "length bs' \<le> length (del key bs)"
      "\<forall>k b. map_of bs' k = Some b \<longleftrightarrow> map_of (del key bs) k = Some b \<and> k \<in> set ks'"
      "\<forall>k b. map_of (del key bs) k = Some b \<longrightarrow> k \<notin> set ks' \<longrightarrow> ttl \<le> time_sub now (lb_lastSeen b)" by auto
    have "map_of bs' k = Some a \<longleftrightarrow> map_of bs k = Some a \<and> k \<in> set ks'" for k a
    proof (cases "k = key")
      case True
      have "key \<notin> set ks'" using *(3,6) by (metis map_of_del fun_upd_same map_of_eq_None_iff not_None_eq)
      then show ?thesis using *(6) True by auto
    next
      case False
      then show ?thesis using *(6) by simp
    qed
    moreover have "ttl \<le> time_sub now (lb_lastSeen a)" if "map_of bs k = Some a" "k \<notin> set ks'" for k a
    proof (cases "k = key")
      case True
      then show ?thesis using that b \<open>\<not> time_sub now (lb_lastSeen b) < ttl\<close> by simp
    next
      case False
      then have "map_of (del key bs) k = Some a" using that by simp
      then show ?thesis using *(7) that(2) by blast
    qed
    moreover have "length bs' \<le> length bs" using *(5) length_del_le[of key bs] by linarith
    moreover have "remove_idle now ttl (key # ks) bs = Some (ks', bs')" using *(1) b False by simp
    ultimately show ?thesis using *(2-4) by blast
  qed
qed

lemma removeIdleBuckets_ok:
  assumes "quota_ok conf s"
  obtains s' where "removeIdleBuckets now s = Some s'" "quota_ok conf s'" "qs_maxKeys s' = qs_maxKeys s" "qs_idleTTL s' = qs_idleTTL s"
    "\<And>key b. map_of (qs_buckets s') key = Some b \<Longrightarrow> map_of (qs_buckets s) key = Some b"
    "\<And>key b. map_of (qs_buckets s) key = Some b \<Longrightarrow> map_of (qs_buckets s') key = None \<Longrightarrow> qs_idleTTL s \<le> time_sub now (lb_lastSeen b)"
proof -
  obtain ks bs where *: "remove_idle now (qs_idleTTL s) (rev (qs_lru s)) (qs_buckets s) = Some (ks, bs)" "distinct ks" "set ks = fst ` set bs" "wf_map bs"
    "length bs \<le> length (qs_buckets s)" "\<forall>key b. map_of bs key = Some b \<longleftrightarrow> map_of (qs_buckets s) key = Some b \<and> key \<in> set ks"
    "\<forall>key b. map_of (qs_buckets s) key = Some b \<longrightarrow> key \<notin> set ks \<longrightarrow> qs_idleTTL s \<le> time_sub now (lb_lastSeen b)"
    using remove_idle_ok[of "rev (qs_lru s)" "qs_buckets s" now "qs_idleTTL s"] assms by (auto simp: quota_ok_def)
  have gone: "map_of bs key = None \<Longrightarrow> key \<notin> set ks" for key
    using *(3) by (simp add: map_of_eq_None_iff)
  show ?thesis
  proof
    show "removeIdleBuckets now s = Some (s\<lparr>qs_lru := rev ks, qs_buckets := bs\<rparr>)" using *(1) by (simp add: removeIdleBuckets_def)
    show "quota_ok conf (s\<lparr>qs_lru := rev ks, qs_buckets := bs\<rparr>)"
      using assms *(2-6) by (auto simp: quota_ok_def)
  qed (use * gone in auto)
qed

lemma quota_ok_put:
  assumes s: "quota_ok conf s" and b: "bucket_ok (conf (fst key)) b"
    and room: "map_of (qs_buckets s) key = None \<longrightarrow> int (length (qs_buckets s)) < qs_maxKeys s"
    and l: "distinct l" "set l = insert key (set (qs_lru s))"
  shows "quota_ok conf (s\<lparr>qs_lru := l, qs_buckets := put key b (qs_buckets s)\<rparr>)"
  unfolding quota_ok_def
proof (intro conjI allI impI)
  fix k b' assume "map_of (qs_buckets (s\<lparr>qs_lru := l, qs_buckets := put key b (qs_buckets s)\<rparr>)) k = Some b'"
  then show "bucket_ok (conf (fst k)) b'" using s b by (cases "k = key") (auto simp: quota_ok_def simp del: split_paired_All)
qed (use s l room in \<open>auto simp: quota_ok_def keys_put length_put\<close>)

lemma admit_bucket_ok:
  assumes s: "quota_ok conf s" and r: "conforms conf request" and a: "admit_bucket request now s = Some (b, s')"
  shows "quota_ok conf s'" "map_of (qs_buckets s') (quota_key request) = Some b"
    "qs_maxKeys s' = qs_maxKeys s" "qs_idleTTL s' = qs_idleTTL s"
    "key \<noteq> quota_key request \<Longrightarrow> map_of (qs_buckets s') key = map_of (qs_buckets s) key"
proof -
  define k where "k = quota_key request"
  have c: "qr_TokenBucket request = conf (fst k)" "config_ok (conf (fst k))"
    using r by (auto simp: conforms_def quota_key_def k_def)
  have mem: "k \<in> set (qs_lru s) \<longleftrightarrow> map_of (qs_buckets s) k \<noteq> None"
    using s by (simp add: quota_ok_def map_of_eq_None_iff)
  have old: "bucket_ok (conf (fst k)) b0" if "map_of (qs_buckets s) k = Some b0" for b0
    using s that by (simp add: quota_ok_def del: split_paired_All)
  have dis: "distinct (qs_lru s)" using s by (simp add: quota_ok_def)
  show "quota_ok conf s'"
    using a mem dis old refill_ok[OF c(2)] new_bucket_ok[OF c(2)] unfolding admit_bucket_def Let_def k_def[symmetric] c(1)
    by (auto split: option.splits if_splits intro!: quota_ok_put[OF s] simp: insert_absorb)
qed (use a in \<open>auto simp: admit_bucket_def Let_def split: option.splits if_splits\<close>)

lemma admit_locked_ok:
  assumes s: "quota_ok conf s" and r: "conforms conf request"
  obtains d s' where "admit_locked request now s = Some (d, s')" "quota_ok conf s'"
    "qs_maxKeys s' = qs_maxKeys s" "qs_idleTTL s' = qs_idleTTL s"
proof -
  obtain s1 where s1: "removeIdleBuckets now s = Some s1" "quota_ok conf s1" "qs_maxKeys s1 = qs_maxKeys s" "qs_idleTTL s1 = qs_idleTTL s"
    using s by (rule removeIdleBuckets_ok)
  show ?thesis
  proof (cases "admit_bucket request now s1")
    case None
    then show ?thesis using s1 that by (simp add: admit_locked_def)
  next
    case (Some p)
    then obtain b s2 where p: "admit_bucket request now s1 = Some (b, s2)" by (cases p) simp
    note a = admit_bucket_ok[OF s1(2) r p]
    have c: "config_ok (conf (fst (quota_key request)))" using r by (auto simp: conforms_def quota_key_def)
    have b: "bucket_ok (conf (fst (quota_key request))) b"
      using a(1,2) by (simp add: quota_ok_def del: split_paired_All)
    have k: "quota_key request \<in> set (qs_lru s2)" "distinct (qs_lru s2)"
      using a(1,2) by (auto simp: quota_ok_def dest: map_of_SomeD intro: rev_image_eqI simp del: split_paired_All)
    show ?thesis
    proof (cases "f_lt (lb_tokens b) (Fin 1)")
      case True
      then show ?thesis using s1 p a that by (simp add: admit_locked_def)
    next
      case False
      have "quota_ok conf (s2\<lparr>qs_lru := qs_lru s2,
          qs_buckets := put (quota_key request) (b\<lparr>lb_tokens := f_sub (lb_tokens b) (Fin 1)\<rparr>) (qs_buckets s2)\<rparr>)"
        using a(2) k by (intro quota_ok_put[OF a(1)] take_token_ok[OF c b False]) auto
      then show ?thesis using s1 p a(3,4) False that by (simp add: admit_locked_def)
    qed
  qed
qed

text \<open>
  C24.  \<^verbatim>\<open>LocalQuotaStore.Admit\<close> (\<^verbatim>\<open>src/internal/pipeline/quota_store_local.go\<close>) keeps the store well formed and never
  panics: from a well-formed store, whatever the clock reads and whatever bucket of the configuration a request
  names, the call returns, and afterwards the list and the map hold the same keys, no more than \<open>maxKeys\<close> of them,
  and every bucket a finite number of tokens, never a NaN or an infinity, between zero and its capacity.
\<close>

theorem Admit_well_formed:
  assumes "quota_ok conf s" and "conforms conf request"
  shows "\<exists>d e s' runtime'. Admit c now request (s, runtime) = Some ((d, e), s', runtime') \<and> quota_ok conf s'
    \<and> (e = None \<longrightarrow> d \<in> {QuotaDecisionAllowed, QuotaDecisionRateLimited, QuotaDecisionOverloaded})
    \<and> (e \<noteq> None \<longrightarrow> d = QuotaDecisionAdmissionUnavailable \<and> s' = s)"
proof -
  obtain d s' where a: "admit_locked request now s = Some (d, s')" "quota_ok conf s'"
    using assms by (rule admit_locked_ok)
  have "d \<in> {QuotaDecisionAllowed, QuotaDecisionRateLimited, QuotaDecisionOverloaded}"
    using a(1) by (auto simp: admit_locked_def split: option.splits if_splits prod.splits)
  then show ?thesis using a assms(1) by (auto simp: Admit_def Let_def split: option.split)
qed

definition sample_bucket :: token_bucket_config where
  "sample_bucket = \<lparr>tb_Capacity = 2, tb_RefillTokens = 1, tb_RefillInterval = second\<rparr>"

definition sample_quota_request :: quota_request where
  "sample_quota_request = \<lparr>qr_PolicyName = ''p'', qr_KeyScope = ''client_id'', qr_KeyValue = ''alice'', qr_TokenBucket = sample_bucket\<rparr>"

definition sample_quota :: local_quota_store where
  "sample_quota = fst (NewLocalQuotaStore 10 minute None)"

lemma sample_quota_ok: "quota_ok (\<lambda>_. sample_bucket) sample_quota" "conforms (\<lambda>_. sample_bucket) sample_quota_request"
  by (simp_all add: quota_ok_def sample_quota_def NewLocalQuotaStore_def conforms_def config_ok_def sample_quota_request_def sample_bucket_def)

theorem Admit_well_formed_witness:
  "quota_ok (\<lambda>_. sample_bucket) sample_quota \<and> conforms (\<lambda>_. sample_bucket) sample_quota_request
   \<and> (\<exists>d e s' runtime'. Admit None 5 sample_quota_request (sample_quota, None) = Some ((d, e), s', runtime')
        \<and> quota_ok (\<lambda>_. sample_bucket) s')"
  using Admit_well_formed[OF sample_quota_ok, of None 5 None] sample_quota_ok by blast

end
