(* ===== verification/Quota_Rate.thy ===== *)
theory Quota_Rate
  imports Quota
begin

text \<open>
  The rate a token bucket lets through, with the rounding of every floating-point operation counted: lemmas on the
  error of a rounding, the error of one refill, and the bound over a run of the local quota store.
\<close>

section \<open>The error of a rounding\<close>

lemma round_even_error: "\<bar>of_int (round_even x) - x\<bar> \<le> 1 / 2"
  using floor_correct[of x] by (auto simp: round_even_def Let_def abs_le_iff)

lemma round_pos_error: "0 < x \<Longrightarrow> \<bar>round_pos x - x\<bar> \<le> 2 powi ulp_exp x / 2"
proof -
  assume "0 < x"
  define p where "p = (2 powi ulp_exp x :: rat)"
  have p: "0 < p" by (simp add: p_def)
  have "round_pos x - x = (of_int (round_even (x / p)) - x / p) * p"
    using p by (simp add: round_pos_def Let_def p_def[symmetric] algebra_simps)
  then have "\<bar>round_pos x - x\<bar> = \<bar>of_int (round_even (x / p)) - x / p\<bar> * p" using p by (simp add: abs_mult)
  also have "\<dots> \<le> 1 / 2 * p" using round_even_error[of "x / p"] p by (intro mult_right_mono) auto
  finally show ?thesis by (simp add: p_def)
qed

text \<open>A result of at least \<open>2\<^sup>-\<^sup>2\<^sup>0\<^sup>0\<close>, far above the subnormal values, has a relative error of at most \<open>2\<^sup>-\<^sup>5\<^sup>3\<close>.\<close>

lemma round_relative:
  assumes "1 / 2 ^ 200 \<le> x"
  shows "\<bar>round_rat x - x\<bar> \<le> x / 2 ^ 53"
proof -
  have x: "0 < x" using assms by (rule less_le_trans[rotated]) simp
  have "2 powi (- 200) \<le> x" using assms by (simp add: power_int_minus_divide)
  then have "2 powi (- 200) < (2 powi (floor_log2 x + 1) :: rat)" using floor_log2_bounds(2)[OF x] by simp
  then have "- 201 < floor_log2 x" using powi_less_D[of "-200" "floor_log2 x + 1"] by linarith
  then have u: "ulp_exp x = floor_log2 x - 52" by (simp add: ulp_exp_def)
  have "(2 powi ulp_exp x :: rat) = 2 powi floor_log2 x / 2 ^ 52" by (simp add: u power_int_diff)
  then have "2 powi ulp_exp x / 2 \<le> x / 2 ^ 53" using floor_log2_bounds(1)[OF x] by simp
  then show ?thesis using round_pos_error[OF x] x by (simp add: round_rat_def)
qed

text \<open>Below an integer \<open>c\<close> the error is at most \<open>c\<close> in the last place.\<close>

lemma round_below:
  assumes "0 \<le> x" "x \<le> c" "1 \<le> c"
  shows "round_rat x \<le> x + c / 2 ^ 53"
proof (cases "x = 0")
  case False
  then have x: "0 < x" using assms by simp
  have "(2 powi ulp_exp x :: rat) \<le> c / 2 ^ 52"
  proof (cases "ulp_exp x = floor_log2 x - 52")
    case True
    then have "(2 powi ulp_exp x :: rat) = 2 powi floor_log2 x / 2 ^ 52" by (simp add: power_int_diff)
    then show ?thesis using floor_log2_bounds(1)[OF x] assms by (simp add: divide_right_mono)
  next
    case False
    then have "ulp_exp x = - 1074" by (auto simp: ulp_exp_def)
    moreover have "(2 powi (- 1074) :: rat) \<le> 2 powi (- 52)" by (rule power_int_increasing) auto
    ultimately show ?thesis using assms by (simp add: power_int_minus_divide)
  qed
  moreover have "round_pos x - x \<le> 2 powi ulp_exp x / 2" using round_pos_error[OF x] by (simp only: abs_le_iff)
  ultimately have "round_pos x \<le> x + c / 2 ^ 53" by simp
  then show ?thesis using x by (simp add: round_rat_def)
qed (use assms in \<open>simp add: b64.rnd_0\<close>)

lemma fl_Fin: "0 \<le> x \<Longrightarrow> x \<le> 2 ^ 200 \<Longrightarrow> fl x = Fin (round_rat x)"
proof -
  assume x: "0 \<le> x" "x \<le> 2 ^ 200"
  have "round_rat (2 ^ 200) = 2 ^ 200" using round_pos_exact[of 1 200] by (simp add: round_rat_def power_int_def)
  then have "round_rat x \<le> 2 ^ 200" "0 \<le> round_rat x" using b64.rnd_mono[of x "2 ^ 200"] b64.rnd_nonneg[of x] x by auto
  then show ?thesis by (auto simp: fl_def Let_def)
qed

section \<open>The error of a refill\<close>

definition unit_error :: rat where "unit_error = 1 / 2 ^ 53"

text \<open>The rate of a bucket in tokens for each nanosecond, with the relative error of the five roundings of a refill.\<close>

definition refill_rate :: "token_bucket_config \<Rightarrow> rat" where
  "refill_rate c = of_int (tb_RefillTokens c) / of_int (tb_RefillInterval c) * (1 + 1 / 2 ^ 49)"

lemma round_upper: "1 / 2 ^ 200 \<le> x \<Longrightarrow> round_rat x \<le> x * (1 + unit_error)"
proof -
  assume "1 / 2 ^ 200 \<le> x"
  from round_relative[OF this] have "round_rat x - x \<le> x / 2 ^ 53" by (simp only: abs_le_iff)
  then show ?thesis by (simp add: unit_error_def algebra_simps)
qed

lemma round_lower: "1 / 2 ^ 200 \<le> x \<Longrightarrow> x * (1 - unit_error) \<le> round_rat x"
proof -
  assume "1 / 2 ^ 200 \<le> x"
  from round_relative[OF this] have "- (round_rat x - x) \<le> x / 2 ^ 53" by (simp only: abs_le_iff)
  then show ?thesis by (simp add: unit_error_def algebra_simps)
qed

lemma round_int_bounds:
  assumes "0 < i" "i \<le> max_int64"
  shows "round_rat (of_int i) \<le> of_int i * (1 + unit_error)" "of_int i * (1 - unit_error) \<le> round_rat (of_int i)"
proof -
  have "(1 :: rat) \<le> of_int i" using assms by simp
  then have "1 / 2 ^ 200 \<le> (of_int i :: rat)" by (rule order_trans[rotated]) simp
  then show "round_rat (of_int i) \<le> of_int i * (1 + unit_error)" "of_int i * (1 - unit_error) \<le> round_rat (of_int i)"
    by (rule round_upper, rule round_lower)
qed

lemma refill_amount:
  assumes c: "config_ok c" and e: "0 < e" "e \<le> max_int64"
  obtains m where "f_mul (f_div (of_int64 e) (of_int64 (tb_RefillInterval c))) (of_int64 (tb_RefillTokens c)) = Fin m"
    "1 / 2 ^ 200 \<le> m" "m \<le> 2 ^ 199" "m * (1 + unit_error) \<le> refill_rate c * of_int e"
proof -
  define i t where "i = tb_RefillInterval c" and "t = tb_RefillTokens c"
  have it: "0 < i" "i \<le> max_int64" "0 < t" "t \<le> max_int64" using c by (auto simp: config_ok_def i_def t_def)
  define E I T where "E = round_rat (of_int e)" and "I = round_rat (of_int i)" and "T = round_rat (of_int t)"
  note E = of_int64_pos[OF e, folded E_def] and I = of_int64_pos[OF it(1,2), folded I_def] and T = of_int64_pos[OF it(3,4), folded T_def]
  let ?u = "1 + unit_error"
  have u: "1 < ?u" "?u < 2" by (simp_all add: unit_error_def)
  have q1: "1 / 2 ^ 63 \<le> E / I" "E / I \<le> 2 ^ 63"
    using frac_le[of E 1 I "2 ^ 63"] frac_le[of "2 ^ 63" E 1 I] E I by simp_all
  define Q where "Q = round_rat (E / I)"
  have Q: "f_div (Fin E) (Fin I) = Fin Q" using q1 I by (simp add: Q_def fl_Fin)
  have "1 / 2 ^ 200 \<le> E / I" using q1(1) by (rule order_trans[rotated]) simp
  note Qr = round_upper[OF this, folded Q_def] round_lower[OF this, folded Q_def]
  have Q2: "1 / 2 ^ 64 \<le> Q" "Q \<le> 2 ^ 64"
  proof -
    have "1 / 2 ^ 63 * (1 - unit_error) \<le> E / I * (1 - unit_error)" using q1(1) by (intro mult_right_mono) (auto simp: unit_error_def)
    with Qr(2) have "1 / 2 ^ 63 * (1 - unit_error) \<le> Q" by (rule order_trans[rotated])
    then show "1 / 2 ^ 64 \<le> Q" by (rule order_trans[rotated]) (simp add: unit_error_def)
    have "E / I * ?u \<le> 2 ^ 63 * 2" using q1 u by (intro mult_mono) auto
    with Qr(1) show "Q \<le> 2 ^ 64" by simp
  qed
  have p: "1 / 2 ^ 64 \<le> Q * T" "Q * T \<le> 2 ^ 127"
    using mult_mono[OF Q2(1) T(2)] mult_mono[OF Q2(2) T(3)] Q2 T by simp_all
  define m where "m = round_rat (Q * T)"
  have "1 / 2 ^ 200 \<le> Q * T" using p(1) by (rule order_trans[rotated]) simp
  note mr = round_upper[OF this, folded m_def] round_lower[OF this, folded m_def]
  have "f_mul (Fin Q) (Fin T) = Fin m" using p by (simp add: m_def fl_Fin)
  then have 1: "f_mul (f_div (of_int64 e) (of_int64 i)) (of_int64 t) = Fin m"
    by (simp only: E(1) I(1) T(1) Q)
  have "1 / 2 ^ 64 * (1 - unit_error) \<le> Q * T * (1 - unit_error)" using p(1) by (intro mult_right_mono) (auto simp: unit_error_def)
  with mr(2) have "1 / 2 ^ 64 * (1 - unit_error) \<le> m" by (rule order_trans[rotated])
  then have 2: "1 / 2 ^ 200 \<le> m" by (rule order_trans[rotated]) (simp add: unit_error_def)
  have "Q * T * ?u \<le> 2 ^ 127 * 2" using p Q2 T u by (intro mult_mono) auto
  with mr(1) have "m \<le> 2 ^ 127 * 2" by (rule order_trans)
  then have 3: "m \<le> 2 ^ 199" by (rule order_trans) simp
  have Ei: "E \<le> of_int e * ?u" "of_int i * (1 - unit_error) \<le> I" "T \<le> of_int t * ?u"
    using round_int_bounds[OF e] round_int_bounds[OF it(1,2)] round_int_bounds[OF it(3,4)] by (simp_all add: E_def I_def T_def)
  have "E / I \<le> of_int e * ?u / (of_int i * (1 - unit_error))"
    using Ei E it u by (intro frac_le) (auto simp: unit_error_def)
  then have "Q \<le> of_int e * ?u / (of_int i * (1 - unit_error)) * ?u"
    using Qr(1) u by (meson less_eq_rat_def mult_right_mono order_trans zero_less_one less_trans)
  then have "Q * T \<le> of_int e * ?u / (of_int i * (1 - unit_error)) * ?u * (of_int t * ?u)"
    using Ei(3) Q2 T u it e by (intro mult_mono) (auto simp: unit_error_def)
  then have "m \<le> of_int e * ?u / (of_int i * (1 - unit_error)) * ?u * (of_int t * ?u) * ?u"
    using mr(1) u by (meson less_eq_rat_def mult_right_mono order_trans zero_less_one less_trans)
  then have "m * ?u \<le> of_int e * ?u / (of_int i * (1 - unit_error)) * ?u * (of_int t * ?u) * ?u * ?u"
    using u by (intro mult_right_mono) auto
  also have "\<dots> = of_int t / of_int i * of_int e * (?u ^ 5 / (1 - unit_error))"
    by (simp add: eval_nat_numeral field_simps)
  also have "\<dots> \<le> of_int t / of_int i * of_int e * (1 + 1 / 2 ^ 49)"
    using it e by (intro mult_left_mono) (auto simp: unit_error_def power_divide)
  finally have 4: "m * ?u \<le> refill_rate c * of_int e" by (simp add: refill_rate_def i_def t_def algebra_simps)
  show ?thesis using that[of m] 1 2 3 4 by (simp add: i_def t_def)
qed


text \<open>The tokens a bucket holds.\<close>

definition tokens :: "local_quota_bucket \<Rightarrow> rat" where
  "tokens b = (case lb_tokens b of Fin r \<Rightarrow> r | _ \<Rightarrow> 0)"

abbreviation capacity :: "token_bucket_config \<Rightarrow> rat" where "capacity c \<equiv> of_int (tb_Capacity c)"

lemma bucket_ok_tokens:
  "config_ok c \<Longrightarrow> tb_Capacity c \<le> 2 ^ 53 \<Longrightarrow> bucket_ok c b \<longleftrightarrow> lb_tokens b = Fin (tokens b) \<and> 0 \<le> tokens b \<and> tokens b \<le> capacity c"
  using b64.rnd_int[of "tb_Capacity c"] by (auto simp: bucket_ok_def tokens_def config_ok_def split: float64.splits)

lemma refill_tokens:
  assumes c: "config_ok c" "tb_Capacity c \<le> 2 ^ 53" and b: "bucket_ok c b" and t: "lb_lastRefill b \<le> now"
  shows "tokens (refill c now b) \<le> tokens b + refill_rate c * of_int (now - lb_lastRefill b) + capacity c * unit_error"
    and "lb_lastRefill (refill c now b) = now"
proof -
  have cap: "0 < tb_Capacity c" using c(1) by (simp add: config_ok_def)
  have rate: "0 \<le> refill_rate c" using c(1) by (simp add: config_ok_def refill_rate_def)
  define e where "e = time_sub now (lb_lastRefill b)"
  have le: "e \<le> now - lb_lastRefill b" using t by (simp add: e_def time_sub_def)
  show "lb_lastRefill (refill c now b) = now"
    using t time_sub_le_0_iff[of now "lb_lastRefill b"] by (auto simp: refill_def Let_def)
  show "tokens (refill c now b) \<le> tokens b + refill_rate c * of_int (now - lb_lastRefill b) + capacity c * unit_error"
  proof (cases "e \<le> 0")
    case True
    then show ?thesis using cap rate t by (simp add: refill_def e_def unit_error_def)
  next
    case False
    then obtain m where m: "f_mul (f_div (of_int64 e) (of_int64 (tb_RefillInterval c))) (of_int64 (tb_RefillTokens c)) = Fin m"
      "1 / 2 ^ 200 \<le> m" "m \<le> 2 ^ 199" "m * (1 + unit_error) \<le> refill_rate c * of_int e"
      using refill_amount[OF c(1), of e] time_sub_range by (auto simp: e_def)
    have b: "lb_tokens b = Fin (tokens b)" "0 \<le> tokens b" "tokens b \<le> capacity c"
      using b c by (simp_all add: bucket_ok_tokens)
    have c53: "capacity c \<le> 2 ^ 53" using c(2) by (metis of_int_le_iff of_int_numeral of_int_power)
    have "0 \<le> m" using m(2) by (rule order_trans[rotated]) simp
    moreover have "tokens b + m \<le> 2 ^ 53 + 2 ^ 199" using b(3) c53 m(3) by linarith
    then have "tokens b + m \<le> 2 ^ 200" by (rule order_trans) simp
    ultimately have "f_add (Fin (tokens b)) (Fin m) = Fin (round_rat (tokens b + m))" using b by (simp add: fl_Fin)
    then have "lb_tokens (refill c now b) = f_min (Fin (capacity c)) (Fin (round_rat (tokens b + m)))"
      using False m(1) b(1) c(2) cap of_int64_small[of "tb_Capacity c"] by (simp add: refill_def e_def Let_def)
    then have "tokens (refill c now b) \<le> round_rat (tokens b + m)"
      by (auto simp: tokens_def f_min_def)
    also have "\<dots> \<le> (tokens b + m) * (1 + unit_error)" using b(2) m(2) by (intro round_upper) linarith
    also have "\<dots> \<le> tokens b + capacity c * unit_error + m * (1 + unit_error)"
      using mult_right_mono[OF b(3), of unit_error] by (simp add: unit_error_def algebra_simps)
    also have "m * (1 + unit_error) \<le> refill_rate c * of_int (now - lb_lastRefill b)"
      using m(4) mult_left_mono[of "of_int e" "of_int (now - lb_lastRefill b)" "refill_rate c"] le rate
      by (metis of_int_le_iff order_trans)
    finally show ?thesis by linarith
  qed
qed

lemma take_token_tokens:
  assumes c: "config_ok c" "tb_Capacity c \<le> 2 ^ 53" and b: "bucket_ok c b" "\<not> f_lt (lb_tokens b) (Fin 1)"
  shows "tokens (b\<lparr>lb_tokens := f_sub (lb_tokens b) (Fin 1)\<rparr>) \<le> tokens b - 1 + capacity c * unit_error"
proof -
  have t: "lb_tokens b = Fin (tokens b)" "tokens b \<le> capacity c" using b(1) c by (simp_all add: bucket_ok_tokens)
  moreover from this have "1 \<le> tokens b" using b(2) by simp
  ultimately have t: "lb_tokens b = Fin (tokens b)" "1 \<le> tokens b" "tokens b \<le> capacity c" by blast+
  have "capacity c \<le> 2 ^ 53" using c(2) by (metis of_int_le_iff of_int_numeral of_int_power)
  then have "tokens b - 1 \<le> 2 ^ 200" using t by simp
  then have "f_sub (Fin (tokens b)) (Fin 1) = Fin (round_rat (tokens b - 1))" using t by (simp add: f_sub_def f_neg_def fl_Fin)
  moreover have "round_rat (tokens b - 1) \<le> tokens b - 1 + capacity c / 2 ^ 53" using t by (intro round_below) auto
  moreover have "tokens (b\<lparr>lb_tokens := Fin r\<rparr>) = r" for r by (simp add: tokens_def)
  ultimately show ?thesis using t(1) by (simp add: unit_error_def)
qed

section \<open>Runs of the store\<close>

type_synonym admit_call = "ctx \<times> time \<times> quota_request"

fun admit_run :: "admit_call list \<Rightarrow> local_quota_store \<times> policy_runtime option
    \<Rightarrow> ((quota_request \<times> quota_decision) list \<times> local_quota_store \<times> policy_runtime option) option" where
  "admit_run [] sr = Some ([], sr)"
| "admit_run ((c, now, r) # calls) sr = (case Admit c now r sr of None \<Rightarrow> None
   | Some ((d, e), sr') \<Rightarrow> (case admit_run calls sr' of None \<Rightarrow> None | Some (ds, sr'') \<Rightarrow> Some ((r, d) # ds, sr'')))"

definition asked_for :: "local_quota_key \<Rightarrow> (quota_request \<times> quota_decision) list \<Rightarrow> nat" where
  "asked_for key ds = length (filter (\<lambda>(r, d). quota_key r = key) ds)"

definition allowed_for :: "local_quota_key \<Rightarrow> (quota_request \<times> quota_decision) list \<Rightarrow> nat" where
  "allowed_for key ds = length (filter (\<lambda>(r, d). quota_key r = key \<and> d = QuotaDecisionAllowed) ds)"

text \<open>With a clock that does not go back, a bucket was last refilled when it was last seen.\<close>

definition clock_ok :: "time \<Rightarrow> local_quota_store \<Rightarrow> bool" where
  "clock_ok t s \<longleftrightarrow> (\<forall>key b. map_of (qs_buckets s) key = Some b \<longrightarrow> lb_lastRefill b = lb_lastSeen b \<and> lb_lastSeen b \<le> t)"

text \<open>
  The account of one key since \<open>t0\<close>: what was admitted (\<open>A\<close>) and what the bucket still holds never exceed the capacity, the
  refill since \<open>t0\<close> and the rounding errors (\<open>E\<close>).  A key without a bucket has waited long enough to have a full one.
\<close>

definition account :: "token_bucket_config \<Rightarrow> local_quota_key \<Rightarrow> time \<Rightarrow> time \<Rightarrow> rat \<Rightarrow> rat \<Rightarrow> local_quota_store \<Rightarrow> bool" where
  "account c key t0 t A E s \<longleftrightarrow> 0 \<le> E \<and> (case map_of (qs_buckets s) key of
     None \<Rightarrow> A \<le> refill_rate c * of_int (t - t0) + E
   | Some b \<Rightarrow> A + tokens b \<le> capacity c + refill_rate c * of_int (lb_lastRefill b - t0) + E \<or> A = 0 \<and> lb_lastRefill b < t0)"

lemma clock_ok_later: "clock_ok t s \<Longrightarrow> t \<le> u \<Longrightarrow> clock_ok u s"
  unfolding clock_ok_def by (meson order_trans)

lemma account_error: "account c key t0 t A E s \<Longrightarrow> E \<le> E' \<Longrightarrow> account c key t0 t A E' s"
  by (auto simp: account_def split: option.splits)

lemma account_other:
  "account c key t0 t A E s \<Longrightarrow> map_of (qs_buckets s') key = map_of (qs_buckets s) key \<Longrightarrow> account c key t0 t A E s'"
  by (simp add: account_def)

text \<open>The settings of the key in question: an idle bucket is kept as long as it takes to fill it.\<close>

definition patient :: "token_bucket_config \<Rightarrow> duration \<Rightarrow> bool" where
  "patient c idleTTL \<longleftrightarrow> config_ok c \<and> tb_Capacity c \<le> 2 ^ 53 \<and> 0 < idleTTL \<and> tb_Capacity c * tb_RefillInterval c \<le> idleTTL * tb_RefillTokens c"

lemma patient_refill:
  assumes "patient c idleTTL" "idleTTL \<le> d"
  shows "capacity c \<le> refill_rate c * of_int d"
proof -
  let ?r = "of_int (tb_RefillTokens c) / of_int (tb_RefillInterval c) :: rat"
  have pos: "0 < tb_RefillInterval c" "0 < tb_RefillTokens c" "0 < idleTTL" using assms by (auto simp: patient_def config_ok_def)
  have "(of_int (tb_Capacity c * tb_RefillInterval c) :: rat) \<le> of_int (idleTTL * tb_RefillTokens c)"
    using assms(1) by (simp only: patient_def of_int_le_iff)
  then have "capacity c \<le> ?r * of_int idleTTL" using pos by (simp add: field_simps)
  also have "\<dots> \<le> ?r * of_int d" using assms(2) pos by (intro mult_left_mono) auto
  also have "\<dots> \<le> ?r * of_int d * (1 + 1 / 2 ^ 49)"
    using mult_left_mono[of 1 "1 + 1 / 2 ^ 49" "?r * of_int d"] assms(2) pos by simp
  finally show ?thesis by (simp add: refill_rate_def mult.assoc mult.commute[of "of_int d"])
qed

lemma refill_rate_nonneg: "config_ok c \<Longrightarrow> 0 \<le> refill_rate c"
  by (simp add: refill_rate_def config_ok_def)

lemma account_remove:
  assumes s: "quota_ok conf s" and k: "patient (conf (fst key)) (qs_idleTTL s)"
    and t: "clock_ok t s" "t \<le> now" "t0 \<le> t" and a: "account (conf (fst key)) key t0 t A E s"
    and r: "removeIdleBuckets now s = Some s1"
  shows "account (conf (fst key)) key t0 now A E s1" "clock_ok now s1"
proof -
  let ?c = "conf (fst key)"
  have c: "config_ok ?c" "tb_Capacity ?c \<le> 2 ^ 53" "0 < qs_idleTTL s" using k by (auto simp: patient_def)
  note rate = refill_rate_nonneg[OF c(1)]
  have sub: "\<And>k b. map_of (qs_buckets s1) k = Some b \<Longrightarrow> map_of (qs_buckets s) k = Some b"
    and idle: "\<And>k b. map_of (qs_buckets s) k = Some b \<Longrightarrow> map_of (qs_buckets s1) k = None \<Longrightarrow> qs_idleTTL s \<le> time_sub now (lb_lastSeen b)"
    using removeIdleBuckets_ok[OF s, of now] r by (metis option.inject)+
  show "clock_ok now s1" using clock_ok_later[OF t(1,2)] sub unfolding clock_ok_def by blast
  show "account ?c key t0 now A E s1"
  proof (cases "map_of (qs_buckets s1) key")
    case (Some b)
    then show ?thesis using a sub by (simp add: account_def)
  next
    case None
    have later: "refill_rate ?c * of_int (u - t0) \<le> refill_rate ?c * of_int (now - t0)" if "u \<le> now" for u
      using that rate by (intro mult_left_mono) auto
    show ?thesis
    proof (cases "map_of (qs_buckets s) key")
      case 0: None
      then show ?thesis using a None later[of t] t(2) by (simp add: account_def)
    next
      case (Some b)
      have b: "lb_lastRefill b = lb_lastSeen b" "bucket_ok ?c b"
        using Some t(1) s by (simp_all add: clock_ok_def quota_ok_def del: split_paired_All)
      then have tok: "0 \<le> tokens b" using c by (simp add: bucket_ok_tokens)
      have d: "qs_idleTTL s \<le> now - lb_lastRefill b"
        using idle[OF Some None] c(3) by (auto simp: b time_sub_def min_def max_def split: if_splits)
      have "refill_rate ?c * of_int (now - t0) = refill_rate ?c * of_int (now - lb_lastRefill b) + refill_rate ?c * of_int (lb_lastRefill b - t0)"
        by (simp add: algebra_simps)
      moreover note patient_refill[OF k d]
      moreover have "0 \<le> refill_rate ?c * of_int (now - t0)" using rate t by simp
      ultimately show ?thesis using a None Some tok by (auto simp: account_def)
    qed
  qed
qed

lemma admit_bucket_clock:
  assumes t: "clock_ok now s" and a: "admit_bucket request now s = Some (b, s')"
  shows "clock_ok now s'" "lb_lastRefill b = now" "lb_lastSeen b = now"
proof -
  have "lb_lastRefill (refill c now b0) = now" if "map_of (qs_buckets s) (quota_key request) = Some b0" for b0 c
    using that t time_sub_le_0_iff[of now "lb_lastRefill b0"] by (fastforce simp: clock_ok_def refill_def Let_def simp del: split_paired_All)
  then show "lb_lastRefill b = now" "lb_lastSeen b = now" "clock_ok now s'"
    using t a by (auto simp: admit_bucket_def Let_def clock_ok_def simp del: split_paired_All split: option.splits if_splits)
qed

lemma account_admit_bucket:
  assumes s: "quota_ok conf s" and r: "conforms conf request" and k: "tb_Capacity (conf (fst key)) \<le> 2 ^ 53" "quota_key request = key"
    and t: "clock_ok now s" "t0 \<le> now" and a: "account (conf (fst key)) key t0 now A E s"
    and b: "admit_bucket request now s = Some (b, s')"
  shows "A + tokens b \<le> capacity (conf (fst key)) + refill_rate (conf (fst key)) * of_int (now - t0) + (E + capacity (conf (fst key)) * unit_error)"
proof -
  let ?c = "conf (fst key)"
  have c: "qr_TokenBucket request = ?c" "config_ok ?c" using r k(2) by (auto simp: conforms_def quota_key_def)
  have pos: "0 \<le> capacity ?c * unit_error" "0 < capacity ?c" using c(2) by (simp_all add: config_ok_def unit_error_def)
  have rate: "0 \<le> refill_rate ?c * of_int (now - t0)" using refill_rate_nonneg[OF c(2)] t(2) by simp
  have E: "0 \<le> E" using a by (simp add: account_def)
  show ?thesis
  proof (cases "map_of (qs_buckets s) key")
    case None
    then have "b = \<lparr>lb_tokens = of_int64 (tb_Capacity ?c), lb_lastRefill = now, lb_lastSeen = now\<rparr>"
      using b k(2) by (simp add: admit_bucket_def c(1) Let_def split: if_splits)
    then have "tokens b = capacity ?c" using of_int64_small[of "tb_Capacity ?c"] k(1) pos(2) by (simp add: tokens_def)
    then show ?thesis using a None pos by (simp add: account_def)
  next
    case (Some b0)
    have b0: "bucket_ok ?c b0" "lb_lastRefill b0 \<le> now"
      using Some s t(1) by (auto simp: quota_ok_def clock_ok_def simp del: split_paired_All)
    have tb: "tokens b = tokens (refill ?c now b0)"
      using b k(2) Some by (auto simp: admit_bucket_def c(1) Let_def tokens_def split: if_splits)
    have "tokens b \<le> capacity ?c" using refill_ok[OF c(2) b0(1)] c(2) k(1) by (simp add: tb bucket_ok_tokens)
    moreover have "tokens b \<le> tokens b0 + refill_rate ?c * of_int (now - lb_lastRefill b0) + capacity ?c * unit_error"
      unfolding tb by (rule refill_tokens(1)[OF c(2) k(1) b0])
    moreover have "refill_rate ?c * of_int (now - t0) = refill_rate ?c * of_int (now - lb_lastRefill b0) + refill_rate ?c * of_int (lb_lastRefill b0 - t0)"
      by (simp add: algebra_simps)
    ultimately show ?thesis using a Some rate E pos by (auto simp: account_def)
  qed
qed

lemma account_step:
  assumes s: "quota_ok conf s" and r: "conforms conf request" and k: "patient (conf (fst key)) (qs_idleTTL s)"
    and t: "clock_ok t s" "t \<le> now" "t0 \<le> t" and a: "account (conf (fst key)) key t0 t A E s"
    and l: "admit_locked request now s = Some (d, s')"
  shows "clock_ok now s'"
    and "account (conf (fst key)) key t0 now (A + of_bool (quota_key request = key \<and> d = QuotaDecisionAllowed))
      (E + of_bool (quota_key request = key) * (2 * capacity (conf (fst key)) * unit_error)) s'"
proof -
  let ?c = "conf (fst key)" and ?k = "quota_key request"
  have c: "config_ok ?c" "tb_Capacity ?c \<le> 2 ^ 53" using k by (auto simp: patient_def)
  have pos: "0 \<le> capacity ?c * unit_error" using c(1) by (simp add: config_ok_def unit_error_def)
  obtain s1 where s1: "removeIdleBuckets now s = Some s1" "quota_ok conf s1" using removeIdleBuckets_ok[OF s] by metis
  note m = account_remove[OF s k t a s1(1)]
  have E: "0 \<le> E" using a by (simp add: account_def)
  have key: "E \<le> E + of_bool (?k = key) * (2 * capacity ?c * unit_error)" using pos by (simp add: mult.commute)
  show "clock_ok now s'" and "account ?c key t0 now (A + of_bool (?k = key \<and> d = QuotaDecisionAllowed))
      (E + of_bool (?k = key) * (2 * capacity ?c * unit_error)) s'"
  proof (atomize(full), cases "admit_bucket request now s1")
    case None
    then have "d = QuotaDecisionOverloaded" "s' = s1" using l s1(1) by (auto simp: admit_locked_def)
    then show "clock_ok now s' \<and> account ?c key t0 now (A + of_bool (?k = key \<and> d = QuotaDecisionAllowed))
      (E + of_bool (?k = key) * (2 * capacity ?c * unit_error)) s'"
      using m account_error[OF m(1) key] by (simp add: quota_decisions)
  next
    case (Some p)
    then obtain b s2 where p: "admit_bucket request now s1 = Some (b, s2)" by (cases p) simp
    note ok = admit_bucket_ok[OF s1(2) r p] and ck = admit_bucket_clock[OF m(2) p]
    define b' where "b' = (if d = QuotaDecisionAllowed then b\<lparr>lb_tokens := f_sub (lb_tokens b) (Fin 1)\<rparr> else b)"
    have d: "d = QuotaDecisionAllowed \<longleftrightarrow> \<not> f_lt (lb_tokens b) (Fin 1)"
      and s': "map_of (qs_buckets s') = (map_of (qs_buckets s2))(?k \<mapsto> b')"
      using l s1(1) p ok(2) by (auto simp: admit_locked_def b'_def quota_decisions split: if_splits)
    have clock: "clock_ok now s'" using ck by (auto simp: clock_ok_def s' b'_def simp del: split_paired_All)
    moreover have "account ?c key t0 now (A + of_bool (?k = key \<and> d = QuotaDecisionAllowed))
      (E + of_bool (?k = key) * (2 * capacity ?c * unit_error)) s'"
    proof (cases "?k = key")
      case False
      then show ?thesis using account_other[OF m(1)] ok(5) s' by simp
    next
      case True
      have le: "A + tokens b \<le> capacity ?c + refill_rate ?c * of_int (now - t0) + (E + capacity ?c * unit_error)"
        using t by (intro account_admit_bucket[OF s1(2) r c(2) True m(2) _ m(1) p]) auto
      have "bucket_ok ?c b" using ok(1,2) True by (auto simp: quota_ok_def simp del: split_paired_All)
      then have "d = QuotaDecisionAllowed \<Longrightarrow> tokens b' \<le> tokens b - 1 + capacity ?c * unit_error"
        using take_token_tokens[OF c] d by (simp add: b'_def)
      then have "A + of_bool (d = QuotaDecisionAllowed) + tokens b' \<le> A + tokens b + capacity ?c * unit_error"
        using pos by (cases "d = QuotaDecisionAllowed") (auto simp: b'_def)
      then have "A + of_bool (d = QuotaDecisionAllowed) + tokens b'
          \<le> capacity ?c + refill_rate ?c * of_int (now - t0) + (E + 2 * capacity ?c * unit_error)" using le by linarith
      moreover have "lb_lastRefill b' = now" using ck(2) by (simp add: b'_def)
      ultimately show ?thesis using True E pos by (simp add: account_def s')
    qed
    ultimately show "clock_ok now s' \<and> account ?c key t0 now (A + of_bool (?k = key \<and> d = QuotaDecisionAllowed))
      (E + of_bool (?k = key) * (2 * capacity ?c * unit_error)) s'" ..
  qed
qed

text \<open>Calls at the times of a clock that does not go back, the first no earlier than \<open>t\<close> and the last no later than \<open>t1\<close>.\<close>

fun clocked :: "time \<Rightarrow> time \<Rightarrow> admit_call list \<Rightarrow> bool" where
  "clocked t t1 [] \<longleftrightarrow> t \<le> t1"
| "clocked t t1 ((_, now, _) # calls) \<longleftrightarrow> t \<le> now \<and> clocked now t1 calls"

lemma clocked_le: "clocked t t1 calls \<Longrightarrow> t \<le> t1"
  by (induction t t1 calls rule: clocked.induct) auto

lemma Admit_cases:
  assumes "Admit c now request (s, runtime) = Some ((d, e), s', runtime')"
  obtains "d = QuotaDecisionAdmissionUnavailable" "s' = s" | "admit_locked request now s = Some (d, s')"
  using assms by (auto simp: Admit_def Let_def split: option.splits if_splits)

lemma account_clock:
  assumes "account c key t0 t A E s" "t \<le> u" "config_ok c"
  shows "account c key t0 u A E s"
proof -
  have "refill_rate c * of_int (t - t0) \<le> refill_rate c * of_int (u - t0)"
    using assms(2) refill_rate_nonneg[OF assms(3)] by (intro mult_left_mono) auto
  then show ?thesis using assms(1) by (auto simp: account_def split: option.splits)
qed

lemma account_run:
  assumes "admit_run calls (s, runtime) = Some (ds, s', runtime')" "clocked t t1 calls" "\<forall>(c, now, r) \<in> set calls. conforms conf r"
    "quota_ok conf s" "patient (conf (fst key)) (qs_idleTTL s)" "clock_ok t s" "t0 \<le> t" "account (conf (fst key)) key t0 t A E s"
  shows "quota_ok conf s' \<and> account (conf (fst key)) key t0 t1 (A + of_nat (allowed_for key ds))
    (E + of_nat (asked_for key ds) * (2 * capacity (conf (fst key)) * unit_error)) s' \<and> clock_ok t1 s'"
  using assms
proof (induction calls arbitrary: s runtime ds t A E)
  case Nil
  then have "account (conf (fst key)) key t0 t1 A E s" by (auto simp: patient_def intro: account_clock)
  then show ?case using Nil clock_ok_later[of t s] by (auto simp: allowed_for_def asked_for_def)
next
  case (Cons call calls)
  obtain c now r where call: "call = (c, now, r)" by (cases call)
  let ?c = "conf (fst key)" and ?u = "2 * capacity (conf (fst key)) * unit_error"
  obtain d e s1 rt1 ds1 where a: "Admit c now r (s, runtime) = Some ((d, e), s1, rt1)"
    and rest: "admit_run calls (s1, rt1) = Some (ds1, s', runtime')" and ds: "ds = (r, d) # ds1"
    using Cons(2) by (auto simp: call split: option.splits)
  have t: "t \<le> now" "clocked now t1 calls" "t0 \<le> now" and conf: "conforms conf r" "\<forall>(c, now, r) \<in> set calls. conforms conf r"
    using Cons(3,4,8) by (auto simp: call)
  have pos: "0 \<le> ?u" and cok: "config_ok ?c" using Cons(6) by (auto simp: patient_def config_ok_def unit_error_def)
  define A' E' where "A' = A + of_bool (quota_key r = key \<and> d = QuotaDecisionAllowed)" and "E' = E + of_bool (quota_key r = key) * ?u"
  have step: "quota_ok conf s1 \<and> patient ?c (qs_idleTTL s1) \<and> clock_ok now s1 \<and> account ?c key t0 now A' E' s1"
    using a
  proof (cases rule: Admit_cases)
    case 1
    have "E \<le> E'" using pos by (simp add: E'_def)
    then show ?thesis using 1 Cons(5-7) account_error[OF account_clock[OF Cons(9) t(1) cok]] clock_ok_later[OF Cons(7) t(1)]
      by (auto simp: A'_def quota_decisions)
  next
    case 2
    then have "quota_ok conf s1" "qs_idleTTL s1 = qs_idleTTL s" using admit_locked_ok[OF Cons(5) conf(1), of now] by (metis option.inject prod.inject)+
    then show ?thesis using account_step[OF Cons(5) conf(1) Cons(6,7) t(1) Cons(8,9) 2] Cons(6) by (simp add: A'_def E'_def)
  qed
  have "A' + of_nat (allowed_for key ds1) = A + of_nat (allowed_for key ds)" "E' + of_nat (asked_for key ds1) * ?u = E + of_nat (asked_for key ds) * ?u"
    by (auto simp: A'_def E'_def ds allowed_for_def asked_for_def algebra_simps)
  then show ?case using Cons(1)[OF rest t(2) conf(2) _ _ _ t(3), of A' E'] step by simp
qed


lemma admit_run_returns:
  assumes "quota_ok conf s" "\<forall>(c, now, r) \<in> set calls. conforms conf r"
  shows "\<exists>ds s' runtime'. admit_run calls (s, runtime) = Some (ds, s', runtime') \<and> length ds = length calls"
  using assms
proof (induction calls arbitrary: s runtime)
  case (Cons call calls)
  obtain c now r where call: "call = (c, now, r)" by (cases call)
  then have "conforms conf r" using Cons(3) by simp
  from admit_locked_ok[OF Cons(2) this, of now] obtain d s1 where "admit_locked r now s = Some (d, s1)" "quota_ok conf s1" by metis
  then obtain d e s2 rt2 where "Admit c now r (s, runtime) = Some ((d, e), s2, rt2)" "quota_ok conf s2"
    using Cons(2) by (fastforce simp: Admit_def Let_def split: option.splits if_splits)
  then show ?case using Cons(1)[of s2 rt2] Cons(3) by (fastforce simp: call)
qed simp


definition sample_calls :: "admit_call list" where
  "sample_calls = [(None, 5, sample_quota_request), (None, 5, sample_quota_request), (None, 6, sample_quota_request)]"

lemma sample_clocked: "clocked 5 6 sample_calls" "clock_ok 5 sample_quota" "patient sample_bucket (qs_idleTTL sample_quota)"
  by (simp_all add: sample_calls_def clock_ok_def sample_quota_def NewLocalQuotaStore_def patient_def config_ok_def sample_bucket_def)

lemma sample_conforms: "\<forall>(c, now, r) \<in> set sample_calls. conforms (\<lambda>_. sample_bucket) r"
  by (simp add: sample_calls_def sample_quota_ok(2))


end
