(* ===== verification/Auth.thy ===== *)
theory Auth
  imports Transition Prelude
begin

text \<open>
  Token verification (\<^verbatim>\<open>src/internal/auth\<close>): static tokens, and the cache in front of a verifier.  The
  verifier behind the cache, an HTTP or JWT provider, is an argument: the answer it gives to the call.
  SHA-256 is an argument too.
\<close>

section \<open>Principals and errors\<close>

record principal =
  pl_ClientID :: string
  pl_TokenID :: string
  pl_Subject :: string
  pl_Scopes :: "string list"
  pl_ExpiresAt :: time

text \<open>The sentinel that \<^verbatim>\<open>errors.Is\<close> finds in an error, or none of them.\<close>

datatype auth_err = ErrInvalidToken | ErrExpiredToken | ErrForbidden | ErrProviderTimeout | ErrProviderUnavailable | ErrMisconfigured | Err_Unknown

text \<open>A verifier returns a principal, which may be \<^verbatim>\<open>nil\<close>, and an error.\<close>

type_synonym verification = "principal option \<times> auth_err option"

definition VerificationResult :: "auth_err option \<Rightarrow> string" where
  "VerificationResult err = (case err of None \<Rightarrow> ''success''
     | Some ErrExpiredToken \<Rightarrow> ''expired'' | Some ErrForbidden \<Rightarrow> ''forbidden'' | Some ErrInvalidToken \<Rightarrow> ''invalid''
     | Some ErrProviderTimeout \<Rightarrow> ''timeout'' | Some ErrProviderUnavailable \<Rightarrow> ''unavailable''
     | Some ErrMisconfigured \<Rightarrow> ''misconfigured'' | Some Err_Unknown \<Rightarrow> ''error'')"

section \<open>Static tokens\<close>

definition static_Verify :: "(string, principal) gomap \<Rightarrow> string \<Rightarrow> verification" where
  "static_Verify tokens token =
    (if token = '''' then (None, Some ErrInvalidToken)
     else case map_of tokens token of
       None \<Rightarrow> (None, Some ErrInvalidToken)
     | Some p \<Rightarrow> if pl_ClientID p = '''' then (None, Some ErrInvalidToken) else (Some p, None))"

section \<open>The cache\<close>

record cache_entry =
  ce_principal :: "principal option"
  ce_err :: "auth_err option"
  ce_expiresAt :: time
  ce_sequence :: "64 word"

record auth_cache =
  ac_maxEntries :: int
  ac_positiveTTL :: duration
  ac_negativeTTL :: duration
  ac_sequence :: "64 word"
  ac_entries :: "(bytes, cache_entry) gomap"

definition NewCachedVerifier :: "int \<Rightarrow> duration \<Rightarrow> duration \<Rightarrow> auth_err + auth_cache" where
  "NewCachedVerifier maxEntries positiveTTL negativeTTL =
    (if maxEntries \<le> 0 then Inl ErrMisconfigured
     else if positiveTTL \<le> 0 then Inl ErrMisconfigured
     else if negativeTTL \<le> 0 then Inl ErrMisconfigured
     else Inr \<lparr>ac_maxEntries = maxEntries, ac_positiveTTL = positiveTTL, ac_negativeTTL = negativeTTL, ac_sequence = 0, ac_entries = []\<rparr>)"

definition cache_load :: "bytes \<Rightarrow> time \<Rightarrow> auth_cache \<Rightarrow> cache_entry option \<times> auth_cache" where
  "cache_load key now v = (case map_of (ac_entries v) key of
     None \<Rightarrow> (None, v)
   | Some entry \<Rightarrow>
       if \<not> before now (ce_expiresAt entry) then (None, v\<lparr>ac_entries := del key (ac_entries v)\<rparr>) else (Some entry, v))"

definition newEntry :: "verification \<Rightarrow> time \<Rightarrow> auth_cache \<Rightarrow> cache_entry option" where
  "newEntry answer now v = (case answer of
     (Some p, None) \<Rightarrow>
       let expiresAt = now + ac_positiveTTL v;
           expiresAt = (if \<not> is_zero (pl_ExpiresAt p) \<and> before (pl_ExpiresAt p) expiresAt then pl_ExpiresAt p else expiresAt) in
       if \<not> after expiresAt now then None
       else Some \<lparr>ce_principal = Some p, ce_err = None, ce_expiresAt = expiresAt, ce_sequence = 0\<rparr>
   | (_, Some ErrInvalidToken) \<Rightarrow>
       Some \<lparr>ce_principal = None, ce_err = Some ErrInvalidToken, ce_expiresAt = now + ac_negativeTTL v, ce_sequence = 0\<rparr>
   | _ \<Rightarrow> None)"

text \<open>The scan for the entry with the least sequence number.\<close>

fun oldest_key :: "(bytes \<times> 64 word) option \<Rightarrow> (bytes, cache_entry) gomap \<Rightarrow> (bytes \<times> 64 word) option" where
  "oldest_key best [] = best"
| "oldest_key best ((key, entry) # es) =
    oldest_key (case best of None \<Rightarrow> Some (key, ce_sequence entry)
      | Some (k, n) \<Rightarrow> if ce_sequence entry < n then Some (key, ce_sequence entry) else best) es"

definition evictOldest :: "auth_cache \<Rightarrow> auth_cache" where
  "evictOldest v = (case oldest_key None (ac_entries v) of None \<Rightarrow> v
     | Some (key, _) \<Rightarrow> v\<lparr>ac_entries := del key (ac_entries v)\<rparr>)"

definition cache_store :: "bytes \<Rightarrow> verification \<Rightarrow> time \<Rightarrow> auth_cache \<Rightarrow> auth_cache" where
  "cache_store key answer now v = (case newEntry answer now v of None \<Rightarrow> v
   | Some entry \<Rightarrow>
       let v = (if map_of (ac_entries v) key = None \<and> ac_maxEntries v \<le> int (length (ac_entries v)) then evictOldest v else v);
           v = v\<lparr>ac_sequence := ac_sequence v + 1\<rparr>
       in v\<lparr>ac_entries := put key (entry\<lparr>ce_sequence := ac_sequence v\<rparr>) (ac_entries v)\<rparr>)"

text \<open>
  \<open>now1\<close> and \<open>now2\<close> are the readings before and after the delegate was asked for its \<open>answer\<close>; the last
  component says whether it was asked.
\<close>

definition cached_Verify ::
  "(bytes \<Rightarrow> bytes) \<Rightarrow> time \<Rightarrow> time \<Rightarrow> verification \<Rightarrow> string \<Rightarrow> auth_cache \<Rightarrow> verification \<times> bool \<times> auth_cache" where
  "cached_Verify sha256 now1 now2 answer token v =
    (let key = sha256 (bytes_of token); (entry, v) = cache_load key now1 v in
     case entry of
       Some e \<Rightarrow> (case ce_err e of Some err \<Rightarrow> ((None, Some err), False, v) | None \<Rightarrow> ((ce_principal e, None), False, v))
     | None \<Rightarrow> (answer, True, cache_store key answer now2 v))"

section \<open>What is cached\<close>

text \<open>A call: the token, the readings, and the answer the delegate gives if it is asked.\<close>

type_synonym auth_call = "string \<times> time \<times> time \<times> verification"

text \<open>The answers the delegate gave, with the reading after each: the history of the cache.\<close>

type_synonym auth_state = "auth_cache \<times> (string \<times> time \<times> verification) list"

definition auth_step :: "(bytes \<Rightarrow> bytes) \<Rightarrow> auth_call \<Rightarrow> auth_state \<Rightarrow> auth_state option" where
  "auth_step sha256 call s = (case (call, s) of ((token, now1, now2, answer), (v, h)) \<Rightarrow>
     (case cached_Verify sha256 now1 now2 answer token v of (_, asked, v') \<Rightarrow>
        Some (v', if asked then (token, now2, answer) # h else h)))"

definition auth_init :: "int \<Rightarrow> duration \<Rightarrow> duration \<Rightarrow> auth_state \<Rightarrow> bool" where
  "auth_init maxEntries positiveTTL negativeTTL s \<longleftrightarrow> NewCachedVerifier maxEntries positiveTTL negativeTTL = Inr (fst s) \<and> snd s = []"

text \<open>An entry is backed by an answer to a token of its digest.\<close>

definition backed :: "(bytes \<Rightarrow> bytes) \<Rightarrow> duration \<Rightarrow> duration \<Rightarrow> (string \<times> time \<times> verification) list \<Rightarrow> bytes \<Rightarrow> cache_entry \<Rightarrow> bool" where
  "backed sha256 pos neg h key e \<longleftrightarrow> (\<exists>token t answer. (token, t, answer) \<in> set h \<and> sha256 (bytes_of token) = key \<and>
     ((\<exists>p. answer = (Some p, None) \<and> ce_err e = None \<and> ce_principal e = Some p \<and> ce_expiresAt e \<le> t + pos
         \<and> (pl_ExpiresAt p \<noteq> 0 \<longrightarrow> ce_expiresAt e \<le> pl_ExpiresAt p))
      \<or> snd answer = Some ErrInvalidToken \<and> ce_err e = Some ErrInvalidToken \<and> ce_expiresAt e = t + neg))"

definition auth_inv :: "(bytes \<Rightarrow> bytes) \<Rightarrow> int \<Rightarrow> duration \<Rightarrow> duration \<Rightarrow> auth_state \<Rightarrow> bool" where
  "auth_inv sha256 n pos neg s \<longleftrightarrow> (case s of (v, h) \<Rightarrow> 0 < n \<and> ac_maxEntries v = n \<and> ac_positiveTTL v = pos \<and> ac_negativeTTL v = neg
     \<and> wf_map (ac_entries v) \<and> int (length (ac_entries v)) \<le> n
     \<and> (\<forall>key e. map_of (ac_entries v) key = Some e \<longrightarrow> backed sha256 pos neg h key e))"

lemma backed_later: "backed sha256 pos neg h key e \<Longrightarrow> backed sha256 pos neg (a # h) key e"
  unfolding backed_def list.set(2) by blast

lemma backed_sequence [simp]: "backed sha256 pos neg h key (e\<lparr>ce_sequence := n\<rparr>) = backed sha256 pos neg h key e"
  by (simp add: backed_def)

lemma oldest_key_Some: "oldest_key best es = Some (k, n) \<Longrightarrow> best = Some (k, n) \<or> k \<in> fst ` set es"
  by (induction best es rule: oldest_key.induct) (auto split: option.splits if_splits)

lemma oldest_key_None: "oldest_key best es = None \<longleftrightarrow> best = None \<and> es = []"
  by (induction best es rule: oldest_key.induct) (auto split: option.splits)

lemma length_del: "k \<in> fst ` set m \<Longrightarrow> length (del k m) < length m"
  using length_filter_less[of _ m "\<lambda>p. k \<noteq> fst p"] by (auto simp: AList.delete_eq case_prod_beta')

lemma evictOldest_fields:
  "ac_maxEntries (evictOldest v) = ac_maxEntries v" "ac_positiveTTL (evictOldest v) = ac_positiveTTL v" "ac_negativeTTL (evictOldest v) = ac_negativeTTL v"
  "wf_map (ac_entries v) \<Longrightarrow> wf_map (ac_entries (evictOldest v))"
  "map_of (ac_entries (evictOldest v)) k = Some e \<Longrightarrow> map_of (ac_entries v) k = Some e"
  by (auto simp: evictOldest_def split: option.splits if_splits)

lemma evictOldest_shorter: "ac_entries v \<noteq> [] \<Longrightarrow> length (ac_entries (evictOldest v)) < length (ac_entries v)"
  using oldest_key_None[of None "ac_entries v"] oldest_key_Some[of None "ac_entries v"]
  by (auto simp: evictOldest_def intro!: length_del split: option.splits)

lemma evictOldest_le: "length (ac_entries (evictOldest v)) \<le> length (ac_entries v)"
  by (auto simp: evictOldest_def length_del_le split: option.splits)

lemma newEntry_backed:
  assumes "newEntry answer now v = Some e" "ac_positiveTTL v = pos" "ac_negativeTTL v = neg"
  shows "backed sha256 pos neg ((token, now, answer) # h) (sha256 (bytes_of token)) e"
  using assms unfolding newEntry_def backed_def
  by (cases answer) (force simp: Let_def is_zero_def before_def after_def split: option.splits auth_err.splits if_splits)

text \<open>Reading the cache keeps the invariant, and what it returns is backed and fresh.\<close>

lemma cache_load_inv:
  assumes "auth_inv sha256 n pos neg (v, h)" "cache_load key now v = (r, v')"
  shows "auth_inv sha256 n pos neg (v', h)"
  using assms length_delete_le[of key "ac_entries v"]
  by (auto simp: auth_inv_def cache_load_def split: option.splits if_splits)

lemma cache_load_Some:
  assumes "auth_inv sha256 n pos neg (v, h)" "cache_load key now v = (Some e, v')"
  shows "backed sha256 pos neg h key e" "now < ce_expiresAt e"
  using assms by (auto simp: auth_inv_def cache_load_def before_def split: option.splits if_splits)

lemma cache_store_inv:
  assumes inv: "auth_inv sha256 n pos neg (v, h)"
  shows "auth_inv sha256 n pos neg (cache_store (sha256 (bytes_of token)) answer now v, (token, now, answer) # h)"
proof (cases "newEntry answer now v")
  case None
  then show ?thesis using inv backed_later by (auto simp: cache_store_def auth_inv_def)
next
  case (Some e)
  define key where "key = sha256 (bytes_of token)"
  define w where "w = (if map_of (ac_entries v) key = None \<and> ac_maxEntries v \<le> int (length (ac_entries v)) then evictOldest v else v)"
  have new: "backed sha256 pos neg ((token, now, answer) # h) key e"
    using newEntry_backed[OF Some] inv by (simp add: auth_inv_def key_def)
  have w: "auth_inv sha256 n pos neg (w, h)"
    using inv evictOldest_le[of v] evictOldest_fields[of v] by (auto simp: w_def auth_inv_def)
  have room: "map_of (ac_entries w) key = None \<Longrightarrow> int (length (ac_entries w)) < n"
    using inv evictOldest_shorter[of v] by (auto simp: w_def auth_inv_def split: if_splits)
  have "int (length (put key e' (ac_entries w))) \<le> n" for e'
    using w room by (auto simp: length_put auth_inv_def split: if_splits)
  then show ?thesis
    using w new unfolding cache_store_def Some
    by (auto simp: Let_def key_def[symmetric] w_def[symmetric] auth_inv_def backed_later split: if_splits)
qed

lemma cached_Verify_inv:
  assumes "auth_inv sha256 n pos neg s" "auth_step sha256 call s = Some s'"
  shows "auth_inv sha256 n pos neg s'"
  using assms cache_load_inv cache_store_inv
  by (fastforce simp: auth_step_def cached_Verify_def Let_def split: prod.splits option.splits)

lemma auth_init_inv: "auth_init n pos neg s \<Longrightarrow> auth_inv sha256 n pos neg s"
  by (cases s) (auto simp: auth_init_def auth_inv_def NewCachedVerifier_def split: if_splits)


interpretation answers: invariant_of "auth_init n pos neg" "auth_step sha256" freely "auth_inv sha256 n pos neg"
proof
  show "auth_inv sha256 n pos neg s" if "auth_init n pos neg s" for s using that by (rule auth_init_inv)
  show "auth_inv sha256 n pos neg s'" if "auth_inv sha256 n pos neg s" "freely a s" "auth_step sha256 a s = Some s'" for a s s'
    using cached_Verify_inv[OF that(1,3)] .
qed

section \<open>Properties\<close>

text \<open>
  C13.  After any sequence of calls, an answer \<^verbatim>\<open>CachedVerifier.Verify\<close> (\<^verbatim>\<open>src/internal/auth/cache.go\<close>) gives
  without asking its delegate is one the delegate gave before, to a token with the same digest: a principal
  less than \<open>positiveTTL\<close> after that answer and before the principal expires, or a rejection as invalid less than
  \<open>negativeTTL\<close> after it, and no other error is ever replayed.  An answer given with the delegate's help is the
  delegate's own, and the cache never holds more than \<open>maxEntries\<close> answers.
\<close>

theorem cached_answers:
  assumes "reachable (auth_init n pos neg) (auth_step sha256) freely (v, h)"
    and "cached_Verify sha256 now1 now2 answer token v = (r, asked, v')"
  shows "int (length (ac_entries v)) \<le> n \<and>
    (if asked then r = answer
     else \<exists>token' t given. (token', t, given) \<in> set h \<and> sha256 (bytes_of token') = sha256 (bytes_of token) \<and>
      ((\<exists>p. r = (Some p, None) \<and> given = r \<and> now1 < t + pos \<and> (pl_ExpiresAt p \<noteq> 0 \<longrightarrow> now1 < pl_ExpiresAt p))
       \<or> r = (None, Some ErrInvalidToken) \<and> snd given = Some ErrInvalidToken \<and> now1 < t + neg))"
proof (intro conjI)
  have inv: "auth_inv sha256 n pos neg (v, h)" using assms(1) by (rule answers.holds)
  then show "int (length (ac_entries v)) \<le> n" by (simp add: auth_inv_def)
  consider "asked" "r = answer" | e w where "\<not> asked" "cache_load (sha256 (bytes_of token)) now1 v = (Some e, w)"
      "r = (case ce_err e of Some err \<Rightarrow> (None, Some err) | None \<Rightarrow> (ce_principal e, None))"
    using assms(2) by (auto simp: cached_Verify_def Let_def split: prod.splits option.splits)
  then show "if asked then r = answer
     else \<exists>token' t given. (token', t, given) \<in> set h \<and> sha256 (bytes_of token') = sha256 (bytes_of token) \<and>
      ((\<exists>p. r = (Some p, None) \<and> given = r \<and> now1 < t + pos \<and> (pl_ExpiresAt p \<noteq> 0 \<longrightarrow> now1 < pl_ExpiresAt p))
       \<or> r = (None, Some ErrInvalidToken) \<and> snd given = Some ErrInvalidToken \<and> now1 < t + neg)"
  proof cases
    case (2 e w)
    from cache_load_Some[OF inv 2(2)] obtain token' t given where
      "(token', t, given) \<in> set h" "sha256 (bytes_of token') = sha256 (bytes_of token)"
      "(\<exists>p. given = (Some p, None) \<and> ce_err e = None \<and> ce_principal e = Some p \<and> ce_expiresAt e \<le> t + pos
          \<and> (pl_ExpiresAt p \<noteq> 0 \<longrightarrow> ce_expiresAt e \<le> pl_ExpiresAt p))
       \<or> snd given = Some ErrInvalidToken \<and> ce_err e = Some ErrInvalidToken \<and> ce_expiresAt e = t + neg" "now1 < ce_expiresAt e"
      unfolding backed_def by blast
    then have "\<exists>token' t given. (token', t, given) \<in> set h \<and> sha256 (bytes_of token') = sha256 (bytes_of token) \<and>
      ((\<exists>p. r = (Some p, None) \<and> given = r \<and> now1 < t + pos \<and> (pl_ExpiresAt p \<noteq> 0 \<longrightarrow> now1 < pl_ExpiresAt p))
       \<or> r = (None, Some ErrInvalidToken) \<and> snd given = Some ErrInvalidToken \<and> now1 < t + neg)"
      by (intro exI[of _ token'] exI[of _ t] exI[of _ given]) (auto simp: 2(3))
    then show ?thesis using 2(1) by (simp only: if_False simp_thms)
  qed simp
qed

definition sample_principal :: principal where
  "sample_principal = \<lparr>pl_ClientID = ''alice'', pl_TokenID = ''t1'', pl_Subject = [], pl_Scopes = [], pl_ExpiresAt = 108\<rparr>"

definition sample_cache :: auth_cache where
  "sample_cache = \<lparr>ac_maxEntries = 2, ac_positiveTTL = 10, ac_negativeTTL = 5, ac_sequence = 1,
     ac_entries = [(bytes_of ''k'', \<lparr>ce_principal = Some sample_principal, ce_err = None, ce_expiresAt = 108, ce_sequence = 1\<rparr>)]\<rparr>"

lemma sample_cache_reached:
  "reachable (auth_init 2 10 5) (auth_step (\<lambda>b. b)) freely (sample_cache, [(''k'', 101, (Some sample_principal, None))])"
  by (rule run_reachable[where s = "(\<lparr>ac_maxEntries = 2, ac_positiveTTL = 10, ac_negativeTTL = 5, ac_sequence = 0, ac_entries = []\<rparr>, [])"
        and as = "[(''k'', 100, 101, (Some sample_principal, None))]"])
     (simp_all add: auth_init_def NewCachedVerifier_def auth_step_def cached_Verify_def cache_load_def cache_store_def newEntry_def
        sample_cache_def sample_principal_def is_zero_def before_def after_def Let_def reachable_init)

theorem cached_answers_witness:
  "cached_Verify (\<lambda>b. b) 105 106 (None, Some ErrProviderTimeout) ''k'' sample_cache = ((Some sample_principal, None), False, sample_cache)
   \<and> int (length (ac_entries sample_cache)) \<le> 2 \<and> 105 < pl_ExpiresAt sample_principal"
proof -
  have c: "cached_Verify (\<lambda>b. b) 105 106 (None, Some ErrProviderTimeout) ''k'' sample_cache = ((Some sample_principal, None), False, sample_cache)"
    by (simp add: cached_Verify_def cache_load_def sample_cache_def before_def Let_def)
  show ?thesis using cached_answers[OF sample_cache_reached c] c by (auto simp: sample_principal_def)
qed

end
