(* ===== verification/Cluster_Routes.thy ===== *)
theory Cluster_Routes
  imports Session Cluster
begin

text \<open>
  How a gateway publishes its sessions in the online registry (\<^verbatim>\<open>src/internal/server/cluster.go\<close>, and the end of a
  connection in \<^verbatim>\<open>gateway.go\<close>): the entry of a session, the periodic refresh, and the withdrawal of routes when
  a connection closes or the gateway shuts down.  The registry is the memory registry.  Metrics and logging are left out.
\<close>

section \<open>Entries and settings\<close>

definition routeEntryFromSession :: "session \<Rightarrow> string \<Rightarrow> route_entry" where
  "routeEntryFromSession s internalAddr = \<lparr>re_ClientID = ss_ClientID s, re_DeviceID = ss_DeviceID s, re_SessionID = ss_SessionID s,
     re_GatewayNode = ss_GatewayNode s, re_InternalAddr = internalAddr, re_TokenID = ss_TokenID s, re_UpdatedAt = ss_LastSeenAt s, re_ExpiresAt = 0\<rparr>"

record route_refresher =
  rx_gatewayNode :: string
  rx_internalAddr :: string
  rx_interval :: duration
  rx_timeout :: duration

definition clusterRouteRefreshInterval :: "duration \<Rightarrow> duration" where
  "clusterRouteRefreshInterval ttl = (if ttl \<le> 0 then 10 * second
     else let interval = ttl div 3 in if interval < 500 * millisecond then 500 * millisecond else interval)"

definition newClusterRouteRefresher :: "string \<Rightarrow> string \<Rightarrow> duration \<Rightarrow> duration \<Rightarrow> route_refresher" where
  "newClusterRouteRefresher gatewayNode internalAddr configured ttl =
    (let interval = (if configured \<le> 0 then clusterRouteRefreshInterval ttl else configured);
         timeout = (if interval \<le> 0 \<or> interval > 2 * second then 2 * second else interval)
     in \<lparr>rx_gatewayNode = gatewayNode, rx_internalAddr = internalAddr, rx_interval = interval, rx_timeout = timeout\<rparr>)"

text \<open>A refresh never outlives its timeout of two seconds, and the interval is positive.\<close>

lemma refresher_settings:
  "0 < rx_interval (newClusterRouteRefresher g a i ttl)" "0 < rx_timeout (newClusterRouteRefresher g a i ttl)"
  "rx_timeout (newClusterRouteRefresher g a i ttl) \<le> 2 * second"
  by (auto simp: newClusterRouteRefresher_def clusterRouteRefreshInterval_def Let_def)

section \<open>The refresh\<close>

text \<open>The readings of one session's refresh: those of the refresher, of \<^verbatim>\<open>Touch\<close> and of \<^verbatim>\<open>Bind\<close>.\<close>

record refresh_env =
  fx_ctx :: ctx
  fx_now :: time
  fx_touch :: "time \<times> time \<times> ctx"
  fx_bind :: "time \<times> ctx"

datatype refresh_status = Refreshed | Skipped | Refresh_failed registry_err

definition refresh_entry :: "route_refresher \<Rightarrow> time \<Rightarrow> session \<Rightarrow> route_entry" where
  "refresh_entry x now found =
    (let entry = routeEntryFromSession found (rx_internalAddr x);
         entry = (if re_GatewayNode entry = '''' then entry\<lparr>re_GatewayNode := rx_gatewayNode x\<rparr> else entry)
     in entry\<lparr>re_UpdatedAt := now\<rparr>)"

definition refreshSession :: "route_refresher \<Rightarrow> refresh_env \<Rightarrow> session \<Rightarrow> memory_registry \<Rightarrow> refresh_status \<times> memory_registry" where
  "refreshSession x E found r =
    (let entry = refresh_entry x (fx_now E) found; (t, t', c) = fx_touch E in
     case RegistryTouch t t' c r entry of
       (None, r) \<Rightarrow> (Refreshed, r)
     | (Some ErrSessionMismatch, r) \<Rightarrow> (Skipped, r)
     | (Some ErrRouteNotFound, r) \<Rightarrow>
         (case RegistryBind (fst (fx_bind E)) (snd (fx_bind E)) r entry of (Some err, r) \<Rightarrow> (Refresh_failed err, r) | (None, r) \<Rightarrow> (Refreshed, r))
     | (Some err, r) \<Rightarrow> (Refresh_failed err, r))"

record refresh_result =
  fr_Scanned :: nat
  fr_Refreshed :: nat
  fr_Skipped :: nat
  fr_Failed :: nat

fun refresh_loop :: "route_refresher \<Rightarrow> (session \<Rightarrow> refresh_env) \<Rightarrow> session list \<Rightarrow> refresh_result \<Rightarrow> memory_registry \<Rightarrow> refresh_result \<times> memory_registry" where
  "refresh_loop x E [] res r = (res, r)"
| "refresh_loop x E (found # rest) res r =
    (case fx_ctx (E found) of
       Some _ \<Rightarrow> (res\<lparr>fr_Failed := fr_Failed res + 1\<rparr>, r)
     | None \<Rightarrow>
       let res = res\<lparr>fr_Scanned := fr_Scanned res + 1\<rparr> in
       (case refreshSession x (E found) found r of
          (Refresh_failed err, r) \<Rightarrow> refresh_loop x E rest (res\<lparr>fr_Failed := fr_Failed res + 1\<rparr>) r
        | (Skipped, r) \<Rightarrow> refresh_loop x E rest (res\<lparr>fr_Skipped := fr_Skipped res + 1\<rparr>) r
        | (Refreshed, r) \<Rightarrow> refresh_loop x E rest (res\<lparr>fr_Refreshed := fr_Refreshed res + 1\<rparr>) r))"

definition refresh :: "route_refresher \<Rightarrow> (session \<Rightarrow> refresh_env) \<Rightarrow> manager \<Rightarrow> memory_registry \<Rightarrow> refresh_result \<times> memory_registry" where
  "refresh x E sessions r =
    refresh_loop x E (Snapshot sessions) \<lparr>fr_Scanned = 0, fr_Refreshed = 0, fr_Skipped = 0, fr_Failed = 0\<rparr> r"

section \<open>Withdrawing routes\<close>

definition unbindClusterRoute :: "time \<Rightarrow> ctx \<Rightarrow> memory_registry option \<Rightarrow> session option \<Rightarrow> memory_registry option" where
  "unbindClusterRoute t c registry session = (case (registry, session) of
     (Some r, Some s) \<Rightarrow> Some (snd (RegistryUnbind t c r (ss_ClientID s, ss_DeviceID s) (ss_SessionID s)))
   | _ \<Rightarrow> registry)"

fun unbind_routes :: "(session \<Rightarrow> ctx \<times> time \<times> ctx) \<Rightarrow> session list \<Rightarrow> memory_registry option \<Rightarrow> memory_registry option" where
  "unbind_routes E [] registry = registry"
| "unbind_routes E (found # rest) registry = (case E found of (Some _, _) \<Rightarrow> registry
   | (None, t, c) \<Rightarrow> unbind_routes E rest (unbindClusterRoute t c registry (Some found)))"

definition unbindAllClusterRoutes :: "(session \<Rightarrow> ctx \<times> time \<times> ctx) \<Rightarrow> manager \<Rightarrow> memory_registry option \<Rightarrow> nat \<times> memory_registry option" where
  "unbindAllClusterRoutes E sessions registry = (case registry of None \<Rightarrow> (0, None)
   | Some _ \<Rightarrow> (length (Snapshot sessions), unbind_routes E (Snapshot sessions) registry))"

definition onConnStop :: "time \<Rightarrow> ctx \<Rightarrow> 64 word \<Rightarrow> manager \<times> memory_registry option \<Rightarrow> manager \<times> memory_registry option" where
  "onConnStop t c connID = (\<lambda>(sessions, registry). case UnbindByConnID sessions connID of
     (removed, sessions) \<Rightarrow> (sessions, unbindClusterRoute t c registry removed))"

section \<open>Lemmas\<close>

text \<open>
  After a session was refreshed, the registry has its route: an entry of this session unless another session holds the
  route, which is then left alone.
\<close>

lemma refresh_entry_fields:
  "Key (refresh_entry x now s) = pair_of s" "re_SessionID (refresh_entry x now s) = ss_SessionID s"
  by (simp_all add: refresh_entry_def routeEntryFromSession_def Key_def pair_of_def Let_def)

lemma refreshSession_refreshed:
  assumes "refreshSession x E s r = (Refreshed, r')"
  obtains e where "map_of (reg_entries r') (pair_of s) = Some e" "re_SessionID e = ss_SessionID s"
proof -
  have n: "re_SessionID (normalizeEntry q e t) = re_SessionID e" "Key (normalizeEntry q e t) = Key e" for q e t
    by (simp_all add: normalizeEntry_def Key_def Let_def)
  show ?thesis
    using assms that unfolding refreshSession_def Let_def
    by (auto simp: RegistryTouch_def RegistryBind_def n refresh_entry_fields Let_def
        split: prod.splits option.splits registry_err.splits if_splits)
qed

lemma refreshSession_skipped:
  assumes "refreshSession x E s r = (Skipped, r')"
  obtains e where "r' = r" "map_of (reg_entries r) (pair_of s) = Some e" "re_SessionID e \<noteq> ss_SessionID s"
proof -
  have v: "validateRouteEntry e = Some err \<Longrightarrow> err \<noteq> ErrSessionMismatch" for e err
    by (auto simp: validateRouteEntry_def validateRouteKey_def split: if_splits option.splits)
  show ?thesis
    using assms that v unfolding refreshSession_def Let_def
    by (auto simp: RegistryTouch_def refresh_entry_fields split: prod.splits option.splits registry_err.splits if_splits)
qed

text \<open>Each refresh accounts for every session it scanned.\<close>

lemma refresh_loop_counts:
  assumes "refresh_loop x E ss res r = (res', r')"
    and "fr_Scanned res \<le> fr_Refreshed res + fr_Skipped res + fr_Failed res"
  shows "fr_Scanned res' \<le> fr_Refreshed res' + fr_Skipped res' + fr_Failed res' \<and> fr_Scanned res' \<le> fr_Scanned res + length ss"
  using assms
proof (induction ss arbitrary: res r)
  case (Cons s ss)
  show ?case
  proof (cases "fx_ctx (E s)")
    case None
    obtain st r1 where st: "refreshSession x (E s) s r = (st, r1)" by fastforce
    show ?thesis using Cons.prems Cons.IH[of _ r1] None st by (cases st) (force simp: Let_def)+
  qed (use Cons.prems in auto)
qed auto

text \<open>The end of a connection frees its pair and keeps the invariants; a route of another session survives it.\<close>

lemma onConnStop_sessions:
  assumes "session_inv m" "onConnStop t c conn (m, reg) = (m', reg')"
  shows "session_inv m'" "online m' = spec_unbind (online m) conn"
  using assms session_inv_remove[OF assms(1), of conn] online_remove[OF assms(1), of conn]
  by (auto simp: onConnStop_def UnbindByConnID_def split: prod.splits)

lemma onConnStop_registry:
  assumes "session_inv m" "onConnStop t c conn (m, Some r) = (m', reg')" "registry_inv r" "t \<le> now"
    and "live r now k = Some e" "\<And>s. map_of (byConnID m) conn = Some s \<Longrightarrow> pair_of s = k \<Longrightarrow> ss_SessionID s \<noteq> re_SessionID e"
  shows "\<exists>r'. reg' = Some r' \<and> registry_inv r' \<and> live r' now k = Some e"
proof (cases "map_of (byConnID m) conn")
  case None
  then show ?thesis using assms by (auto simp: onConnStop_def UnbindByConnID_def removeConnLocked_def unbindClusterRoute_def)
next
  case (Some s)
  have f: "fst (UnbindByConnID m conn) = Some s" using removeConnLocked_eq(1)[OF assms(1)] Some by (simp add: UnbindByConnID_def)
  let ?o = "RUnbind t c (ss_ClientID s, ss_DeviceID s) (ss_SessionID s)"
  have "reg' = Some (registry_step ?o r)"
    using assms(2) f by (auto simp: onConnStop_def unbindClusterRoute_def split: prod.splits)
  moreover have "foreign now k (re_SessionID e) ?o" using assms(4,6) Some by (auto simp: pair_of_def)
  ultimately show ?thesis using foreign_step[OF assms(3) _ assms(5)] registry_inv_step[OF assms(3)] by blast
qed

end
