(* ===== verification/Pipeline.thy ===== *)
theory Pipeline
  imports Protocol Auth Quota Cluster_Routes Go_Strings
begin

text \<open>
  The ingress pipeline (\<^verbatim>\<open>src/internal/pipeline\<close>, assembled by \<^verbatim>\<open>newIngressPipeline\<close> of
  \<^verbatim>\<open>src/internal/server/gateway.go\<close>): authentication, the allow and block lists, the rate limit, the traffic
  policies, the binding of sessions and of cluster routes, run one after the other on the context of a packet.
  A handler returns \<open>None\<close> when it panics.  The token verifier is an argument, the text of an error its cause.
\<close>

section \<open>Context and errors\<close>

record pipeline_context =
  cx_Packet :: packet
  cx_ConnID :: "64 word"
  cx_Principal :: "principal option"
  cx_BindResult :: "bind_result option"
  cx_Session :: "session option"
  cx_RouteResolutionSet :: bool
  cx_RouteFound :: bool
  cx_RouteName :: string

text \<open>\<open>connID\<close> is what \<^verbatim>\<open>Context.ConnID\<close> returns for the request: zero without a connection.\<close>

definition NewContext :: "64 word \<Rightarrow> packet \<Rightarrow> pipeline_context" where
  "NewContext connID packet = \<lparr>cx_Packet = packet, cx_ConnID = connID, cx_Principal = None, cx_BindResult = None, cx_Session = None,
     cx_RouteResolutionSet = False, cx_RouteFound = False, cx_RouteName = ''''\<rparr>"

definition SetRouteResolution :: "string \<Rightarrow> bool \<Rightarrow> pipeline_context \<Rightarrow> pipeline_context" where
  "SetRouteResolution routeName found c = c\<lparr>cx_RouteResolutionSet := True, cx_RouteFound := found, cx_RouteName := routeName\<rparr>"

datatype pipeline_cause =
    Verifier_missing | Auth_failed auth_err | Empty_principal
  | Client_blocked string | Msg_blocked "32 word" | Client_not_allowed string | Msg_not_allowed "32 word"
  | Rate_misconfigured | Rate_exceeded string
  | Traffic_misconfigured | Traffic_unauthenticated | Policy_misconfigured string
  | Policy_rate_exceeded string | Policy_keys_exhausted string | Policy_unavailable string
  | Sessions_missing | Principal_missing | Session_failed session_err | Session_not_bound
  | Principal_mismatch | Device_mismatch | Session_mismatch
  | Registry_failed registry_err

record pipeline_error =
  px_Code :: string
  px_Reason :: string
  px_Err :: pipeline_cause

definition Reject :: "string \<Rightarrow> pipeline_cause \<Rightarrow> pipeline_error" where
  "Reject code err = \<lparr>px_Code = code, px_Reason = '''', px_Err = err\<rparr>"

definition RejectWithReason :: "string \<Rightarrow> string \<Rightarrow> pipeline_cause \<Rightarrow> pipeline_error" where
  "RejectWithReason code reason err = \<lparr>px_Code = code, px_Reason = reason, px_Err = err\<rparr>"

text \<open>\<open>text\<close> renders the cause as \<^verbatim>\<open>Error()\<close> does.\<close>

definition AckError :: "(pipeline_cause \<Rightarrow> string) \<Rightarrow> pipeline_error option \<Rightarrow> string \<times> string" where
  "AckError render err = (case err of None \<Rightarrow> (AckAccepted, '''')
     | Some e \<Rightarrow> if px_Reason e \<noteq> '''' then (px_Code e, px_Reason e) else (px_Code e, render (px_Err e)))"

section \<open>Authentication and policy\<close>

definition authAckCode :: "auth_err \<Rightarrow> string" where
  "authAckCode err = (case err of ErrProviderTimeout \<Rightarrow> AckAuthUnavailable | ErrProviderUnavailable \<Rightarrow> AckAuthUnavailable
     | ErrMisconfigured \<Rightarrow> AckRejected | _ \<Rightarrow> AckUnauthorized)"

text \<open>\<open>verify\<close> is the configured verifier, if there is one: its answer to the token of the packet.\<close>

definition auth_Handle :: "(string \<Rightarrow> verification) option \<Rightarrow> pipeline_context \<Rightarrow> pipeline_error option \<times> pipeline_context" where
  "auth_Handle verify c = (case verify of None \<Rightarrow> (Some (Reject AckUnauthorized Verifier_missing), c)
   | Some f \<Rightarrow> (case f (pkt_Token (cx_Packet c)) of
       (_, Some err) \<Rightarrow> (Some (Reject (authAckCode err) (Auth_failed err)), c)
     | (None, None) \<Rightarrow> (Some (Reject AckUnauthorized Empty_principal), c)
     | (Some p, None) \<Rightarrow> if pl_ClientID p = '''' then (Some (Reject AckUnauthorized Empty_principal), c)
         else (None, c\<lparr>cx_Principal := Some p\<rparr>)))"

record policy_config =
  pc_AllowClientIDs :: "string list"
  pc_BlockClientIDs :: "string list"
  pc_AllowMsgIDs :: "32 word list"
  pc_BlockMsgIDs :: "32 word list"

text \<open>A set of names or ids of the configuration, without the empty name and the id zero.\<close>

definition stringSet :: "string list \<Rightarrow> string set" where "stringSet vs = set (filter (\<lambda>v. v \<noteq> '''') vs)"
definition uint32Set :: "32 word list \<Rightarrow> 32 word set" where "uint32Set vs = set (filter (\<lambda>v. v \<noteq> 0) vs)"

definition effective_client :: "pipeline_context \<Rightarrow> string" where
  "effective_client c = (case cx_Principal c of Some p \<Rightarrow> if pl_ClientID p \<noteq> '''' then pl_ClientID p else pkt_ClientID (cx_Packet c)
     | None \<Rightarrow> pkt_ClientID (cx_Packet c))"

definition policy_Handle :: "policy_config \<Rightarrow> pipeline_context \<Rightarrow> pipeline_error option" where
  "policy_Handle h c = (let clientID = effective_client c; msgID = pkt_MsgID (cx_Packet c) in
     if clientID \<in> stringSet (pc_BlockClientIDs h) then Some (Reject AckRejected (Client_blocked clientID))
     else if msgID \<in> uint32Set (pc_BlockMsgIDs h) then Some (Reject AckRejected (Msg_blocked msgID))
     else if stringSet (pc_AllowClientIDs h) \<noteq> {} \<and> clientID \<notin> stringSet (pc_AllowClientIDs h)
     then Some (Reject AckRejected (Client_not_allowed clientID))
     else if uint32Set (pc_AllowMsgIDs h) \<noteq> {} \<and> msgID \<notin> uint32Set (pc_AllowMsgIDs h)
     then Some (Reject AckRejected (Msg_not_allowed msgID))
     else None)"

section \<open>The rate limit\<close>

record rate_limit_config =
  rc_Enabled :: bool
  rc_MaxRequests :: int
  rc_Window :: duration

record rate_bucket =
  rb_windowStart :: time
  rb_count :: int

definition rateLimitKey :: "pipeline_context \<Rightarrow> string" where
  "rateLimitKey c = (case cx_Principal c of Some p \<Rightarrow>
       if pl_ClientID p \<noteq> '''' then ''client:'' @ pl_ClientID p
       else if pkt_ClientID (cx_Packet c) \<noteq> '''' then ''client:'' @ pkt_ClientID (cx_Packet c) else ''conn:'' @ dec_nat (unat (cx_ConnID c))
     | None \<Rightarrow> if pkt_ClientID (cx_Packet c) \<noteq> '''' then ''client:'' @ pkt_ClientID (cx_Packet c) else ''conn:'' @ dec_nat (unat (cx_ConnID c)))"

definition rate_Handle :: "rate_limit_config \<Rightarrow> time \<Rightarrow> pipeline_context \<Rightarrow> (string, rate_bucket) gomap
    \<Rightarrow> pipeline_error option \<times> (string, rate_bucket) gomap" where
  "rate_Handle h now c buckets =
    (if \<not> rc_Enabled h then (None, buckets)
     else if rc_MaxRequests h \<le> 0 \<or> rc_Window h \<le> 0 then (Some (Reject AckRejected Rate_misconfigured), buckets)
     else let key = rateLimitKey c;
              bucket = (case map_of buckets key of None \<Rightarrow> \<lparr>rb_windowStart = 0, rb_count = 0\<rparr> | Some b \<Rightarrow> b);
              bucket = (if is_zero (rb_windowStart bucket) \<or> rc_Window h \<le> time_sub now (rb_windowStart bucket)
                then \<lparr>rb_windowStart = now, rb_count = 0\<rparr> else bucket);
              bucket = bucket\<lparr>rb_count := wrap_int64 (rb_count bucket + 1)\<rparr>;
              buckets = put key bucket buckets in
     if rc_MaxRequests h < rb_count bucket
     then (Some (RejectWithReason AckRejected ReasonRateLimited (Rate_exceeded key)), buckets) else (None, buckets))"

section \<open>Traffic policies\<close>

text \<open>
  \<open>admit\<close> is \<^verbatim>\<open>QuotaStore.Admit\<close> on a state \<open>'s\<close>, with \<open>True\<close> for an error; \<open>clocks\<close> are the readings of \<^verbatim>\<open>recordDecision\<close>.
\<close>

type_synonym 's quota_store = "quota_request \<Rightarrow> 's \<times> policy_runtime option \<Rightarrow> ((quota_decision \<times> bool) \<times> 's \<times> policy_runtime option) option"

definition traffic_selection :: "traffic_policy_selector \<Rightarrow> principal \<Rightarrow> pipeline_context \<Rightarrow> traffic_policy_selection option" where
  "traffic_selection selector p c = (if cx_RouteResolutionSet c
     then SelectResolved selector (pl_ClientID p) (pkt_MsgID (cx_Packet c)) (cx_RouteName c) (cx_RouteFound c)
     else Select_policy selector (pl_ClientID p) (pkt_MsgID (cx_Packet c)))"

definition decision_error :: "string \<Rightarrow> quota_decision \<Rightarrow> pipeline_error option" where
  "decision_error name d = (if d = QuotaDecisionAllowed then None
     else if d = QuotaDecisionRateLimited then Some (RejectWithReason AckRejected ReasonRateLimited (Policy_rate_exceeded name))
     else if d = QuotaDecisionOverloaded then Some (RejectWithReason AckRejected ReasonOverloaded (Policy_keys_exhausted name))
     else Some (RejectWithReason AckRejected ReasonAdmissionUnavailable (Policy_unavailable name)))"

definition traffic_Handle :: "traffic_policy_selector option \<Rightarrow> 's quota_store option \<Rightarrow> time \<times> time \<Rightarrow> pipeline_context
    \<Rightarrow> 's \<times> policy_runtime option \<Rightarrow> (pipeline_error option \<times> 's \<times> policy_runtime option) option" where
  "traffic_Handle selector admit clocks c sr = (case (selector, admit) of
     (Some sel, Some adm) \<Rightarrow> (case cx_Principal c of
        None \<Rightarrow> Some (Some (Reject AckUnauthorized Traffic_unauthenticated), sr)
      | Some p \<Rightarrow> if pl_ClientID p = '''' then Some (Some (Reject AckUnauthorized Traffic_unauthenticated), sr)
        else (case traffic_selection sel p c of
            None \<Rightarrow> Some (None, fst sr, map_option recordNoMatch (snd sr))
          | Some policy \<Rightarrow>
            let sr = (fst sr, map_option (recordSelection (tl_Name policy)) (snd sr)); tb = tl_TokenBucket policy in
            if tl_Key policy \<noteq> TrafficPolicyKeyClientID \<or> tb_Capacity tb \<le> 0 \<or> tb_RefillTokens tb \<le> 0 \<or> tb_RefillInterval tb \<le> 0
            then Some (Some (Reject AckRejected (Policy_misconfigured (tl_Name policy))), sr)
            else (case adm \<lparr>qr_PolicyName = tl_Name policy, qr_KeyScope = tl_Key policy, qr_KeyValue = pl_ClientID p, qr_TokenBucket = tb\<rparr> sr of
                None \<Rightarrow> None
              | Some ((d, failed), s, runtime) \<Rightarrow>
                let d = normalizedQuotaDecision (if failed then QuotaDecisionAdmissionUnavailable else d)
                in Some (decision_error (tl_Name policy) d, s, map_option (recordDecision (fst clocks) (snd clocks) (tl_Name policy) d) runtime))))
   | _ \<Rightarrow> Some (Some (Reject AckRejected Traffic_misconfigured), sr))"

section \<open>Sessions and cluster routes\<close>

definition handleBoundPacket :: "time \<Rightarrow> time \<Rightarrow> principal \<Rightarrow> pipeline_context \<Rightarrow> manager \<Rightarrow> (pipeline_error option \<times> pipeline_context) \<times> manager" where
  "handleBoundPacket clock now p c m = (case TouchByConnID clock m (cx_ConnID c) now of
     (Inl ErrSessionNotFound, m) \<Rightarrow> ((Some (Reject AckRejected Session_not_bound), c), m)
   | (Inl err, m) \<Rightarrow> ((Some (Reject AckRejected (Session_failed err)), c), m)
   | (Inr found, m) \<Rightarrow>
       let pkt = cx_Packet c in
       if ss_ClientID found \<noteq> pl_ClientID p then ((Some (Reject AckUnauthorized Principal_mismatch), c), m)
       else if pkt_DeviceID pkt \<noteq> '''' \<and> pkt_DeviceID pkt \<noteq> ss_DeviceID found then ((Some (Reject AckRejected Device_mismatch), c), m)
       else if pkt_SessionID pkt \<noteq> '''' \<and> pkt_SessionID pkt \<noteq> ss_SessionID found then ((Some (Reject AckRejected Session_mismatch), c), m)
       else ((None, c\<lparr>cx_Packet := pkt\<lparr>pkt_ClientID := ss_ClientID found, pkt_DeviceID := ss_DeviceID found, pkt_SessionID := ss_SessionID found\<rparr>,
              cx_Session := Some found\<rparr>), m))"

text \<open>\<open>clock\<close> is the reading inside the manager, \<open>now\<close> the handler's own, \<open>new_id\<close> the id of a new session.\<close>

definition session_Handle :: "string \<Rightarrow> time \<Rightarrow> time \<Rightarrow> string \<Rightarrow> pipeline_context \<Rightarrow> manager option
    \<Rightarrow> (pipeline_error option \<times> pipeline_context) \<times> manager option" where
  "session_Handle gatewayNode clock now new_id c sessions = (case sessions of
     None \<Rightarrow> ((Some (Reject AckRejected Sessions_missing), c), None)
   | Some m \<Rightarrow> (case cx_Principal c of
       None \<Rightarrow> ((Some (Reject AckUnauthorized Principal_missing), c), Some m)
     | Some p \<Rightarrow>
       if pkt_MsgID (cx_Packet c) \<noteq> MsgIDBind then (case handleBoundPacket clock now p c m of (r, m) \<Rightarrow> (r, Some m))
       else (case Bind clock new_id m \<lparr>bi_SessionID = '''', bi_ConnID = cx_ConnID c, bi_ClientID = pl_ClientID p,
                bi_DeviceID = pkt_DeviceID (cx_Packet c), bi_TokenID = pl_TokenID p, bi_GatewayNode = gatewayNode, bi_Now = 0\<rparr> of
           (Inl err, m) \<Rightarrow> ((Some (Reject AckRejected (Session_failed err)), c), Some m)
         | (Inr r, m) \<Rightarrow>
             ((None, c\<lparr>cx_Packet := (cx_Packet c)\<lparr>pkt_ClientID := ss_ClientID (br_Session r), pkt_SessionID := ss_SessionID (br_Session r)\<rparr>,
                cx_BindResult := Some r, cx_Session := Some (br_Session r)\<rparr>), Some m))))"

definition cluster_Handle :: "string \<Rightarrow> string \<Rightarrow> time \<Rightarrow> ctx \<Rightarrow> pipeline_context \<Rightarrow> memory_registry option \<Rightarrow> pipeline_error option \<times> memory_registry option" where
  "cluster_Handle gatewayNode internalAddr clock cx c registry = (case (registry, cx_BindResult c) of
     (Some reg, Some r) \<Rightarrow>
       let entry = routeEntryFromSession (br_Session r) internalAddr;
           entry = (if re_GatewayNode entry = '''' then entry\<lparr>re_GatewayNode := gatewayNode\<rparr> else entry) in
       (case RegistryBind clock cx reg entry of
          (Some err, reg) \<Rightarrow> (Some (Reject AckRejected (Registry_failed err)), Some reg)
        | (None, reg) \<Rightarrow> (None, Some reg))
   | _ \<Rightarrow> (None, registry))"

section \<open>The chain\<close>

record 's pipeline_state =
  pi_rate :: "(string, rate_bucket) gomap"
  pi_quota :: "'s \<times> policy_runtime option"
  pi_sessions :: "manager option"
  pi_registry :: "memory_registry option"

text \<open>The configuration of the handlers, and the readings one packet's run takes.\<close>

record 's pipeline_config =
  pg_verify :: "(string \<Rightarrow> verification) option"
  pg_policy :: policy_config
  pg_rate :: rate_limit_config
  pg_traffic :: "(traffic_policy_selector option \<times> 's quota_store option) option"
  pg_gatewayNode :: string
  pg_internalAddr :: string

record pipeline_env =
  en_rateNow :: time
  en_clocks :: "time \<times> time"
  en_sessionClock :: time
  en_now :: time
  en_new_id :: string
  en_registryClock :: time
  en_ctx :: ctx

type_synonym 's handler = "pipeline_context \<Rightarrow> 's pipeline_state \<Rightarrow> ((pipeline_error option \<times> pipeline_context) \<times> 's pipeline_state) option"

fun chain_Run :: "'s handler list \<Rightarrow> 's handler" where
  "chain_Run [] c st = Some ((None, c), st)"
| "chain_Run (h # hs) c st = (case h c st of None \<Rightarrow> None
   | Some ((Some err, c), st) \<Rightarrow> Some ((Some err, c), st)
   | Some ((None, c), st) \<Rightarrow> chain_Run hs c st)"

text \<open>
  The handlers of \<^verbatim>\<open>newIngressPipeline\<close> in their order.  Without traffic policies the handler is a nil pointer, which lets every
  packet pass; without a registry \<^verbatim>\<open>NewChain\<close> drops the cluster handler, which then would let every packet pass as well;
  the access log at the end only logs.
\<close>

definition newIngressPipeline :: "'s pipeline_config \<Rightarrow> pipeline_env \<Rightarrow> 's handler list" where
  "newIngressPipeline g E = [
     \<lambda>c st. Some (auth_Handle (pg_verify g) c, st),
     \<lambda>c st. Some ((policy_Handle (pg_policy g) c, c), st),
     \<lambda>c st. (case rate_Handle (pg_rate g) (en_rateNow E) c (pi_rate st) of (e, bs) \<Rightarrow> Some ((e, c), st\<lparr>pi_rate := bs\<rparr>)),
     \<lambda>c st. (case pg_traffic g of None \<Rightarrow> Some ((None, c), st)
        | Some (sel, adm) \<Rightarrow> (case traffic_Handle sel adm (en_clocks E) c (pi_quota st) of None \<Rightarrow> None
          | Some (e, sr) \<Rightarrow> Some ((e, c), st\<lparr>pi_quota := sr\<rparr>))),
     \<lambda>c st. (case session_Handle (pg_gatewayNode g) (en_sessionClock E) (en_now E) (en_new_id E) c (pi_sessions st) of
        (r, ms) \<Rightarrow> Some (r, st\<lparr>pi_sessions := ms\<rparr>)),
     \<lambda>c st. (case cluster_Handle (pg_gatewayNode g) (pg_internalAddr g) (en_registryClock E) (en_ctx E) c (pi_registry st) of
        (e, reg) \<Rightarrow> Some ((e, c), st\<lparr>pi_registry := reg\<rparr>))]"

section \<open>What an accepted packet carries\<close>

lemma chain_accepts:
  assumes "chain_Run (h # hs) c st = Some ((None, c'), st')"
  obtains c1 st1 where "h c st = Some ((None, c1), st1)" "chain_Run hs c1 st1 = Some ((None, c'), st')"
  using assms by (auto split: option.splits)

lemma auth_accepts:
  assumes "auth_Handle v c = (None, c')"
  obtains f p where "v = Some f" "f (pkt_Token (cx_Packet c)) = (Some p, None)" "pl_ClientID p \<noteq> ''''" "c' = c\<lparr>cx_Principal := Some p\<rparr>"
  using assms by (auto simp: auth_Handle_def split: option.splits prod.splits if_splits)

lemma policy_accepts:
  assumes "policy_Handle h c = None"
  shows "effective_client c \<notin> stringSet (pc_BlockClientIDs h)" "pkt_MsgID (cx_Packet c) \<notin> uint32Set (pc_BlockMsgIDs h)"
    "stringSet (pc_AllowClientIDs h) = {} \<or> effective_client c \<in> stringSet (pc_AllowClientIDs h)"
    "uint32Set (pc_AllowMsgIDs h) = {} \<or> pkt_MsgID (cx_Packet c) \<in> uint32Set (pc_AllowMsgIDs h)"
  using assms by (auto simp: policy_Handle_def Let_def split: if_splits)

definition same_session :: "session \<Rightarrow> session \<Rightarrow> bool" where
  "same_session s t \<longleftrightarrow> pair_of s = pair_of t \<and> ss_SessionID s = ss_SessionID t \<and> ss_ConnID s = ss_ConnID t"

text \<open>The packet as the pipeline rewrites it: the identity is the session's.\<close>

definition owned_by :: "session \<Rightarrow> packet \<Rightarrow> packet" where
  "owned_by s p = p\<lparr>pkt_ClientID := ss_ClientID s, pkt_DeviceID := ss_DeviceID s, pkt_SessionID := ss_SessionID s\<rparr>"

lemma bound_accepts:
  assumes m: "session_inv m" and h: "handleBoundPacket clock now p c m = ((None, c'), m')"
  obtains s s0 where "session_inv m'" "map_of (byConnID m') (cx_ConnID c) = Some s" "map_of (byConnID m) (cx_ConnID c) = Some s0" "same_session s s0"
    "ss_ClientID s = pl_ClientID p" "c' = c\<lparr>cx_Packet := owned_by s (cx_Packet c), cx_Session := Some s\<rparr>"
    "pkt_DeviceID (cx_Packet c) \<in> {'''', ss_DeviceID s}" "pkt_SessionID (cx_Packet c) \<in> {'''', ss_SessionID s}"
proof -
  obtain s where t: "TouchByConnID clock m (cx_ConnID c) now = (Inr s, m')"
    and f: "ss_ClientID s = pl_ClientID p" "c' = c\<lparr>cx_Packet := owned_by s (cx_Packet c), cx_Session := Some s\<rparr>"
      "pkt_DeviceID (cx_Packet c) \<in> {'''', ss_DeviceID s}" "pkt_SessionID (cx_Packet c) \<in> {'''', ss_SessionID s}"
    using h by (auto simp: handleBoundPacket_def owned_by_def Let_def split: prod.splits sum.splits session_err.splits if_splits)
  obtain s0 where "map_of (byConnID m) (cx_ConnID c) = Some s0" "map_of (byConnID m') (cx_ConnID c) = Some s" "same_session s s0"
    using t by (auto simp: TouchByConnID_def Let_def same_session_def pair_of_def split: option.splits)
  then show ?thesis using that[OF TouchByConnID_correct(1)[OF m t] _ _ _ f] by blast
qed

lemma session_accepts:
  assumes m: "session_inv m" and p: "cx_Principal c = Some p" and h: "session_Handle node clock now new_id c (Some m) = ((None, c'), ms)"
  obtains m' s where "ms = Some m'" "session_inv m'" "map_of (byConnID m') (cx_ConnID c) = Some s" "ss_ClientID s = pl_ClientID p"
    "cx_Session c' = Some s" "cx_Packet c' = owned_by s (cx_Packet c)"
    "pkt_MsgID (cx_Packet c) \<noteq> MsgIDBind \<longrightarrow> cx_BindResult c' = cx_BindResult c \<and> (\<exists>s0. map_of (byConnID m) (cx_ConnID c) = Some s0 \<and> same_session s s0)
       \<and> pkt_DeviceID (cx_Packet c) \<in> {'''', ss_DeviceID s} \<and> pkt_SessionID (cx_Packet c) \<in> {'''', ss_SessionID s}"
    "pkt_MsgID (cx_Packet c) = MsgIDBind \<longrightarrow> pkt_DeviceID (cx_Packet c) = ss_DeviceID s \<and> map_option br_Session (cx_BindResult c') = Some s"
proof (cases "pkt_MsgID (cx_Packet c) = MsgIDBind")
  case False
  then obtain m' where ms: "ms = Some m'" and b: "handleBoundPacket clock now p c m = ((None, c'), m')"
    using h p by (auto simp: session_Handle_def split: prod.splits)
  from bound_accepts[OF m b] obtain s s0 where "session_inv m'" "map_of (byConnID m') (cx_ConnID c) = Some s"
    "map_of (byConnID m) (cx_ConnID c) = Some s0" "same_session s s0" "ss_ClientID s = pl_ClientID p"
    "c' = c\<lparr>cx_Packet := owned_by s (cx_Packet c), cx_Session := Some s\<rparr>"
    "pkt_DeviceID (cx_Packet c) \<in> {'''', ss_DeviceID s}" "pkt_SessionID (cx_Packet c) \<in> {'''', ss_SessionID s}" .
  then show ?thesis using False by (intro that[of m' s] ms) auto
next
  case True
  define i where "i = \<lparr>bi_SessionID = '''', bi_ConnID = cx_ConnID c, bi_ClientID = pl_ClientID p,
                bi_DeviceID = pkt_DeviceID (cx_Packet c), bi_TokenID = pl_TokenID p, bi_GatewayNode = node, bi_Now = 0\<rparr>"
  obtain r m' where b: "Bind clock new_id m i = (Inr r, m')" and ms: "ms = Some m'"
    and c': "c' = c\<lparr>cx_Packet := (cx_Packet c)\<lparr>pkt_ClientID := ss_ClientID (br_Session r), pkt_SessionID := ss_SessionID (br_Session r)\<rparr>,
        cx_BindResult := Some r, cx_Session := Some (br_Session r)\<rparr>"
    using h p True by (auto simp: session_Handle_def i_def split: prod.splits sum.splits)
  note B = Bind_correct[OF m b]
  have pair: "ss_ClientID (br_Session r) = pl_ClientID p" "ss_DeviceID (br_Session r) = pkt_DeviceID (cx_Packet c)" "ss_ConnID (br_Session r) = cx_ConnID c"
    using B(4,5) by (simp_all add: i_def pair_of_def)
  have "online m' (pair_of (br_Session r)) = Some (br_Session r)" by (simp add: B(2) spec_bind_def)
  then have s: "map_of (byConnID m') (cx_ConnID c) = Some (br_Session r)" using online_Some[OF B(1)] pair(3) by simp
  show ?thesis
    by (rule that[OF ms B(1) s pair(1)]) (use True pair in \<open>simp_all add: c' owned_by_def\<close>)
qed

lemma pipeline_accepts:
  assumes "chain_Run (newIngressPipeline g E) c st = Some ((None, c'), st')" "pi_sessions st = ms"
  obtains f p where "pg_verify g = Some f" "f (pkt_Token (cx_Packet c)) = (Some p, None)" "pl_ClientID p \<noteq> ''''"
    "policy_Handle (pg_policy g) (c\<lparr>cx_Principal := Some p\<rparr>) = None"
    "session_Handle (pg_gatewayNode g) (en_sessionClock E) (en_now E) (en_new_id E) (c\<lparr>cx_Principal := Some p\<rparr>) ms = ((None, c'), pi_sessions st')"
  using assms unfolding newIngressPipeline_def
  by (elim chain_accepts) (auto elim!: auth_accepts split: prod.splits option.splits)

text \<open>The facts of an accepted packet that the rest of the gateway relies on.\<close>

lemma accepted_facts:
  assumes run: "chain_Run (newIngressPipeline g E) c st = Some ((None, c'), st')"
    and m: "pi_sessions st = Some m" "session_inv m" and b: "cx_BindResult c = None"
  obtains f p m' s where "pg_verify g = Some f" "f (pkt_Token (cx_Packet c)) = (Some p, None)"
    "pi_sessions st' = Some m'" "session_inv m'" "map_of (byConnID m') (cx_ConnID c) = Some s" "ss_ClientID s = pl_ClientID p"
    "cx_Session c' = Some s" "cx_Packet c' = owned_by s (cx_Packet c)" "cx_BindResult c' = None \<or> map_option br_Session (cx_BindResult c') = Some s"
    "pkt_MsgID (cx_Packet c) \<noteq> MsgIDBind \<longrightarrow> cx_BindResult c' = None"
proof -
  from run m(1) obtain f p where auth: "pg_verify g = Some f" "f (pkt_Token (cx_Packet c)) = (Some p, None)"
    and sess: "session_Handle (pg_gatewayNode g) (en_sessionClock E) (en_now E) (en_new_id E) (c\<lparr>cx_Principal := Some p\<rparr>) (Some m) = ((None, c'), pi_sessions st')"
    by (rule pipeline_accepts)
  let ?c = "c\<lparr>cx_Principal := Some p\<rparr>"
  have "cx_Principal ?c = Some p" by simp
  from m(2) this sess obtain m' s where S: "pi_sessions st' = Some m'" "session_inv m'" "map_of (byConnID m') (cx_ConnID ?c) = Some s"
    "ss_ClientID s = pl_ClientID p" "cx_Session c' = Some s" "cx_Packet c' = owned_by s (cx_Packet ?c)"
    "pkt_MsgID (cx_Packet ?c) \<noteq> MsgIDBind \<longrightarrow> cx_BindResult c' = cx_BindResult ?c \<and> (\<exists>s0. map_of (byConnID m) (cx_ConnID ?c) = Some s0 \<and> same_session s s0)
       \<and> pkt_DeviceID (cx_Packet ?c) \<in> {'''', ss_DeviceID s} \<and> pkt_SessionID (cx_Packet ?c) \<in> {'''', ss_SessionID s}"
    "pkt_MsgID (cx_Packet ?c) = MsgIDBind \<longrightarrow> pkt_DeviceID (cx_Packet ?c) = ss_DeviceID s \<and> map_option br_Session (cx_BindResult c') = Some s"
    by (rule session_accepts)
  show ?thesis by (rule that[OF auth S(1,2) _ S(4,5)]) (use S b in auto)
qed

text \<open>A rejection never carries the code of an acceptance.\<close>

lemma ack_codes: "AckRejected \<noteq> AckAccepted" "AckUnauthorized \<noteq> AckAccepted" "AckAuthUnavailable \<noteq> AckAccepted" "AckDecodeFailed \<noteq> AckAccepted"
  by (simp_all add: AckRejected_def AckAccepted_def AckUnauthorized_def AckAuthUnavailable_def AckDecodeFailed_def)

lemmas reject_defs = Reject_def RejectWithReason_def authAckCode_def

lemma handler_codes:
  "auth_Handle v c = (Some e, c1) \<Longrightarrow> px_Code e \<noteq> AckAccepted"
  "policy_Handle h c = Some e \<Longrightarrow> px_Code e \<noteq> AckAccepted"
  "rate_Handle r t c bs = (Some e, bs') \<Longrightarrow> px_Code e \<noteq> AckAccepted"
  "traffic_Handle sel adm cl c sr = Some (Some e, sr') \<Longrightarrow> px_Code e \<noteq> AckAccepted"
  "session_Handle n t t' i c ms = ((Some e, c1), ms') \<Longrightarrow> px_Code e \<noteq> AckAccepted"
  "cluster_Handle n a t x c reg = (Some e, reg') \<Longrightarrow> px_Code e \<noteq> AckAccepted"
proof -
  show "auth_Handle v c = (Some e, c1) \<Longrightarrow> px_Code e \<noteq> AckAccepted"
    by (auto simp: auth_Handle_def reject_defs ack_codes split: option.splits prod.splits if_splits auth_err.splits)
  show "policy_Handle h c = Some e \<Longrightarrow> px_Code e \<noteq> AckAccepted"
    by (auto simp: policy_Handle_def reject_defs ack_codes Let_def split: if_splits)
  show "rate_Handle r t c bs = (Some e, bs') \<Longrightarrow> px_Code e \<noteq> AckAccepted"
    by (auto simp: rate_Handle_def reject_defs ack_codes Let_def split: if_splits)
  show "traffic_Handle sel adm cl c sr = Some (Some e, sr') \<Longrightarrow> px_Code e \<noteq> AckAccepted"
    by (auto simp: traffic_Handle_def decision_error_def reject_defs ack_codes Let_def split: option.splits prod.splits if_splits)
  show "session_Handle n t t' i c ms = ((Some e, c1), ms') \<Longrightarrow> px_Code e \<noteq> AckAccepted"
    by (auto simp: session_Handle_def handleBoundPacket_def reject_defs ack_codes Let_def
        split: option.splits prod.splits if_splits sum.splits session_err.splits)
  show "cluster_Handle n a t x c reg = (Some e, reg') \<Longrightarrow> px_Code e \<noteq> AckAccepted"
    by (auto simp: cluster_Handle_def reject_defs ack_codes Let_def split: option.splits prod.splits)
qed

lemma chain_rejects:
  assumes "chain_Run hs c st = Some ((Some e, c'), st')"
  shows "\<exists>h c1 st1. h \<in> set hs \<and> h c1 st1 = Some ((Some e, c'), st')"
  using assms
proof (induction hs arbitrary: c st)
  case (Cons h hs)
  then obtain e1 c1 st1 where h: "h c st = Some ((e1, c1), st1)" by (auto split: option.splits)
  show ?case
  proof (cases e1)
    case None
    then have "chain_Run hs c1 st1 = Some ((Some e, c'), st')" using Cons.prems h by simp
    from Cons.IH[OF this] show ?thesis by auto
  next
    case (Some e2)
    then have "h c st = Some ((Some e, c'), st')" using Cons.prems h by simp
    then show ?thesis by auto
  qed
qed simp

lemma handler_code:
  "h \<in> set (newIngressPipeline g E) \<Longrightarrow> h c st = Some ((Some e, c'), st') \<Longrightarrow> px_Code e \<noteq> AckAccepted"
  by (auto simp: newIngressPipeline_def dest: handler_codes split: option.splits prod.splits)

lemma rejection_code: "chain_Run (newIngressPipeline g E) c st = Some ((Some e, c'), st') \<Longrightarrow> px_Code e \<noteq> AckAccepted"
  using chain_rejects handler_code by metis

text \<open>Whatever the outcome, the session manager keeps its invariant.\<close>

lemma session_Handle_inv:
  assumes m: "session_inv m" and h: "session_Handle node clock now new_id c (Some m) = ((e, c'), ms)"
  shows "\<exists>m'. ms = Some m' \<and> session_inv m'"
proof -
  have b: "session_inv m'" if "Bind clock new_id m i = (x, m')" for i x m'
    using that Bind_correct(1)[OF m] Bind_Inl[of clock new_id m i _ m'] m by (cases x) auto
  have t: "session_inv m'" if "handleBoundPacket clock now p c m = ((a, b), m')" for p a b m'
    using that TouchByConnID_correct(1)[OF m, of clock "cx_ConnID c" now] TouchByConnID_Inl[of clock m "cx_ConnID c" now] m
    by (auto simp: handleBoundPacket_def Let_def split: prod.splits sum.splits session_err.splits if_splits)
  show ?thesis
    using h m b t by (auto simp: session_Handle_def split: option.splits prod.splits sum.splits if_splits)
qed

definition keeps_sessions :: "'s handler \<Rightarrow> bool" where
  "keeps_sessions h \<longleftrightarrow> (\<forall>c st e c' st' m. h c st = Some ((e, c'), st') \<longrightarrow> pi_sessions st = Some m \<longrightarrow> session_inv m
     \<longrightarrow> (\<exists>m'. pi_sessions st' = Some m' \<and> session_inv m'))"

lemma keeps_sessionsD:
  "keeps_sessions h \<Longrightarrow> h c st = Some ((e, c'), st') \<Longrightarrow> pi_sessions st = Some m \<Longrightarrow> session_inv m
    \<Longrightarrow> \<exists>m'. pi_sessions st' = Some m' \<and> session_inv m'"
  unfolding keeps_sessions_def by blast

lemma chain_sessions: "\<forall>h \<in> set hs. keeps_sessions h \<Longrightarrow> keeps_sessions (chain_Run hs)"
proof (induction hs)
  case (Cons h hs)
  show ?case unfolding keeps_sessions_def
  proof (intro allI impI)
    fix c st e c' st' m
    assume run: "chain_Run (h # hs) c st = Some ((e, c'), st')" and m: "pi_sessions st = Some m" "session_inv m"
    obtain e1 c1 st1 where h: "h c st = Some ((e1, c1), st1)" using run by (auto split: option.splits)
    obtain m1 where m1: "pi_sessions st1 = Some m1" "session_inv m1" using keeps_sessionsD[of h c st e1 c1 st1 m] h m Cons.prems by auto
    show "\<exists>m'. pi_sessions st' = Some m' \<and> session_inv m'"
    proof (cases e1)
      case None
      then have "chain_Run hs c1 st1 = Some ((e, c'), st')" using run h by simp
      then show ?thesis using keeps_sessionsD[of "chain_Run hs" c1 st1 e c' st' m1] m1 Cons by auto
    qed (use run h m1 in auto)
  qed
qed (simp add: keeps_sessions_def)

lemma pipeline_sessions: "keeps_sessions (chain_Run (newIngressPipeline g E))"
proof (rule chain_sessions, intro ballI)
  fix h assume "h \<in> set (newIngressPipeline g E)"
  then show "keeps_sessions h"
    unfolding newIngressPipeline_def list.set insert_iff empty_iff simp_thms keeps_sessions_def
    by (elim disjE; clarsimp split: option.splits prod.splits) (metis session_Handle_inv)
qed

section \<open>Properties\<close>

text \<open>
  C3.  A packet that passes the ingress pipeline (\<^verbatim>\<open>newIngressPipeline\<close>, \<^verbatim>\<open>src/internal/server/gateway.go\<close>, and the
  handlers of \<^verbatim>\<open>src/internal/pipeline\<close>) speaks for the client its token names and for no other.  The verifier
  accepted the token for a principal that no list excludes; the connection holds a session of that client, recorded in
  the session manager, whose invariant is kept; the packet leaves with the client, device and session of that session
  in place of what the sender claimed and is otherwise unchanged.  Any packet but a bind is accepted only on a connection that
  was bound before, and only if the device and the session it claims, where it claims any, are those of that session.
\<close>

theorem accepted_identity:
  assumes run: "chain_Run (newIngressPipeline g E) c st = Some ((None, c'), st')"
    and m: "pi_sessions st = Some m" "session_inv m"
  shows "\<exists>f p m' s. pg_verify g = Some f \<and> f (pkt_Token (cx_Packet c)) = (Some p, None)
    \<and> pl_ClientID p \<notin> stringSet (pc_BlockClientIDs (pg_policy g)) \<and> pkt_MsgID (cx_Packet c) \<notin> uint32Set (pc_BlockMsgIDs (pg_policy g))
    \<and> pi_sessions st' = Some m' \<and> session_inv m' \<and> map_of (byConnID m') (cx_ConnID c) = Some s
    \<and> ss_ClientID s = pl_ClientID p \<and> cx_Session c' = Some s \<and> cx_Packet c' = owned_by s (cx_Packet c)
    \<and> (pkt_MsgID (cx_Packet c) \<noteq> MsgIDBind \<longrightarrow> (\<exists>s0. map_of (byConnID m) (cx_ConnID c) = Some s0 \<and> same_session s s0)
         \<and> pkt_DeviceID (cx_Packet c) \<in> {'''', ss_DeviceID s} \<and> pkt_SessionID (cx_Packet c) \<in> {'''', ss_SessionID s})"
proof -
  from run obtain f p where auth: "pg_verify g = Some f" "f (pkt_Token (cx_Packet c)) = (Some p, None)" "pl_ClientID p \<noteq> ''''"
    and pol: "policy_Handle (pg_policy g) (c\<lparr>cx_Principal := Some p\<rparr>) = None"
    and sess: "session_Handle (pg_gatewayNode g) (en_sessionClock E) (en_now E) (en_new_id E) (c\<lparr>cx_Principal := Some p\<rparr>) (Some m) = ((None, c'), pi_sessions st')"
    using m(1) by (rule pipeline_accepts)
  let ?c = "c\<lparr>cx_Principal := Some p\<rparr>"
  have "cx_Principal ?c = Some p" by simp
  from m(2) this sess obtain m' s where S: "pi_sessions st' = Some m'" "session_inv m'" "map_of (byConnID m') (cx_ConnID ?c) = Some s"
    "ss_ClientID s = pl_ClientID p" "cx_Session c' = Some s" "cx_Packet c' = owned_by s (cx_Packet ?c)"
    and bound: "pkt_MsgID (cx_Packet ?c) \<noteq> MsgIDBind \<longrightarrow> cx_BindResult c' = cx_BindResult ?c \<and> (\<exists>s0. map_of (byConnID m) (cx_ConnID ?c) = Some s0 \<and> same_session s s0)
       \<and> pkt_DeviceID (cx_Packet ?c) \<in> {'''', ss_DeviceID s} \<and> pkt_SessionID (cx_Packet ?c) \<in> {'''', ss_SessionID s}"
    by (rule session_accepts)
  have "effective_client ?c = pl_ClientID p" using auth(3) by (simp add: effective_client_def)
  then show ?thesis using auth policy_accepts[OF pol] S bound by (intro exI[of _ f] exI[of _ p] exI[of _ m'] exI[of _ s]) simp
qed

definition sample_pipeline :: "unit pipeline_config" where
  "sample_pipeline = \<lparr>pg_verify = Some (static_Verify [(''k'', sample_principal)]),
     pg_policy = \<lparr>pc_AllowClientIDs = [], pc_BlockClientIDs = [''mallory''], pc_AllowMsgIDs = [], pc_BlockMsgIDs = []\<rparr>,
     pg_rate = \<lparr>rc_Enabled = False, rc_MaxRequests = 0, rc_Window = 0\<rparr>, pg_traffic = None, pg_gatewayNode = ''n'', pg_internalAddr = ''a''\<rparr>"

definition sample_pipeline_env :: pipeline_env where
  "sample_pipeline_env = \<lparr>en_rateNow = 9, en_clocks = (9, 9), en_sessionClock = 9, en_now = 9, en_new_id = ''s1'', en_registryClock = 9, en_ctx = None\<rparr>"

definition sample_pipeline_state :: "unit pipeline_state" where
  "sample_pipeline_state = \<lparr>pi_rate = [], pi_quota = ((), None), pi_sessions = Some NewManager, pi_registry = None\<rparr>"

text \<open>A bind that claims to come from \<open>mallory\<close>, with the token of \<open>alice\<close>.\<close>

definition sample_bind_context :: pipeline_context where
  "sample_bind_context = NewContext 7 ((NewPacket MsgIDBind [])\<lparr>pkt_Token := ''k'', pkt_ClientID := ''mallory'', pkt_DeviceID := ''d''\<rparr>)"

lemma sample_pipeline_run:
  obtains c' st' where "chain_Run (newIngressPipeline sample_pipeline sample_pipeline_env) sample_bind_context sample_pipeline_state = Some ((None, c'), st')"
  by (simp add: newIngressPipeline_def sample_pipeline_def sample_pipeline_env_def sample_bind_context_def sample_pipeline_state_def
      auth_Handle_def static_Verify_def sample_principal_def policy_Handle_def effective_client_def stringSet_def uint32Set_def rate_Handle_def
      session_Handle_def cluster_Handle_def Bind_def bind_new_def removeConnLocked_def NewManager_def NewContext_def NewPacket_def is_zero_def Let_def)

theorem accepted_identity_witness:
  "\<exists>c' st'. chain_Run (newIngressPipeline sample_pipeline sample_pipeline_env) sample_bind_context sample_pipeline_state = Some ((None, c'), st')
     \<and> pkt_ClientID (cx_Packet c') = ''alice''"
proof -
  obtain c' st' where run: "chain_Run (newIngressPipeline sample_pipeline sample_pipeline_env) sample_bind_context sample_pipeline_state = Some ((None, c'), st')"
    by (rule sample_pipeline_run)
  have "pkt_Token (cx_Packet sample_bind_context) = ''k''" by (simp add: sample_bind_context_def NewContext_def)
  then have "pkt_ClientID (cx_Packet c') = ''alice''"
    using accepted_identity[OF run _ session_inv_New]
    by (auto simp: sample_pipeline_state_def sample_pipeline_def static_Verify_def sample_principal_def owned_by_def)
  with run show ?thesis by blast
qed

end
