(* ===== verification/Ingress.thy ===== *)
theory Ingress
  imports Pipeline Route_Manager Downlink_Ack
begin

text \<open>
  The ingress router (\<^verbatim>\<open>src/internal/server/ingress_router.go\<close>): what the gateway does with one request of a
  connection, from the bytes to the acknowledgement.  It composes the codec, the pipeline, the leases of the route manager,
  the routing engine and the downlink service.  Sessions and registry of the pipeline are those of the downlink service.
  The steps of one request follow each other; \<^verbatim>\<open>Route_Manager\<close> treats what other requests and reloads do in between.
\<close>

section \<open>Router, state and effects\<close>

text \<open>
  \<open>ir_upstream\<close> is the fixed engine, used where there is no route manager.  The arguments of \<open>ingress_env\<close> stand for the JSON
  codec, the texts of errors, the clock of the acknowledgement, and whether the connection manager knows a connection.
\<close>

record ('s, 'w) ingress_router =
  ir_pipeline :: "'s pipeline_config"
  ir_upstream :: "'w route list option"
  ir_downlink :: "service option"

record ingress_env =
  iv_pipeline :: pipeline_env
  iv_downlink :: env
  iv_marshal :: "ack \<Rightarrow> string + bytes"
  iv_unmarshal :: "bytes \<Rightarrow> string + delivery_ack"
  iv_render :: "pipeline_cause \<Rightarrow> string"
  iv_decode_text :: "protocol_err \<Rightarrow> string"
  iv_ack_time :: "64 word"
  iv_known_conn :: "64 word \<Rightarrow> bool"

record ('s, 'w) ingress_state =
  ig_rate :: "(string, rate_bucket) gomap"
  ig_quota :: "'s \<times> policy_runtime option"
  ig_world :: world
  ig_routes :: "'w route_manager option"
  ig_upstream :: 'w

text \<open>
  What a request causes, in order: an acknowledgement (with the packet it refers to, its code, its reason and the bytes
  that are sent, if it can be built), a packet handed to the routing engine, a delivery acknowledgement handed to the downlink service, a
  connection that is stopped, and a flush of pending messages that is started in the background.
\<close>

datatype ingress_effect =
    Sent_ack "packet option" string string "(32 word \<times> bytes) option"
  | Forwarded packet
  | Acknowledged string string delivery_ack
  | Stopped "64 word"
  | Flushing string string

definition sendAck :: "ingress_env \<Rightarrow> packet option \<Rightarrow> string \<Rightarrow> string \<Rightarrow> ingress_effect" where
  "sendAck E origin code reason = Sent_ack origin code reason
    (case NewAckPacket (iv_marshal E) (iv_ack_time E) origin code reason of Inl _ \<Rightarrow> None
     | Inr p \<Rightarrow> (case Encode (Some p) of Inl _ \<Rightarrow> None | Inr (data, _) \<Rightarrow> Some (MsgIDAck, data)))"

definition contextSession :: "pipeline_context \<Rightarrow> session option" where
  "contextSession c = (if cx_Session c \<noteq> None then cx_Session c else map_option br_Session (cx_BindResult c))"

definition stopReplacedConnection :: "ingress_env \<Rightarrow> 64 word \<Rightarrow> session option \<Rightarrow> ingress_effect list" where
  "stopReplacedConnection E currentConnID replaced = (case replaced of None \<Rightarrow> []
     | Some s \<Rightarrow> if ss_ConnID s = currentConnID then [] else if iv_known_conn E (ss_ConnID s) then [Stopped (ss_ConnID s)] else [])"

definition flushDownlinkPending :: "('s, 'w) ingress_router \<Rightarrow> world \<Rightarrow> bind_result \<Rightarrow> ingress_effect list" where
  "flushDownlinkPending R w b = (if ir_downlink R = None \<or> w_store w = None \<or> \<not> br_Created b then []
     else [Flushing (ss_ClientID (br_Session b)) (ss_DeviceID (br_Session b))])"

section \<open>Acknowledgements of deliveries, and forwarding\<close>

definition handleDownlinkAck :: "('s, 'w) ingress_router \<Rightarrow> ingress_env \<Rightarrow> pipeline_context \<Rightarrow> world \<Rightarrow> ingress_effect list \<times> world" where
  "handleDownlinkAck R E c w =
    (let packet = cx_Packet c; reject = (\<lambda>reason. sendAck E (Some packet) AckRejected reason) in
     case ir_downlink R of
       None \<Rightarrow> ([reject (Error DlErrStoreNotConfigured)], w)
     | Some s \<Rightarrow> (case contextSession c of
         None \<Rightarrow> ([reject ''session is not bound''], w)
       | Some bound \<Rightarrow> (case iv_unmarshal E (pkt_Body packet) of
           Inl err \<Rightarrow> ([reject err], w)
         | Inr ack \<Rightarrow>
             let ack = (if da_MessageID ack = '''' then ack\<lparr>da_MessageID := pkt_MessageID packet\<rparr> else ack) in
             (case run_state (Ack (iv_downlink E) s (ss_ClientID bound) (ss_DeviceID bound) ack) w of
                (Inl err, w) \<Rightarrow> ([Acknowledged (ss_ClientID bound) (ss_DeviceID bound) ack, reject (Error err)], w)
              | (Inr m, w) \<Rightarrow> ([Acknowledged (ss_ClientID bound) (ss_DeviceID bound) ack, sendAck E (Some packet) AckAccepted ''''], w)))))"

definition upstreamAckReason :: "forward_err \<Rightarrow> string" where
  "upstreamAckReason err = (if err = Overloaded then ReasonOverloaded else ReasonUpstreamFailed)"

text \<open>Whether the request is accepted, what happened, and the upstream afterwards.\<close>

definition forwardUpstream :: "('s, 'w) ingress_router \<Rightarrow> ingress_env \<Rightarrow> ('w route_manager \<times> nat) option \<Rightarrow> packet \<Rightarrow> 'w
    \<Rightarrow> (bool \<times> ingress_effect list) \<times> 'w" where
  "forwardUpstream R E lease packet u =
    (let run = (\<lambda>f. case f packet u of
        ((_, Some RouteNotFound), u) \<Rightarrow> ((True, [Forwarded packet]), u)
      | ((_, Some err), u) \<Rightarrow> ((False, [Forwarded packet, sendAck E (Some packet) AckRejected (upstreamAckReason err)]), u)
      | ((_, None), u) \<Rightarrow> ((True, [Forwarded packet]), u)) in
     case lease of Some (m, l) \<Rightarrow> run (lease_Forward m l)
     | None \<Rightarrow> (case ir_upstream R of None \<Rightarrow> ((True, []), u) | Some engine \<Rightarrow> run (engine_Forward engine)))"

section \<open>One request\<close>

definition pipeline_of :: "('s, 'w) ingress_state \<Rightarrow> 's pipeline_state" where
  "pipeline_of st = \<lparr>pi_rate = ig_rate st, pi_quota = ig_quota st, pi_sessions = Some (w_sessions (ig_world st)), pi_registry = w_registry (ig_world st)\<rparr>"

definition after_pipeline :: "('s, 'w) ingress_state \<Rightarrow> 's pipeline_state \<Rightarrow> ('s, 'w) ingress_state" where
  "after_pipeline st p = st\<lparr>ig_rate := pi_rate p, ig_quota := pi_quota p,
     ig_world := (ig_world st)\<lparr>w_sessions := (case pi_sessions p of None \<Rightarrow> w_sessions (ig_world st) | Some m \<Rightarrow> m), w_registry := pi_registry p\<rparr>\<rparr>"

text \<open>The request after the packet was decoded and a lease was taken, if there is one; \<open>None\<close> is a panic of the pipeline.\<close>

definition handle_packet :: "('s, 'w) ingress_router \<Rightarrow> ingress_env \<Rightarrow> 64 word \<Rightarrow> nat option \<Rightarrow> pipeline_context \<Rightarrow> ('s, 'w) ingress_state
    \<Rightarrow> (ingress_effect list \<times> ('s, 'w) ingress_state) option" where
  "handle_packet R E connID lease c st =
    (case chain_Run (newIngressPipeline (ir_pipeline R) (iv_pipeline E)) c (pipeline_of st) of
       None \<Rightarrow> None
     | Some ((Some err, c), p) \<Rightarrow>
         (case AckError (iv_render E) (Some err) of (code, reason) \<Rightarrow> Some ([sendAck E (Some (cx_Packet c)) code reason], after_pipeline st p))
     | Some ((None, c), p) \<Rightarrow>
         let st = after_pipeline st p; packet = cx_Packet c;
             bound = (case cx_BindResult c of None \<Rightarrow> []
               | Some b \<Rightarrow> stopReplacedConnection E connID (br_Replaced b) @ flushDownlinkPending R (ig_world st) b) in
         if pkt_MsgID packet = MsgIDBind then Some (bound @ [sendAck E (Some packet) AckAccepted ''''], st)
         else if pkt_MsgID packet = MsgIDDownlinkAck then
           (case handleDownlinkAck R E c (ig_world st) of (es, w) \<Rightarrow> Some (bound @ es, st\<lparr>ig_world := w\<rparr>))
         else (case forwardUpstream R E (case (lease, ig_routes st) of (Some l, Some m) \<Rightarrow> Some (m, l) | _ \<Rightarrow> None) packet (ig_upstream st) of
             ((ok, es), u) \<Rightarrow> Some (bound @ es @ (if ok then [sendAck E (Some packet) AckAccepted ''''] else []), st\<lparr>ig_upstream := u\<rparr>)))"

definition Handle :: "('s, 'w) ingress_router \<Rightarrow> ingress_env \<Rightarrow> 64 word \<Rightarrow> bytes \<Rightarrow> ('s, 'w) ingress_state
    \<Rightarrow> (ingress_effect list \<times> ('s, 'w) ingress_state) option" where
  "Handle R E connID data st = (case Decode data of
     Inl err \<Rightarrow> Some ([sendAck E None AckDecodeFailed (iv_decode_text E err)], st)
   | Inr packet \<Rightarrow>
       let c = NewContext connID packet in
       if pkt_MsgID packet = MsgIDBind \<or> pkt_MsgID packet = MsgIDDownlinkAck then handle_packet R E connID None c st
       else (case ig_routes st of
           None \<Rightarrow> handle_packet R E connID None c st
         | Some m \<Rightarrow> (case Acquire m of
             (Inl _, m) \<Rightarrow> Some ([sendAck E (Some packet) AckRejected ReasonUpstreamFailed], st\<lparr>ig_routes := Some m\<rparr>)
           | (Inr l, m) \<Rightarrow>
               (case lease_ResolveRoute m l (pkt_MsgID packet) of (routeName, found) \<Rightarrow>
                  (case handle_packet R E connID (Some l) (SetRouteResolution routeName found c) (st\<lparr>ig_routes := Some m\<rparr>) of None \<Rightarrow> None
                   | Some (es, st) \<Rightarrow> Some (es, st\<lparr>ig_routes := map_option (lease_Release l) (ig_routes st)\<rparr>))))))"

section \<open>What a request can cause\<close>

text \<open>The connection holds the session \<open>s\<close>, whose client the verifier named for the token of the decoded packet.\<close>

definition speaks_for :: "('s, 'w) ingress_router \<Rightarrow> 64 word \<Rightarrow> bytes \<Rightarrow> world \<Rightarrow> session \<Rightarrow> packet \<Rightarrow> bool" where
  "speaks_for R connID data w s packet \<longleftrightarrow> Decode data = Inr packet \<and> map_of (byConnID (w_sessions w)) connID = Some s
     \<and> (\<exists>f p. pg_verify (ir_pipeline R) = Some f \<and> f (pkt_Token packet) = (Some p, None) \<and> ss_ClientID s = pl_ClientID p)"

definition effect_ok :: "('s, 'w) ingress_router \<Rightarrow> 64 word \<Rightarrow> bytes \<Rightarrow> world \<Rightarrow> ingress_effect \<Rightarrow> bool" where
  "effect_ok R connID data w e = (case e of
     Sent_ack origin code _ _ \<Rightarrow> code = AckAccepted \<longrightarrow> (\<exists>s packet. speaks_for R connID data w s packet \<and> origin = Some (owned_by s packet))
   | Forwarded p \<Rightarrow> (\<exists>s packet. speaks_for R connID data w s packet \<and> p = owned_by s packet \<and> pkt_MsgID packet \<notin> {MsgIDBind, MsgIDDownlinkAck})
   | Acknowledged client device ack \<Rightarrow> (\<exists>s packet. speaks_for R connID data w s packet \<and> pair_of s = (client, device) \<and> pkt_MsgID packet = MsgIDDownlinkAck)
   | Stopped other \<Rightarrow> other \<noteq> connID \<and> (\<exists>s packet. speaks_for R connID data w s packet \<and> pkt_MsgID packet = MsgIDBind)
   | Flushing client device \<Rightarrow> (\<exists>s packet. speaks_for R connID data w s packet \<and> pair_of s = (client, device) \<and> pkt_MsgID packet = MsgIDBind))"

fun is_ack :: "ingress_effect \<Rightarrow> bool" where
  "is_ack (Sent_ack _ _ _ _) = True"
| "is_ack _ = False"

text \<open>One acknowledgement, and it comes last.\<close>

definition acked_last :: "ingress_effect list \<Rightarrow> bool" where
  "acked_last es \<longleftrightarrow> es \<noteq> [] \<and> is_ack (last es) \<and> (\<forall>e \<in> set (butlast es). \<not> is_ack e)"

lemma acked_last_append: "\<forall>e \<in> set pre. \<not> is_ack e \<Longrightarrow> acked_last es \<Longrightarrow> acked_last (pre @ es)"
  by (auto simp: acked_last_def butlast_append)

lemma is_ack_sendAck [simp]: "is_ack (sendAck E origin code reason)"
  by (simp add: sendAck_def)

lemma acked_last_single [simp]: "acked_last [sendAck E origin code reason]" "\<not> is_ack e \<Longrightarrow> acked_last [e, sendAck E origin code reason]"
  by (simp_all add: acked_last_def)

lemma effect_ok_reject: "code \<noteq> AckAccepted \<Longrightarrow> effect_ok R connID data w (sendAck E origin code reason)"
  by (simp add: effect_ok_def sendAck_def)

lemma Ack_sessions: "run_state (Ack E s c d ack) w = (r, w') \<Longrightarrow> w_sessions w' = w_sessions w"
  by (auto simp: Ack_def store_Get_def store_MarkDelivered_def run_on_store gets_def now_def ctx_Err_def reading_def Let_def case_prod_beta
      split: if_splits option.splits sum.splits)

lemma speaks_for_sessions: "w_sessions w' = w_sessions w \<Longrightarrow> speaks_for R connID data w' s packet = speaks_for R connID data w s packet"
  by (simp add: speaks_for_def)

text \<open>The acknowledgement at the end accepts the request.\<close>

definition accepted :: "ingress_effect list \<Rightarrow> bool" where
  "accepted es \<longleftrightarrow> (case last es of Sent_ack _ code _ _ \<Rightarrow> code = AckAccepted | _ \<Rightarrow> False)"

definition settles :: "ingress_effect list \<Rightarrow> world \<Rightarrow> bool" where
  "settles es w \<longleftrightarrow> (\<forall>client device ack. Acknowledged client device ack \<in> set es \<longrightarrow> accepted es \<longrightarrow> delivered_in w (da_MessageID ack))"

lemma sendAck_other [simp]: "sendAck E origin code reason \<noteq> Acknowledged client device ack" "Acknowledged client device ack \<noteq> sendAck E origin code reason"
  by (simp_all add: sendAck_def)

lemma accepted_sendAck [simp]: "accepted (es @ [sendAck E origin code reason]) \<longleftrightarrow> code = AckAccepted"
  "accepted [e, sendAck E origin code reason] \<longleftrightarrow> code = AckAccepted"
  by (simp_all add: accepted_def sendAck_def)

lemma handleDownlinkAck_ok:
  assumes h: "handleDownlinkAck R E c w = (es, w')" and s: "speaks_for R connID data w s packet"
    and c: "cx_Packet c = owned_by s packet" "contextSession c = Some s" and id: "pkt_MsgID packet = MsgIDDownlinkAck"
  shows "acked_last es \<and> (\<forall>e \<in> set es. effect_ok R connID data w' e) \<and> w_sessions w' = w_sessions w \<and> settles es w'"
proof -
  have acc: "effect_ok R connID data w' (sendAck E (Some (cx_Packet c)) AckAccepted r)" if "w_sessions w' = w_sessions w" for w' r
    using s c(1) speaks_for_sessions[OF that, of R connID data] by (auto simp: effect_ok_def sendAck_def)
  have settle: "effect_ok R connID data w' (Acknowledged (ss_ClientID s) (ss_DeviceID s) a)" if "w_sessions w' = w_sessions w" for w' a
    using s id speaks_for_sessions[OF that, of R connID data] by (auto simp: effect_ok_def pair_of_def)
  show ?thesis
  proof (cases "\<exists>svc a. ir_downlink R = Some svc \<and> iv_unmarshal E (pkt_Body (cx_Packet c)) = Inr a")
    case False
    then have "w' = w \<and> (\<exists>reason. es = [sendAck E (Some (cx_Packet c)) AckRejected reason])"
      using h c(2) by (auto simp: handleDownlinkAck_def Let_def split: option.splits sum.splits)
    then show ?thesis using effect_ok_reject[OF ack_codes(1)] by (auto simp: settles_def)
  next
    case True
    then obtain svc a where d: "ir_downlink R = Some svc" "iv_unmarshal E (pkt_Body (cx_Packet c)) = Inr a" by auto
    define a' where "a' = (if da_MessageID a = '''' then a\<lparr>da_MessageID := pkt_MessageID (cx_Packet c)\<rparr> else a)"
    obtain r w1 where run: "run_state (Ack (iv_downlink E) svc (ss_ClientID s) (ss_DeviceID s) a') w = (r, w1)" by fastforce
    note keep = Ack_sessions[OF run]
    show ?thesis
    proof (cases r)
      case (Inl err)
      then have "es = [Acknowledged (ss_ClientID s) (ss_DeviceID s) a', sendAck E (Some (cx_Packet c)) AckRejected (Error err)]" "w' = w1"
        using h c(2) d run by (simp_all add: handleDownlinkAck_def Let_def a'_def[symmetric])
      then show ?thesis
        using keep settle effect_ok_reject[OF ack_codes(1)] by (auto simp: settles_def ack_codes)
    next
      case (Inr m)
      then have e: "es = [Acknowledged (ss_ClientID s) (ss_DeviceID s) a', sendAck E (Some (cx_Packet c)) AckAccepted '''']" "w' = w1"
        using h c(2) d run by (simp_all add: handleDownlinkAck_def Let_def a'_def[symmetric])
      have "delivered_in w1 (da_MessageID a')" using Ack_delivers run Inr by metis
      then show ?thesis using keep settle acc e by (auto simp: settles_def)
    qed
  qed
qed

lemma forwardUpstream_ok:
  assumes "forwardUpstream R E lease p u = ((ok, es), u')" and s: "speaks_for R connID data w s packet" "p = owned_by s packet"
    and id: "pkt_MsgID packet \<notin> {MsgIDBind, MsgIDDownlinkAck}"
  shows "acked_last (es @ (if ok then [sendAck E (Some p) AckAccepted ''''] else []))
    \<and> (\<forall>e \<in> set (es @ (if ok then [sendAck E (Some p) AckAccepted ''''] else [])). effect_ok R connID data w e)
    \<and> (\<forall>client device ack. Acknowledged client device ack \<notin> set es)"
proof -
  have acc: "effect_ok R connID data w (sendAck E (Some p) AckAccepted r)" for r
    using s by (auto simp: effect_ok_def sendAck_def)
  have fwd: "effect_ok R connID data w (Forwarded p)" using s id by (auto simp: effect_ok_def)
  have "(es, ok) = ([], True) \<or> (es, ok) = ([Forwarded p], True) \<or> (\<exists>reason. (es, ok) = ([Forwarded p, sendAck E (Some p) AckRejected reason], False))"
    using assms(1) by (auto simp: forwardUpstream_def Let_def split: option.splits prod.splits forward_err.splits)
  then show ?thesis using acc fwd effect_ok_reject[OF ack_codes(1)] by auto
qed

lemma bound_effects:
  assumes s: "speaks_for R connID data w s packet" and b: "br_Session b = s" "pkt_MsgID packet = MsgIDBind"
    and e: "e \<in> set (stopReplacedConnection E connID (br_Replaced b) @ flushDownlinkPending R w b)"
  shows "effect_ok R connID data w e" "\<not> is_ack e" "e \<noteq> Acknowledged client device ack"
proof -
  have "(\<exists>other. other \<noteq> connID \<and> e = Stopped other) \<or> e = Flushing (ss_ClientID s) (ss_DeviceID s)"
    using e b(1) by (auto simp: stopReplacedConnection_def flushDownlinkPending_def split: option.splits if_splits)
  then show "effect_ok R connID data w e" "\<not> is_ack e" "e \<noteq> Acknowledged client device ack"
    using s b(2) unfolding effect_ok_def pair_of_def by (elim disjE exE conjE; simp; blast)+
qed

lemma handle_packet_ok:
  assumes h: "handle_packet R E connID lease c st = Some (es, st')" and m: "session_inv (w_sessions (ig_world st))"
    and c: "cx_ConnID c = connID" "cx_BindResult c = None" "Decode data = Inr (cx_Packet c)"
  shows "acked_last es \<and> (\<forall>e \<in> set es. effect_ok R connID data (ig_world st') e) \<and> settles es (ig_world st')
    \<and> session_inv (w_sessions (ig_world st')) \<and> ig_routes st' = ig_routes st"
proof -
  let ?g = "ir_pipeline R" and ?E = "iv_pipeline E"
  obtain e c' p where run: "chain_Run (newIngressPipeline ?g ?E) c (pipeline_of st) = Some ((e, c'), p)"
    using h by (auto simp: handle_packet_def split: option.splits)
  have sess: "pi_sessions (pipeline_of st) = Some (w_sessions (ig_world st))" by (simp add: pipeline_of_def)
  obtain m' where m': "pi_sessions p = Some m'" "session_inv m'"
    using keeps_sessionsD[OF pipeline_sessions run sess m] by blast
  define st1 where "st1 = after_pipeline st p"
  have st1: "w_sessions (ig_world st1) = m'" "ig_routes st1 = ig_routes st" using m'(1) by (simp_all add: st1_def after_pipeline_def)
  show ?thesis
  proof (cases e)
    case (Some err)
    obtain reason where r: "AckError (iv_render E) (Some err) = (px_Code err, reason)" by (cases "px_Reason err = []") (auto simp: AckError_def)
    have "es = [sendAck E (Some (cx_Packet c')) (px_Code err) reason]" "st' = st1"
      using h run Some r by (simp_all add: handle_packet_def st1_def)
    then show ?thesis
      using effect_ok_reject[OF rejection_code[OF run[unfolded Some]]] m'(2) st1 by (simp add: settles_def)
  next
    case None
    obtain f pr m2 s where F: "pg_verify ?g = Some f" "f (pkt_Token (cx_Packet c)) = (Some pr, None)" "pi_sessions p = Some m2" "session_inv m2"
      "map_of (byConnID m2) (cx_ConnID c) = Some s" "ss_ClientID s = pl_ClientID pr" "cx_Session c' = Some s" "cx_Packet c' = owned_by s (cx_Packet c)"
      "cx_BindResult c' = None \<or> map_option br_Session (cx_BindResult c') = Some s" "pkt_MsgID (cx_Packet c) \<noteq> MsgIDBind \<longrightarrow> cx_BindResult c' = None"
      using accepted_facts[OF run[unfolded None] sess m c(2)] .
    have id: "pkt_MsgID (cx_Packet c') = pkt_MsgID (cx_Packet c)" by (simp add: F(8) owned_by_def)
    have sp: "speaks_for R connID data w s (cx_Packet c)" if "w_sessions w = m'" for w
      using F m'(1) c that by (auto simp: speaks_for_def)
    define bound where "bound = (case cx_BindResult c' of None \<Rightarrow> []
        | Some b \<Rightarrow> stopReplacedConnection E connID (br_Replaced b) @ flushDownlinkPending R (ig_world st1) b)"
    have bnd: "effect_ok R connID data w x \<and> \<not> is_ack x \<and> (\<forall>client device ack. x \<noteq> Acknowledged client device ack)"
      if "x \<in> set bound" "w_sessions w = m'" for x w
    proof (cases "cx_BindResult c'")
      case (Some b)
      have "br_Session b = s" "pkt_MsgID (cx_Packet c) = MsgIDBind" using F(9,10) Some by auto
      note be = bound_effects[OF sp[OF st1(1)] this, of x E]
      have x: "x \<in> set (stopReplacedConnection E connID (br_Replaced b) @ flushDownlinkPending R (ig_world st1) b)"
        using that(1) Some by (simp add: bound_def)
      have "speaks_for R connID data w = speaks_for R connID data (ig_world st1)" using that(2) st1(1) by (simp add: speaks_for_def fun_eq_iff)
      then have "effect_ok R connID data w x = effect_ok R connID data (ig_world st1) x" by (simp add: effect_ok_def split: ingress_effect.split)
      then show ?thesis using be[OF x] by blast
    qed (use that in \<open>simp add: bound_def\<close>)
    consider (bind) "pkt_MsgID (cx_Packet c) = MsgIDBind" "es = bound @ [sendAck E (Some (cx_Packet c')) AckAccepted '''']" "st' = st1"
      | (ack) x w where "pkt_MsgID (cx_Packet c) = MsgIDDownlinkAck" "handleDownlinkAck R E c' (ig_world st1) = (x, w)" "es = bound @ x" "st' = st1\<lparr>ig_world := w\<rparr>"
          "pkt_MsgID (cx_Packet c) \<noteq> MsgIDBind"
      | (fwd) l ok x u where "pkt_MsgID (cx_Packet c) \<notin> {MsgIDBind, MsgIDDownlinkAck}" "forwardUpstream R E l (cx_Packet c') (ig_upstream st1) = ((ok, x), u)"
          "es = bound @ x @ (if ok then [sendAck E (Some (cx_Packet c')) AckAccepted ''''] else [])" "st' = st1\<lparr>ig_upstream := u\<rparr>"
      using h run None id unfolding handle_packet_def Let_def bound_def st1_def
      by (auto split: if_splits prod.splits)
    then show ?thesis
    proof cases
      case bind
      have "effect_ok R connID data (ig_world st1) (sendAck E (Some (cx_Packet c')) AckAccepted '''')"
        using sp[OF st1(1)] F(8) by (auto simp: effect_ok_def sendAck_def)
      then show ?thesis using bind bnd[OF _ st1(1)] m'(2) st1
        by (auto simp: settles_def intro!: acked_last_append)
    next
      case ack
      have no: "bound = []" using F(10) ack(5) by (simp add: bound_def)
      have "contextSession c' = Some s" by (simp add: contextSession_def F(7))
      from handleDownlinkAck_ok[OF ack(2) sp[OF st1(1)] F(8) this ack(1)] show ?thesis
        using ack no st1 m'(2) by simp
    next
      case fwd
      have no: "bound = []" using F(10) fwd(1) by (simp add: bound_def)
      from forwardUpstream_ok[OF fwd(2) sp[OF st1(1)] F(8) fwd(1)] show ?thesis
        using fwd no st1 m'(2) by (auto simp: settles_def split: if_splits)
    qed
  qed
qed

text \<open>The leases a request took are returned, and the others are as they were.\<close>

definition leases_returned :: "'w route_manager option \<Rightarrow> 'w route_manager option \<Rightarrow> bool" where
  "leases_returned r r' \<longleftrightarrow> (case (r, r') of
     (Some m, Some m') \<Rightarrow> (\<exists>new. rm_leases m' = rm_leases m @ new \<and> (\<forall>(g, released) \<in> set new. released))
   | (None, None) \<Rightarrow> True | _ \<Rightarrow> False)"

lemma leases_returned_refl: "leases_returned r r"
  by (simp add: leases_returned_def split: option.split)

lemma Acquire_Inl: "Acquire m = (Inl e, m') \<Longrightarrow> m' = m"
  by (auto simp: Acquire_def Let_def split: if_splits option.splits)

lemma Acquire_Release:
  assumes "Acquire m = (Inr l, m')"
  shows "leases_returned (Some m) (Some (lease_Release l m'))"
proof -
  obtain g where "rm_leases m' = rm_leases m @ [(g, False)]" "l = length (rm_leases m)"
    using assms by (auto simp: Acquire_def Let_def upd_gen_def split: if_splits option.splits)
  then show ?thesis by (simp add: leases_returned_def lease_Release_def spawn_def)
qed

section \<open>Property\<close>

text \<open>
  C4.  What one request can cause (\<^verbatim>\<open>IngressRouter.Handle\<close>, \<^verbatim>\<open>src/internal/server/ingress_router.go\<close>), whatever its bytes are.
  It is acknowledged once, at the end.  Nothing is forwarded, no delivery is confirmed, no pending messages are
  flushed, no other connection is stopped and nothing is acknowledged as accepted unless the packet decodes, the verifier accepts its
  token, and the connection holds a session of that client; what is forwarded or confirmed carries the identity of that
  session.  A delivery acknowledgement that is answered as accepted has marked its message delivered.  The lease of the routes is
  returned, and the sessions keep their invariant.
\<close>

theorem request_effects:
  assumes "Handle R E connID data st = Some (es, st')" and "session_inv (w_sessions (ig_world st))"
  shows "acked_last es \<and> (\<forall>e \<in> set es. effect_ok R connID data (ig_world st') e) \<and> settles es (ig_world st')
    \<and> session_inv (w_sessions (ig_world st')) \<and> leases_returned (ig_routes st) (ig_routes st')"
proof (cases "Decode data")
  case (Inl err)
  then show ?thesis using assms effect_ok_reject[OF ack_codes(4)] leases_returned_refl by (auto simp: Handle_def settles_def)
next
  case (Inr packet)
  let ?c = "NewContext connID packet"
  have c: "cx_ConnID ?c = connID" "cx_BindResult ?c = None" "cx_Packet ?c = packet" by (simp_all add: NewContext_def)
  consider (plain) "handle_packet R E connID None ?c st = Some (es, st')"
    | (refused) m err m' where "ig_routes st = Some m" "Acquire m = (Inl err, m')"
        "es = [sendAck E (Some packet) AckRejected ReasonUpstreamFailed]" "st' = st\<lparr>ig_routes := Some m'\<rparr>"
    | (leased) m l m' name found st1 where "ig_routes st = Some m" "Acquire m = (Inr l, m')"
        "handle_packet R E connID (Some l) (SetRouteResolution name found ?c) (st\<lparr>ig_routes := Some m'\<rparr>) = Some (es, st1)"
        "st' = st1\<lparr>ig_routes := map_option (lease_Release l) (ig_routes st1)\<rparr>"
    using assms(1) Inr by (auto simp: Handle_def Let_def split: if_splits option.splits prod.splits sum.splits)
  then show ?thesis
  proof cases
    case plain
    from handle_packet_ok[OF this assms(2) c(1,2)] show ?thesis using Inr c(3) leases_returned_refl by simp
  next
    case refused
    then show ?thesis using effect_ok_reject[OF ack_codes(1)] Acquire_Inl[OF refused(2)] assms(2) leases_returned_refl
      by (auto simp: settles_def)
  next
    case leased
    have d: "cx_ConnID (SetRouteResolution name found ?c) = connID" "cx_BindResult (SetRouteResolution name found ?c) = None"
      "Decode data = Inr (cx_Packet (SetRouteResolution name found ?c))" by (simp_all add: SetRouteResolution_def c Inr)
    have "session_inv (w_sessions (ig_world (st\<lparr>ig_routes := Some m'\<rparr>)))" using assms(2) by simp
    from handle_packet_ok[OF leased(3) this d] show ?thesis using leased(1,4) Acquire_Release[OF leased(2)] by simp
  qed
qed

definition sample_ingress_env :: ingress_env where
  "sample_ingress_env = \<lparr>iv_pipeline = sample_pipeline_env, iv_downlink = sample_env, iv_marshal = (\<lambda>_. Inr []), iv_unmarshal = (\<lambda>_. Inl []),
     iv_render = (\<lambda>_. []), iv_decode_text = (\<lambda>_. []), iv_ack_time = 0, iv_known_conn = (\<lambda>_. True)\<rparr>"

definition sample_router :: "(unit, unit) ingress_router" where
  "sample_router = \<lparr>ir_pipeline = sample_pipeline, ir_upstream = None, ir_downlink = None\<rparr>"

definition sample_ingress_state :: "(unit, unit) ingress_state" where
  "sample_ingress_state = \<lparr>ig_rate = [], ig_quota = ((), None), ig_world = sample_world\<lparr>w_sessions := NewManager, w_registry := None\<rparr>,
     ig_routes = None, ig_upstream = ()\<rparr>"

definition sample_bind_data :: bytes where
  "sample_bind_data = header_bytes (cx_Packet sample_bind_context) @ variable_bytes (cx_Packet sample_bind_context)"

lemma sample_bind_decodes: "Decode sample_bind_data = Inr (cx_Packet sample_bind_context)"
  unfolding Decode_def sample_bind_data_def
  by (subst DecodeWithMaxBodySize_header_variable)
     (simp_all add: sample_bind_context_def NewContext_def NewPacket_def encodable_def packet_fields_def DefaultMaxBodySize_def MsgIDBind_def)

theorem request_effects_witness:
  "\<exists>es st'. Handle sample_router sample_ingress_env 7 sample_bind_data sample_ingress_state = Some (es, st') \<and> acked_last es \<and> accepted es
     \<and> session_inv (w_sessions (ig_world st'))"
proof -
  obtain c' p where run: "chain_Run (newIngressPipeline sample_pipeline sample_pipeline_env) sample_bind_context sample_pipeline_state = Some ((None, c'), p)"
    by (rule sample_pipeline_run)
  have ctx: "NewContext 7 (cx_Packet sample_bind_context) = sample_bind_context" "pkt_MsgID (cx_Packet sample_bind_context) = MsgIDBind"
    by (simp_all add: sample_bind_context_def NewContext_def NewPacket_def)
  have pipe: "pipeline_of sample_ingress_state = sample_pipeline_state"
    by (simp add: pipeline_of_def sample_ingress_state_def sample_pipeline_state_def)
  have sess: "pi_sessions sample_pipeline_state = Some NewManager" "cx_BindResult sample_bind_context = None"
    by (simp_all add: sample_pipeline_state_def sample_bind_context_def NewContext_def)
  have id: "pkt_MsgID (cx_Packet c') = MsgIDBind"
    using accepted_facts[OF run sess(1) session_inv_New sess(2)] ctx(2) by (metis owned_by_def packet.select_convs(3) packet.surjective packet.update_convs(6,7,8))
  have "\<exists>pre o1 st'. Handle sample_router sample_ingress_env 7 sample_bind_data sample_ingress_state
      = Some (pre @ [sendAck sample_ingress_env o1 AckAccepted ''''], st')"
    using run id by (simp add: Handle_def sample_bind_decodes Let_def ctx handle_packet_def pipe sample_router_def sample_ingress_env_def) blast
  then obtain pre o1 st' where h: "Handle sample_router sample_ingress_env 7 sample_bind_data sample_ingress_state
      = Some (pre @ [sendAck sample_ingress_env o1 AckAccepted ''''], st')" by blast
  have "session_inv (w_sessions (ig_world sample_ingress_state))" by (simp add: sample_ingress_state_def session_inv_New)
  from request_effects[OF h this] h show ?thesis by auto
qed

end
