(* ===== verification/Spec2Isabelle.thy ===== *)
theory Spec2Isabelle
  imports Protocol Frame Session Cluster Store_Theorems Downlink_Liveness Signing Route_Manager Http_Forwarder Quota_Rate Ingress
begin

text \<open>
  A verification library for Z-Courier, a message gateway written in Go: devices keep a long-lived connection to a
  gateway node; the gateway authenticates and limits what they send, forwards it to HTTP upstreams, and delivers the
  messages of backends down to them, with retries until they acknowledge.  All source paths are under \<^verbatim>\<open>src/\<close>.

  \<^bold>\<open>The parts and how they interact.\<close>  A frame of a connection holds a packet.  The ingress pipeline verifies its token,
  applies lists, rate limit and traffic policies, and binds or looks up the session of the connection in the session
  manager; in a cluster the session is also published in the online registry.  An accepted packet is forwarded by the
  route generation that is active when the request starts, through an engine that picks the route and a forwarder that picks
  an endpoint.  In the other direction a backend pushes a message: the downlink service stores it, finds the session of the
  device here or at a peer, sends a packet and waits for the acknowledgement; workers retry, publish terminal events and
  delete what has expired.  Requests between nodes and from backends are signed.

  \<^bold>\<open>Foundations.\<close>
  \<^item> \<^verbatim>\<open>Prelude\<close>: instants, durations, contexts, maps with an iteration order, \<^verbatim>\<open>sort.Slice\<close>, byte order; the locale
    \<^verbatim>\<open>slice_order\<close> for sorting.  \<^verbatim>\<open>Go_Strings\<close>: decimal numbers, splitting, escapes, query strings.
  \<^item> \<^verbatim>\<open>Go_Float\<close>: \<^verbatim>\<open>float64\<close> with IEEE rounding; the locale \<^verbatim>\<open>rounding\<close> and its instance.
  \<^item> \<^verbatim>\<open>Transition\<close>: reachability under a restriction on the schedule, and the locale \<^verbatim>\<open>invariant_of\<close>.

  \<^bold>\<open>Components.\<close>
  \<^item> \<^verbatim>\<open>Protocol\<close> (\<^verbatim>\<open>pkg/sdk/protocol\<close>): packets, codec, acknowledgements.  Encoding and decoding are inverse in
    both directions, on readers too; every truncation is an error.
  \<^item> \<^verbatim>\<open>Frame\<close> (\<^verbatim>\<open>pkg/sdk/client/frame.go\<close>, \<^verbatim>\<open>dedup.go\<close>): frames on a stream, the duplicate filter of the client.
  \<^item> \<^verbatim>\<open>Session\<close> (\<^verbatim>\<open>internal/session/manager.go\<close>): one session for each connection, three indexes that agree; binding
    refines a map from devices to sessions, and a late close of an old connection never removes a newer session.
  \<^item> \<^verbatim>\<open>Cluster\<close> (\<^verbatim>\<open>internal/cluster\<close>): the online registry in memory; \<^verbatim>\<open>Cluster_Routes\<close> (\<^verbatim>\<open>internal/server/cluster.go\<close>
    and \<^verbatim>\<open>onConnStop\<close>): how a gateway publishes, refreshes and withdraws its sessions there.
  \<^item> \<^verbatim>\<open>Delivery_Policy\<close>, \<^verbatim>\<open>Message\<close>, \<^verbatim>\<open>Identity\<close>, \<^verbatim>\<open>Fairness\<close>, \<^verbatim>\<open>Retry_Timing\<close> (\<^verbatim>\<open>internal/downlink\<close>:
    \<^verbatim>\<open>policy.go\<close>, \<^verbatim>\<open>store.go\<close>, \<^verbatim>\<open>terminal.go\<close>, \<^verbatim>\<open>identity.go\<close>, \<^verbatim>\<open>fairness.go\<close>, \<^verbatim>\<open>service.go\<close>): which policy a message
    has, what makes two messages the same, how due messages are dealt fairly over devices, when the next attempt is.
  \<^item> \<^verbatim>\<open>Memory_Store\<close> (\<^verbatim>\<open>memory_store.go\<close>): every operation of the store; \<^verbatim>\<open>Store_Correct\<close>, \<^verbatim>\<open>Store_Props\<close>, \<^verbatim>\<open>Store_Events\<close>,
    \<^verbatim>\<open>Store_Runs\<close> and \<^verbatim>\<open>Store_Theorems\<close>: its invariant, the status graph, queue limits, exclusive claims, terminal events,
    retention and paging, over every store its operations reach.
  \<^item> \<^verbatim>\<open>Downlink_Types\<close>, \<^verbatim>\<open>Downlink_Service\<close> (\<^verbatim>\<open>service.go\<close>, \<^verbatim>\<open>types.go\<close>): the service as a state monad over the world of
    store, sessions, registry and what was sent; \<^verbatim>\<open>Downlink_Logic\<close> is the locale of relations every operation respects.
    \<^verbatim>\<open>Downlink_Theorems\<close>, \<^verbatim>\<open>Downlink_Delivery\<close>, \<^verbatim>\<open>Downlink_Ack\<close>, \<^verbatim>\<open>Downlink_Attempts\<close>, \<^verbatim>\<open>Downlink_Liveness\<close>: the service moves the
    store only by the store's operations, loses no open message, sends to no foreign device, sends nothing after the
    acknowledgement, attempts no message too often, and sends a due message whose device is online.
  \<^item> \<^verbatim>\<open>Signing\<close> (\<^verbatim>\<open>pkg/sdk/signing\<close>): canonical string, signer, verifier, nonce store.  What is signed verifies, and a nonce
    is accepted once.
  \<^item> \<^verbatim>\<open>Resilience\<close> (\<^verbatim>\<open>internal/capacity\<close>, \<^verbatim>\<open>internal/resilience\<close>), \<^verbatim>\<open>Router\<close> (\<^verbatim>\<open>internal/router\<close>, \<^verbatim>\<open>internal/server/upstream.go\<close>),
    \<^verbatim>\<open>Http_Forwarder\<close> (\<^verbatim>\<open>internal/adapter/httpforwarder\<close>): capacity limits, dependency health, first-match routing, endpoint
    selection and failover, which never repeats a request that an upstream answered.
  \<^item> \<^verbatim>\<open>Route_Manager\<close> (\<^verbatim>\<open>internal/server/route_manager.go\<close>): generations of routes under reload.  Its steps are the atomic operations
    of the code, in any interleaving of requests, reloads, shutdown and closing goroutines.
  \<^item> \<^verbatim>\<open>Auth\<close> (\<^verbatim>\<open>internal/auth\<close>: \<^verbatim>\<open>auth.go\<close>, \<^verbatim>\<open>static.go\<close>, \<^verbatim>\<open>cache.go\<close>): static tokens and the cache in front of a verifier.
  \<^item> \<^verbatim>\<open>Quota\<close>, \<^verbatim>\<open>Quota_Rate\<close> (\<^verbatim>\<open>internal/pipeline\<close>: traffic policies and the local quota store): the store stays well formed, and the
    rate it admits is bounded with every rounding counted.
  \<^item> \<^verbatim>\<open>Pipeline\<close> (\<^verbatim>\<open>internal/pipeline\<close>, \<^verbatim>\<open>newIngressPipeline\<close>): the chain of handlers; an accepted packet carries the identity of the session
    bound to its connection and of its token.
  \<^item> \<^verbatim>\<open>Ingress\<close> (\<^verbatim>\<open>internal/server/ingress_router.go\<close>): one request from its bytes to its acknowledgement, over the codec, the
    pipeline, the leases, the engine and the downlink service.  Without an accepted token and a session of its client on the
    connection it is answered and causes nothing else.

  \<^bold>\<open>Conventions.\<close>  A struct is a record, an error a value of a sum or option type, a Go map an association list with
  distinct keys whose order is the iteration order.  Integers of the wire are words; \<^verbatim>\<open>int\<close> and \<^verbatim>\<open>time.Duration\<close> values are
  integers, with \<^verbatim>\<open>wrap_int64\<close> or saturation where the code can leave the range.  Clock readings, random values, states of a
  context, digests, JSON, network and peers are arguments.  Code that runs under a mutex is one step; where the code uses
  atomics instead, each of them is a step.  Logging and metrics are left out.

  \<^bold>\<open>Fuel.\<close>  \<^verbatim>\<open>discovered_loop\<close> is called with as many rounds as the code's loop has attempts, so it never runs out before the
  loop ends.  \<^verbatim>\<open>all_pages\<close>, which follows the cursors of the message list, returns with more fuel than there are messages.  All other
  loops are structural or have a termination proof.

  \<^bold>\<open>Deviations found.\<close>  \<^verbatim>\<open>future_timestamp_accepted\<close> (\<^verbatim>\<open>Signing\<close>): a signed timestamp far enough in the future passes the skew check, since the
  clock difference saturates and its negation wraps.  \<^verbatim>\<open>drain_race\<close> (\<^verbatim>\<open>Route_Manager\<close>): \<^verbatim>\<open>closeIfDrained\<close> reads the count before the
  state, and a request and a reload between the two reads let it close an engine under a live lease;
  \<^verbatim>\<open>lease_keeps_open\<close> excludes exactly these schedules.

  \<^bold>\<open>Not modelled.\<close>  Postgres and Redis stores (their behaviour is SQL and Lua run elsewhere); JWT and HTTP token
  verifiers, NSQ, webhooks and DNS (third-party packages and the network; their results are arguments); the
  workers and the wiring of the gateway beyond the pipeline chain, the ingress router and the end of a connection; HTTP handlers of the admin, debug and
  downlink interfaces; YAML configuration and its validation (components take validated settings); metrics; the connections of the
  Go SDK; the PHP SDK, commands, tests and the browser console.
\<close>

end
